(* ===== verification/Prelude.thy ===== *)
theory Prelude
  imports Complex_Main "HOL-Library.List_Lexorder" "HOL-Library.Char_ord" "HOL-Library.Product_Lexorder"
    "HOL-Library.Multiset" "HOL-Library.Option_ord"
begin

text \<open>
  What every theory of the development shares.

  \<^item> The model's base types: a point on the database's clock is a number of microseconds
    (\<open>time\<close>, the resolution of a \<^verbatim>\<open>timestamptz\<close>), a Python or SQL floating-point number of
    seconds is an exact rational (\<open>seconds\<close>).
  \<^item> SQL comparisons against a nullable column: a comparison with null is not true.
  \<^item> Python dictionaries as association lists in insertion order.
  \<^item> The \<open>named_theorems\<close> collections of the component theories and the generic lemmas on lists
    they use.
  \<^item> The locale \<open>invariant_system\<close>: a step relation and an invariant every step keeps.
\<close>

section \<open>Base types\<close>

type_synonym time = int
type_synonym seconds = rat

text \<open>Seconds as Postgres stores an interval: rounded to whole microseconds.\<close>

definition make_interval :: "seconds \<Rightarrow> time" where
  "make_interval secs = round (secs * 1000000)"

section \<open>Collections of facts\<close>

named_theorems sql_simps \<open>comparisons with nullable columns\<close>
named_theorems frame_simps \<open>what an operation leaves unchanged\<close>
named_theorems dict_simps \<open>lookups after dictionary updates\<close>

section \<open>SQL comparisons with a nullable column\<close>

fun sql_gt :: "time option \<Rightarrow> time \<Rightarrow> bool" where
  "sql_gt None _ = False"
| "sql_gt (Some a) b = (a > b)"

fun sql_le :: "time option \<Rightarrow> time \<Rightarrow> bool" where
  "sql_le None _ = False"
| "sql_le (Some a) b = (a \<le> b)"

lemma sql_gt_iff [sql_simps]: "sql_gt x t \<longleftrightarrow> (\<exists>a. x = Some a \<and> t < a)"
  by (cases x) auto

lemma sql_le_iff [sql_simps]: "sql_le x t \<longleftrightarrow> (\<exists>a. x = Some a \<and> a \<le> t)"
  by (cases x) auto

section \<open>Dictionaries as association lists in insertion order\<close>

fun dict_get :: "('k \<times> 'v) list \<Rightarrow> 'k \<Rightarrow> 'v option" where
  "dict_get [] k = None"
| "dict_get ((k', v) # d) k = (if k' = k then Some v else dict_get d k)"

text \<open>\<^verbatim>\<open>d[k] = v\<close>: a key that is there keeps its place, a new one goes to the end.\<close>

fun dict_put :: "('k \<times> 'v) list \<Rightarrow> 'k \<Rightarrow> 'v \<Rightarrow> ('k \<times> 'v) list" where
  "dict_put [] k v = [(k, v)]"
| "dict_put ((k', v') # d) k v = (if k' = k then (k', v) # d else (k', v') # dict_put d k v)"

definition dict_of :: "('k \<times> 'v) list \<Rightarrow> ('k \<times> 'v) list" where
  "dict_of kvs = fold (\<lambda>(k, v) d. dict_put d k v) kvs []"

abbreviation dict_keys :: "('k \<times> 'v) list \<Rightarrow> 'k list" where
  "dict_keys d \<equiv> map fst d"

lemma dict_get_map_of: "dict_get d = map_of d"
  by (rule ext, rename_tac k, induct_tac d) auto

lemma dict_get_put [simp, dict_simps]:
  "dict_get (dict_put d k v) k' = (if k' = k then Some v else dict_get d k')"
  by (induction d k v rule: dict_put.induct) auto

lemma dict_keys_put [simp, dict_simps]:
  "dict_keys (dict_put d k v) = (if k \<in> set (dict_keys d) then dict_keys d else dict_keys d @ [k])"
  by (induction d k v rule: dict_put.induct) auto

lemma distinct_dict_put [simp]:
  "distinct (dict_keys d) \<Longrightarrow> distinct (dict_keys (dict_put d k v))"
  by simp

lemma dict_get_None_iff: "dict_get d k = None \<longleftrightarrow> k \<notin> set (dict_keys d)"
  by (induction d k rule: dict_get.induct) auto

lemma dict_get_mem: "dict_get d k = Some v \<Longrightarrow> (k, v) \<in> set d"
  by (simp add: dict_get_map_of map_of_SomeD)

lemma dict_get_distinct: "distinct (dict_keys d) \<Longrightarrow> (k, v) \<in> set d \<Longrightarrow> dict_get d k = Some v"
  by (simp add: dict_get_map_of)

lemma dict_of_snoc: "dict_of (kvs @ [(k, v)]) = dict_put (dict_of kvs) k v"
  by (simp add: dict_of_def)

lemma distinct_dict_of: "distinct (dict_keys (dict_of kvs))"
proof (induction kvs rule: rev_induct)
  case Nil
  then show ?case by (simp add: dict_of_def)
next
  case (snoc kv kvs)
  then show ?case by (cases kv) (simp add: dict_of_snoc del: dict_keys_put)
qed

lemma set_keys_dict_of: "set (dict_keys (dict_of kvs)) = fst ` set kvs"
proof (induction kvs rule: rev_induct)
  case Nil
  then show ?case by (simp add: dict_of_def)
next
  case (snoc kv kvs)
  then show ?case by (cases kv) (auto simp: dict_of_snoc)
qed

lemma set_dict_put: "kv \<in> set (dict_put d k v) \<Longrightarrow> kv \<in> set d \<or> kv = (k, v)"
  by (induction d k v rule: dict_put.induct) (auto split: if_splits)

lemma set_dict_of: "kv \<in> set (dict_of kvs) \<Longrightarrow> kv \<in> set kvs"
proof (induction kvs rule: rev_induct)
  case Nil
  then show ?case by (simp add: dict_of_def)
next
  case (snoc x kvs)
  then show ?case by (cases x) (auto simp: dict_of_snoc dest: set_dict_put)
qed

lemma dict_of_distinct: "distinct (map fst kvs) \<Longrightarrow> dict_of kvs = kvs"
proof (induction kvs rule: rev_induct)
  case Nil
  then show ?case by (simp add: dict_of_def)
next
  case (snoc kv kvs)
  have "k \<notin> fst ` set d \<Longrightarrow> dict_put d k v = d @ [(k, v)]" for k v and d :: "('a \<times> 'b) list"
    by (induction d k v rule: dict_put.induct) auto
  with snoc show ?case by (cases kv) (simp add: dict_of_snoc)
qed

section \<open>Lists\<close>

lemma filter_map_other:
  assumes "\<And>x. x \<in> set xs \<Longrightarrow> P (f x) = P x" and "\<And>x. x \<in> set xs \<Longrightarrow> P x \<Longrightarrow> f x = x"
  shows "filter P (map f xs) = filter P xs"
  using assms by (induction xs) auto

lemma filter_map_same:
  assumes "\<And>x. x \<in> set xs \<Longrightarrow> P (f x) = P x"
  shows "filter P (map f xs) = map f (filter P xs)"
  using assms by (induction xs) auto

lemma find_Some_mem: "find P xs = Some x \<Longrightarrow> x \<in> set xs \<and> P x"
  by (induction xs) (auto split: if_splits)

lemma find_None_all: "find P xs = None \<longleftrightarrow> (\<forall>x \<in> set xs. \<not> P x)"
  by (induction xs) auto

lemma find_unique:
  assumes "x \<in> set xs" and "P x" and "\<And>y. y \<in> set xs \<Longrightarrow> P y \<Longrightarrow> y = x"
  shows "find P xs = Some x"
proof -
  obtain y where "find P xs = Some y"
    using assms(1,2) by (cases "find P xs") (auto simp: find_None_all)
  with assms(3) find_Some_mem show ?thesis by fastforce
qed

lemma map_if_last:
  assumes "distinct (map f xs)" and "xs \<noteq> []" and "f (last xs) = k"
  shows "map (\<lambda>x. if f x = k then g x else x) xs = butlast xs @ [g (last xs)]"
proof -
  obtain ys y where xs: "xs = ys @ [y]" using assms(2) by (metis append_butlast_last_id)
  have "f x \<noteq> k" if "x \<in> set ys" for x
    using that assms(1,3) unfolding xs by (auto simp: rev_image_eqI)
  then have "map (\<lambda>x. if f x = k then g x else x) ys = ys" by (simp add: map_idI)
  with assms(3) show ?thesis by (simp add: xs)
qed

lemma hd_sort_key_least:
  assumes "xs \<noteq> []"
  shows "hd (sort_key f xs) \<in> set xs" and "\<And>x. x \<in> set xs \<Longrightarrow> f (hd (sort_key f xs)) \<le> f x"
proof -
  obtain y ys where s: "sort_key f xs = y # ys"
    using assms by (metis length_0_conv length_sort list.exhaust)
  have "y \<in> set xs" by (metis list.set_intros(1) s set_sort)
  then show "hd (sort_key f xs) \<in> set xs" by (simp add: s)
  fix x assume "x \<in> set xs"
  then have "x \<in> set (y # ys)" by (metis s set_sort)
  moreover have "sorted (map f (y # ys))" by (metis s sorted_sort_key)
  ultimately show "f (hd (sort_key f xs)) \<le> f x" by (auto simp: s)
qed

text \<open>Sorting by a key that tells the elements apart forgets the order they came in.\<close>

lemma sort_key_mset_unique:
  assumes "mset xs = mset ys" and "distinct (map f xs)"
  shows "sort_key f xs = sort_key f ys"
proof (rule map_sorted_distinct_set_unique)
  have same: "set xs = set ys" using assms(1) by (rule mset_eq_setD)
  have inj: "inj_on f (set xs)" using assms(2) by (simp add: distinct_map)
  have "distinct xs" using assms(2) by (simp add: distinct_map)
  then have "distinct ys" using assms(1) by (metis mset_eq_imp_distinct_iff)
  with \<open>distinct xs\<close> inj same
  show "distinct (map f (sort_key f xs))" and "distinct (map f (sort_key f ys))"
    and "inj_on f (set (sort_key f xs) \<union> set (sort_key f ys))"
    and "set (sort_key f xs) = set (sort_key f ys)"
    by (auto simp: distinct_map)
qed (simp_all)

lemma sort_key_sorted_id: "sorted (map f xs) \<Longrightarrow> sort_key f xs = xs"
  by (rule properties_for_sort_key) simp_all

section \<open>Systems with an invariant\<close>

text \<open>
  A component with state: an initial predicate, a step relation, and an invariant that the initial
  states have and every step keeps. The component theories interpret it on their own step relations.
\<close>

inductive reach :: "('s \<Rightarrow> bool) \<Rightarrow> ('s \<Rightarrow> 's \<Rightarrow> bool) \<Rightarrow> 's \<Rightarrow> bool"
  for init :: "'s \<Rightarrow> bool" and step :: "'s \<Rightarrow> 's \<Rightarrow> bool" where
  reach_init: "init s \<Longrightarrow> reach init step s"
| reach_step: "reach init step s \<Longrightarrow> step s t \<Longrightarrow> reach init step t"

locale invariant_system =
  fixes init :: "'s \<Rightarrow> bool" and step :: "'s \<Rightarrow> 's \<Rightarrow> bool" and inv :: "'s \<Rightarrow> bool"
  assumes inv_init: "init s \<Longrightarrow> inv s"
    and inv_step: "inv s \<Longrightarrow> step s t \<Longrightarrow> inv t"
begin

lemma inv_reach: "reach init step s \<Longrightarrow> inv s"
  by (induction rule: reach.induct) (auto intro: inv_init inv_step)

lemma inv_steps: "step\<^sup>*\<^sup>* s t \<Longrightarrow> inv s \<Longrightarrow> inv t"
  by (induction rule: rtranclp_induct) (auto intro: inv_step)

lemma reach_steps: "step\<^sup>*\<^sup>* s t \<Longrightarrow> reach init step s \<Longrightarrow> reach init step t"
  by (induction rule: rtranclp_induct) (auto intro: reach_step)

end

end
