(* ===== verification/Json.thy ===== *)
theory Json
  imports Pystr
begin

text \<open>
  JSON values as Python's \<^verbatim>\<open>json\<close> module reads and writes them, with objects as association lists
  in insertion order, and the two normal forms the program compares values by: the text
  \<^verbatim>\<open>json.dumps(..., sort_keys=True)\<close> writes (\<open>sort_keys\<close>: every object's members sorted by key), and
  a stored \<^verbatim>\<open>jsonb\<close> value (\<open>jsonb\<close>: sorted members, the last of repeated keys, numbers compared as
  numbers). Floating-point numbers are exact rationals.
\<close>

datatype json =
    JNull
  | JBool bool
  | JInt int
  | JFloat rat
  | JStr string
  | JList "json list"
  | JObj "(string \<times> json) list"

fun is_obj :: "json \<Rightarrow> bool" where
  "is_obj (JObj _) = True"
| "is_obj _ = False"

text \<open>\<^verbatim>\<open>value.get(key)\<close> on a dictionary.\<close>

fun obj_get :: "json \<Rightarrow> string \<Rightarrow> json option" where
  "obj_get (JObj kvs) k = dict_get kvs k"
| "obj_get _ _ = None"

text \<open>\<^verbatim>\<open>str(value)\<close>, with \<open>rep\<close> for the \<^verbatim>\<open>repr\<close> of lists, objects and floats.\<close>

fun py_str :: "(json \<Rightarrow> string) \<Rightarrow> json \<Rightarrow> string" where
  "py_str rep (JStr s) = s"
| "py_str rep JNull = ''None''"
| "py_str rep (JBool b) = (if b then ''True'' else ''False'')"
| "py_str rep (JInt n) = show_int n"
| "py_str rep v = rep v"

text \<open>\<^verbatim>\<open>message.get(key)\<close>, with \<^verbatim>\<open>None\<close> for a missing key.\<close>

definition get_or_none :: "json \<Rightarrow> string \<Rightarrow> json" where
  "get_or_none m k = (case obj_get m k of None \<Rightarrow> JNull | Some v \<Rightarrow> v)"

fun sort_keys :: "json \<Rightarrow> json" where
  "sort_keys (JList xs) = JList (map sort_keys xs)"
| "sort_keys (JObj kvs) = JObj (sort_key fst (map (\<lambda>(k, v). (k, sort_keys v)) kvs))"
| "sort_keys v = v"

fun jsonb :: "json \<Rightarrow> json" where
  "jsonb (JInt n) = JFloat (of_int n)"
| "jsonb (JList xs) = JList (map jsonb xs)"
| "jsonb (JObj kvs) = JObj (sort_key fst (dict_of (map (\<lambda>(k, v). (k, jsonb v)) kvs)))"
| "jsonb v = v"

lemma sort_keys_obj_get:
  "distinct (map fst kvs) \<Longrightarrow>
   obj_get (sort_keys (JObj kvs)) k = map_option sort_keys (obj_get (JObj kvs) k)"
proof -
  assume d: "distinct (map fst kvs)"
  let ?m = "map (\<lambda>(k, v). (k, sort_keys v)) kvs"
  have d': "distinct (map fst ?m)" using d by (simp add: case_prod_unfold comp_def)
  have "map_of (sort_key fst ?m) = map_of ?m"
  proof (rule map_of_inject_set [THEN iffD2])
    show "distinct (map fst (sort_key fst ?m))"
      using d' by (subst mset_eq_imp_distinct_iff [of _ "map fst ?m"]) (simp_all only: mset_map mset_sort)
  qed (use d' in auto)
  moreover have "map_of ?m k = map_option sort_keys (map_of kvs k)"
    by (induction kvs) auto
  ultimately show ?thesis by (simp add: dict_get_map_of)
qed

end
