(* ===== verification/Fleet_Policy.thy ===== *)
theory Fleet_Policy
  imports Pystr Json
begin

text \<open>
  The execution policy a batch asks for and the operator's ceilings on it: \<^verbatim>\<open>fleet/policy.py\<close> and
  the parts of \<^verbatim>\<open>fleet/config.py\<close> that build the ceilings. A validation error is the left of a sum.
  The messages of a refusal are kept as data (\<open>over_limit\<close>), not as rendered text.
\<close>

section \<open>Destinations\<close>

datatype policy_error =
    Not_a_destination string
  | Bad_field string
  | Policy_error "over_limit list"
  and over_limit =
    Over string rat rat
  | Not_grantable string

definition host_char :: "char \<Rightarrow> bool" where
  "host_char c \<longleftrightarrow> is_alnum c \<or> c = CHR ''.'' \<or> c = CHR ''-''"

text \<open>The host part of the pattern: an alphanumeric at both ends, at most 253 characters.\<close>

definition host_ok :: "string \<Rightarrow> bool" where
  "host_ok h \<longleftrightarrow> h \<noteq> [] \<and> length h \<le> 253 \<and> is_alnum (hd h) \<and> is_alnum (last h) \<and> list_all host_char h"

text \<open>The pattern's \<^verbatim>\<open>$\<close> also matches before a line feed that ends the string.\<close>

definition chop_newline :: "string \<Rightarrow> string" where
  "chop_newline s = (if s \<noteq> [] \<and> code (last s) = 10 then butlast s else s)"

definition destination_port :: "string \<Rightarrow> nat option" where
  "destination_port value =
     (let host = takeWhile (\<lambda>c. c \<noteq> CHR '':'') value;
          digits = chop_newline (tl (dropWhile (\<lambda>c. c \<noteq> CHR '':'') value))
      in if CHR '':'' \<in> set value \<and> host_ok host \<and> isdigit digits \<and> length digits \<le> 5
         then Some (read_nat digits) else None)"

definition destination :: "string \<Rightarrow> policy_error + string" where
  "destination value =
     (case destination_port value of
        None \<Rightarrow> Inl (Not_a_destination value)
      | Some port \<Rightarrow>
          if 1 \<le> port \<and> port \<le> 65535 then Inr (lower value) else Inl (Not_a_destination value))"

fun destinations :: "string list \<Rightarrow> policy_error + string list" where
  "destinations [] = Inr []"
| "destinations (v # vs) =
     (case destination v of
        Inl e \<Rightarrow> Inl e
      | Inr d \<Rightarrow> (case destinations vs of Inl e \<Rightarrow> Inl e | Inr ds \<Rightarrow> Inr (d # ds)))"

section \<open>Policies and ceilings\<close>

record execution_policy =
  cpus :: rat
  memory_mb :: int
  pids :: int
  tmp_mb :: int
  timeout_seconds :: rat
  egress :: "string list"

text \<open>Building a policy validates every field and keeps the destinations sorted, each once.\<close>

definition make_policy ::
  "rat \<Rightarrow> int \<Rightarrow> int \<Rightarrow> int \<Rightarrow> rat \<Rightarrow> string list \<Rightarrow> policy_error + execution_policy" where
  "make_policy c m p t s e =
     (if \<not> c > 0 then Inl (Bad_field ''cpus'')
      else if \<not> m \<ge> 64 then Inl (Bad_field ''memory_mb'')
      else if \<not> p \<ge> 16 then Inl (Bad_field ''pids'')
      else if \<not> t \<ge> 16 then Inl (Bad_field ''tmp_mb'')
      else if \<not> s > 0 then Inl (Bad_field ''timeout_seconds'')
      else (case destinations e of
              Inl err \<Rightarrow> Inl err
            | Inr ds \<Rightarrow> Inr \<lparr>cpus = c, memory_mb = m, pids = p, tmp_mb = t, timeout_seconds = s,
                              egress = sort (remdups ds)\<rparr>))"

definition DEFAULT_POLICY :: execution_policy where
  "DEFAULT_POLICY = \<lparr>cpus = 1, memory_mb = 1024, pids = 256, tmp_mb = 512, timeout_seconds = 600,
                     egress = []\<rparr>"

record OperatorLimits =
  max_cpus :: rat
  max_memory_mb :: int
  max_pids :: int
  max_tmp_mb :: int
  max_timeout_seconds :: rat
  grantable_egress :: "string list"

definition DEFAULT_LIMITS :: OperatorLimits where
  "DEFAULT_LIMITS = \<lparr>max_cpus = 2, max_memory_mb = 4096, max_pids = 1024, max_tmp_mb = 2048,
                     max_timeout_seconds = 3600, grantable_egress = []\<rparr>"

definition over_limits :: "OperatorLimits \<Rightarrow> execution_policy \<Rightarrow> over_limit list" where
  "over_limits l p =
     [Over name asked limit.
        (name, asked, limit) \<leftarrow>
          [(''cpus'', cpus p, max_cpus l),
           (''memory_mb'', of_int (memory_mb p), of_int (max_memory_mb l)),
           (''pids'', of_int (pids p), of_int (max_pids l)),
           (''tmp_mb'', of_int (tmp_mb p), of_int (max_tmp_mb l)),
           (''timeout_seconds'', timeout_seconds p, max_timeout_seconds l)],
        asked > limit]
     @ [Not_grantable d. d \<leftarrow> egress p, d \<notin> set (grantable_egress l)]"

definition check_policy :: "OperatorLimits \<Rightarrow> execution_policy \<Rightarrow> policy_error + unit" where
  "check_policy l p =
     (let over = over_limits l p in if over \<noteq> [] then Inl (Policy_error over) else Inr ())"

section \<open>Settings\<close>

definition grantable :: "string \<Rightarrow> string list" where
  "grantable setting =
     remdups [lower (strip item). item \<leftarrow> split_on (CHR '','') setting, strip item \<noteq> []]"

definition operator_limits :: "rat \<Rightarrow> int \<Rightarrow> int \<Rightarrow> int \<Rightarrow> rat \<Rightarrow> string \<Rightarrow> OperatorLimits" where
  "operator_limits c m p t s setting =
     \<lparr>max_cpus = c, max_memory_mb = m, max_pids = p, max_tmp_mb = t, max_timeout_seconds = s,
      grantable_egress = grantable setting\<rparr>"

definition async_url :: "string \<Rightarrow> string" where
  "async_url url =
     (if startswith url ''postgresql://'' then ''postgresql+asyncpg://'' @ drop 13 url
      else if startswith url ''postgres://'' then ''postgresql+asyncpg://'' @ drop 11 url
      else url)"

section \<open>Facts\<close>

lemma destination_lower: "destination v = Inr d \<Longrightarrow> d = lower v"
  by (auto simp: destination_def split: option.splits if_splits)

lemma destinations_lower: "destinations vs = Inr ds \<Longrightarrow> ds = map lower vs"
  by (induction vs arbitrary: ds) (auto split: sum.splits dest: destination_lower)

lemma destinations_all:
  "destinations vs = Inr ds \<Longrightarrow> v \<in> set vs \<Longrightarrow> \<exists>d \<in> set ds. destination v = Inr d"
  by (induction vs arbitrary: ds) (auto split: sum.splits)

lemma over_limits_Nil_iff:
  "over_limits l p = [] \<longleftrightarrow>
     cpus p \<le> max_cpus l \<and> memory_mb p \<le> max_memory_mb l \<and> pids p \<le> max_pids l
     \<and> tmp_mb p \<le> max_tmp_mb l \<and> timeout_seconds p \<le> max_timeout_seconds l
     \<and> set (egress p) \<subseteq> set (grantable_egress l)"
  by (auto simp: over_limits_def not_le filter_empty_conv)

text \<open>
  The operator's limits admit a policy exactly when every amount it asks for is within its
  ceiling and every destination it names is grantable; otherwise the refusal lists at least one
  reason and nothing is admitted.
\<close>

theorem check_policy_exact:
  "check_policy l p = Inr () \<longleftrightarrow>
     cpus p \<le> max_cpus l \<and> memory_mb p \<le> max_memory_mb l \<and> pids p \<le> max_pids l
     \<and> tmp_mb p \<le> max_tmp_mb l \<and> timeout_seconds p \<le> max_timeout_seconds l
     \<and> set (egress p) \<subseteq> set (grantable_egress l)"
  by (simp add: check_policy_def Let_def over_limits_Nil_iff)

end
