(* ===== verification/Fleet_Models.thy ===== *)
theory Fleet_Models
  imports Fleet_Policy
begin

text \<open>
  The fleet's records: \<^verbatim>\<open>fleet/models.py\<close> and the tables of \<^verbatim>\<open>fleet/migrations/versions\<close>. A row
  of a table is a record, a table a list of rows, a nullable column an \<open>option\<close>, and the database
  (\<open>db\<close>) the four tables with the next value of each identity column. \<open>schema_ok\<close> collects the
  constraints the three migrations leave on the tables.
\<close>

section \<open>States, outcomes and endings\<close>

datatype job_state =
    Queued | Claimed | Running | Succeeded | Failed | Escalated | Dead_lettered | Cancelled

datatype outcome = Outcome_succeeded | Outcome_failed | Outcome_escalated

fun outcome_state :: "outcome \<Rightarrow> job_state" where
  "outcome_state Outcome_succeeded = Succeeded"
| "outcome_state Outcome_failed = Failed"
| "outcome_state Outcome_escalated = Escalated"

definition UNFINISHED_STATES :: "job_state list" where
  "UNFINISHED_STATES = [Queued, Claimed, Running]"

definition DEFAULT_MAX_ATTEMPTS :: int where
  "DEFAULT_MAX_ATTEMPTS = 3"

text \<open>How an attempt ended, the values of the column \<^verbatim>\<open>ended_by\<close>.\<close>

datatype ending = Published | Lease_expired | Released | Ended_cancelled

record retry_policy =
  backoff_seconds :: seconds
  backoff_cap_seconds :: seconds

definition DEFAULT_RETRY :: retry_policy where
  "DEFAULT_RETRY = \<lparr>backoff_seconds = 2, backoff_cap_seconds = 60\<rparr>"

record new_job =
  n_name :: string
  n_payload :: json

record submission =
  s_batch_id :: int
  s_job_ids :: "int list"
  s_created :: bool

record claimed_job =
  c_id :: int
  c_attempt :: int
  c_name :: string
  c_payload :: json
  c_lease_expires_at :: time
  c_policy :: execution_policy

record batch_status_row =
  bs_batch_id :: int
  bs_label :: string
  bs_total :: nat
  bs_counts :: "(job_state \<times> nat) list"
  bs_done :: bool

section \<open>The tables\<close>

record batch_row =
  b_id :: int
  b_idempotency_key :: "string option"
  b_request_digest :: string
  b_label :: string
  b_created_at :: time

record job_row =
  j_id :: int
  j_batch_id :: int
  j_position :: nat
  j_name :: string
  j_payload :: json
  j_payload_digest :: string
  j_state :: job_state
  j_attempt :: int
  j_max_attempts :: int
  j_worker_id :: "string option"
  j_lease_expires_at :: "time option"
  j_result_id :: "int option"
  j_submitted_at :: time
  j_available_at :: time
  j_claimed_at :: "time option"
  j_started_at :: "time option"
  j_finished_at :: "time option"
  j_updated_at :: time
  j_last_error :: "string option"
  j_policy :: execution_policy
  j_cancel_requested_at :: "time option"

record attempt_row =
  a_job_id :: int
  a_attempt :: int
  a_worker_id :: string
  a_claimed_at :: time
  a_lease_expires_at :: time
  a_ended_at :: "time option"
  a_ended_by :: "ending option"
  a_error :: "string option"
  a_execution :: "json option"
  a_logs :: "string option"

record result_row =
  r_id :: int
  r_job_id :: int
  r_attempt :: int
  r_worker_id :: string
  r_published_at :: time
  r_outcome :: outcome
  r_body :: json

record db =
  batches :: "batch_row list"
  jobs :: "job_row list"
  attempts :: "attempt_row list"
  results :: "result_row list"
  next_batch_id :: int
  next_job_id :: int
  next_result_id :: int

definition empty_db :: db where
  "empty_db = \<lparr>batches = [], jobs = [], attempts = [], results = [],
               next_batch_id = 1, next_job_id = 1, next_result_id = 1\<rparr>"

definition leased_states :: "job_state list" where
  "leased_states = [Claimed, Running]"

abbreviation leased :: "job_row \<Rightarrow> bool" where
  "leased j \<equiv> j_state j \<in> set leased_states"

definition result_states :: "job_state list" where
  "result_states = [Succeeded, Failed, Escalated]"

section \<open>The schema's constraints\<close>

definition job_checks :: "job_row \<Rightarrow> bool" where
  "job_checks j \<longleftrightarrow>
     0 \<le> j_attempt j \<and> 1 \<le> j_max_attempts j \<and> j_attempt j \<le> j_max_attempts j
     \<and> (leased j \<longleftrightarrow> j_lease_expires_at j \<noteq> None)
     \<and> (j_state j \<in> set result_states \<longleftrightarrow> j_result_id j \<noteq> None)"

definition attempt_checks :: "attempt_row \<Rightarrow> bool" where
  "attempt_checks a \<longleftrightarrow> (a_ended_at a = None \<longleftrightarrow> a_ended_by a = None)"

text \<open>Unique keys and primary keys: no two rows agree on them (nulls never do).\<close>

definition keys_ok :: "db \<Rightarrow> bool" where
  "keys_ok d \<longleftrightarrow>
     distinct (map b_id (batches d))
     \<and> distinct (filter (\<lambda>k. k \<noteq> None) (map b_idempotency_key (batches d)))
     \<and> distinct (map j_id (jobs d))
     \<and> distinct (map (\<lambda>j. (j_batch_id j, j_position j)) (jobs d))
     \<and> distinct (map (\<lambda>a. (a_job_id a, a_attempt a)) (attempts d))
     \<and> distinct (map r_id (results d)) \<and> distinct (map r_job_id (results d))"

definition references_ok :: "db \<Rightarrow> bool" where
  "references_ok d \<longleftrightarrow>
     (\<forall>j \<in> set (jobs d). j_batch_id j \<in> b_id ` set (batches d))
     \<and> (\<forall>a \<in> set (attempts d). a_job_id a \<in> j_id ` set (jobs d))
     \<and> (\<forall>r \<in> set (results d). r_job_id r \<in> j_id ` set (jobs d))
     \<and> (\<forall>j \<in> set (jobs d).
           case j_result_id j of None \<Rightarrow> True | Some i \<Rightarrow> i \<in> r_id ` set (results d))"

definition schema_ok :: "db \<Rightarrow> bool" where
  "schema_ok d \<longleftrightarrow>
     list_all job_checks (jobs d) \<and> list_all attempt_checks (attempts d) \<and> keys_ok d \<and> references_ok d"

lemmas state_list_defs = UNFINISHED_STATES_def leased_states_def result_states_def

lemma outcome_state_result [simp]: "outcome_state v \<in> set result_states"
  by (cases v) (simp_all add: result_states_def)

lemma outcome_state_not_leased [simp]: "outcome_state v \<notin> set leased_states"
  by (cases v) (simp_all add: leased_states_def)

lemma outcome_state_neq [simp]:
  "outcome_state v \<noteq> Queued" "outcome_state v \<noteq> Claimed" "outcome_state v \<noteq> Running"
  "outcome_state v \<noteq> Dead_lettered" "outcome_state v \<noteq> Cancelled"
  by (cases v; simp)+

end
