(* ===== verification/Fleet_Store.thy ===== *)
theory Fleet_Store
  imports Fleet_Models
begin

text \<open>
  The job store, \<^verbatim>\<open>fleet/store.py\<close>: every operation is one transaction, modelled as a function from
  the database to its answer and the database it commits. Transactions that touch the same row are
  serialised by its row lock, so a run of the fleet is a sequence of these functions.

  Each call of \<^verbatim>\<open>clock_timestamp()\<close> in a statement reads the clock anew, so an operation takes its
  readings as a function \<open>clk\<close> from the position of the call in the statement to its value, and
  \<open>claim\<close> also the reading each scanned row was tested with. \<^verbatim>\<open>SKIP LOCKED\<close> makes the rows that
  other transactions hold invisible: \<open>locked\<close> is the set of their ids. The parameter \<open>sha\<close> stands
  for SHA-256 over the canonical text of a JSON value.
\<close>

definition LEASE_EXPIRED :: string where
  "LEASE_EXPIRED = ''lease expired''"

section \<open>Rows\<close>

definition update_job :: "int \<Rightarrow> (job_row \<Rightarrow> job_row) \<Rightarrow> db \<Rightarrow> db" where
  "update_job i f d = d\<lparr>jobs := map (\<lambda>j. if j_id j = i then f j else j) (jobs d)\<rparr>"

definition update_attempt :: "int \<Rightarrow> int \<Rightarrow> (attempt_row \<Rightarrow> attempt_row) \<Rightarrow> db \<Rightarrow> db" where
  "update_attempt i n f d =
     d\<lparr>attempts := map (\<lambda>a. if a_job_id a = i \<and> a_attempt a = n then f a else a) (attempts d)\<rparr>"

definition get_job :: "int \<Rightarrow> db \<Rightarrow> job_row option" where
  "get_job i d = find (\<lambda>j. j_id j = i) (jobs d)"

text \<open>The attempts of a job and its results, in the order they were written.\<close>

definition log_of :: "int \<Rightarrow> db \<Rightarrow> attempt_row list" where
  "log_of i d = filter (\<lambda>a. a_job_id a = i) (attempts d)"

definition results_of :: "int \<Rightarrow> db \<Rightarrow> result_row list" where
  "results_of i d = filter (\<lambda>r. r_job_id r = i) (results d)"

section \<open>Ending attempts without a result\<close>

definition may_retry :: "job_row \<Rightarrow> bool" where
  "may_retry j \<longleftrightarrow> j_cancel_requested_at j = None \<and> j_attempt j < j_max_attempts j"

definition final_state :: "job_row \<Rightarrow> job_state" where
  "final_state j = (if j_cancel_requested_at j \<noteq> None then Cancelled else Dead_lettered)"

definition backoff :: "retry_policy \<Rightarrow> job_row \<Rightarrow> seconds" where
  "backoff retry j =
     min (backoff_seconds retry * (2 powi (j_attempt j - 1))) (backoff_cap_seconds retry)"

definition end_job :: "time \<Rightarrow> string \<Rightarrow> retry_policy \<Rightarrow> job_row \<Rightarrow> job_row" where
  "end_job now_at error retry j =
     j\<lparr>j_state := (if may_retry j then Queued else final_state j),
       j_available_at :=
         (if may_retry j then now_at + make_interval (backoff retry j) else j_available_at j),
       j_worker_id := (if may_retry j then None else j_worker_id j),
       j_claimed_at := (if may_retry j then None else j_claimed_at j),
       j_started_at := (if may_retry j then None else j_started_at j),
       j_finished_at := (if may_retry j then None else Some now_at),
       j_lease_expires_at := None, j_last_error := Some error, j_updated_at := now_at\<rparr>"

definition end_attempts ::
  "(job_row \<Rightarrow> bool) \<Rightarrow> ending \<Rightarrow> time \<Rightarrow> string \<Rightarrow> retry_policy \<Rightarrow> db \<Rightarrow> (int \<times> job_state) list \<times> db" where
  "end_attempts chosen ending now_at error retry d =
     (let moved = map (end_job now_at error retry) (filter chosen (jobs d));
          of_moved = (\<lambda>a. find (\<lambda>m. j_id m = a_job_id a \<and> j_attempt m = a_attempt a) moved)
      in ([(a_job_id a, j_state m). a \<leftarrow> attempts d, Some m \<leftarrow> [of_moved a]],
          d\<lparr>jobs := map (\<lambda>j. if chosen j then end_job now_at error retry j else j) (jobs d),
            attempts := map (\<lambda>a. if of_moved a \<noteq> None
              then a\<lparr>a_ended_at := Some now_at, a_ended_by := Some ending, a_error := Some error\<rparr>
              else a) (attempts d)\<rparr>))"

text \<open>Ends a job as cancelled, for the attempt that holds its live lease.\<close>

definition holds :: "int \<Rightarrow> int \<Rightarrow> job_row \<Rightarrow> bool" where
  "holds i n j \<longleftrightarrow> j_id j = i \<and> j_attempt j = n \<and> leased j"

definition finish_cancelled_sql :: "time \<Rightarrow> int \<Rightarrow> int \<Rightarrow> db \<Rightarrow> bool \<times> db" where
  "finish_cancelled_sql now_at i n d =
     (case find (\<lambda>j. holds i n j \<and> sql_gt (j_lease_expires_at j) now_at \<and> j_cancel_requested_at j \<noteq> None)
             (jobs d) of
        None \<Rightarrow> (False, d)
      | Some j \<Rightarrow>
          (\<exists>a \<in> set (attempts d). a_job_id a = i \<and> a_attempt a = n,
           update_attempt i n
             (\<lambda>a. a\<lparr>a_ended_at := Some now_at, a_ended_by := Some Ended_cancelled,
                    a_error := Some ''cancelled''\<rparr>)
             (update_job i
               (\<lambda>j. j\<lparr>j_state := Cancelled, j_lease_expires_at := None, j_finished_at := Some now_at,
                      j_updated_at := now_at\<rparr>) d)))"

definition ended_by :: "int \<Rightarrow> int \<Rightarrow> ending \<Rightarrow> db \<Rightarrow> bool" where
  "ended_by i n e d \<longleftrightarrow>
     (\<exists>a \<in> set (attempts d). a_job_id a = i \<and> a_attempt a = n \<and> a_ended_by a = Some e)"

section \<open>Submitting a batch\<close>

datatype store_error = Value_error string | Idempotency_conflict string

definition policy_json :: "execution_policy \<Rightarrow> json" where
  "policy_json p = JObj
     [(''cpus'', JFloat (cpus p)), (''memory_mb'', JInt (memory_mb p)), (''pids'', JInt (pids p)),
      (''tmp_mb'', JInt (tmp_mb p)), (''timeout_seconds'', JFloat (timeout_seconds p)),
      (''egress'', JList (map JStr (egress p)))]"

definition job_json :: "new_job \<Rightarrow> json" where
  "job_json n = JObj [(''name'', JStr (n_name n)), (''payload'', n_payload n)]"

definition digest :: "(json \<Rightarrow> string) \<Rightarrow> json \<Rightarrow> string" where
  "digest sha v = sha (sort_keys v)"

definition request_json :: "string \<Rightarrow> new_job list \<Rightarrow> int \<Rightarrow> execution_policy \<Rightarrow> json" where
  "request_json label js max_attempts policy = JObj
     [(''label'', JStr label), (''max_attempts'', JInt max_attempts),
      (''policy'', policy_json policy), (''jobs'', JList (map job_json js))]"

definition request_digest ::
  "(json \<Rightarrow> string) \<Rightarrow> string \<Rightarrow> new_job list \<Rightarrow> int \<Rightarrow> execution_policy \<Rightarrow> string" where
  "request_digest sha label js max_attempts policy =
     digest sha (request_json label js max_attempts policy)"

definition new_row ::
  "(json \<Rightarrow> string) \<Rightarrow> time \<Rightarrow> int \<Rightarrow> int \<Rightarrow> execution_policy \<Rightarrow> int \<Rightarrow> nat \<Rightarrow> new_job \<Rightarrow> job_row" where
  "new_row sha now batch max_attempts policy i pos n =
     \<lparr>j_id = i, j_batch_id = batch, j_position = pos, j_name = n_name n,
      j_payload = jsonb (n_payload n), j_payload_digest = digest sha (n_payload n),
      j_state = Queued, j_attempt = 0, j_max_attempts = max_attempts, j_worker_id = None,
      j_lease_expires_at = None, j_result_id = None, j_submitted_at = now, j_available_at = now,
      j_claimed_at = None, j_started_at = None, j_finished_at = None, j_updated_at = now,
      j_last_error = None, j_policy = policy, j_cancel_requested_at = None\<rparr>"

definition new_rows ::
  "(json \<Rightarrow> string) \<Rightarrow> time \<Rightarrow> int \<Rightarrow> int \<Rightarrow> execution_policy \<Rightarrow> int \<Rightarrow> new_job list \<Rightarrow> job_row list" where
  "new_rows sha now batch max_attempts policy first js =
     map (\<lambda>(pos, n). new_row sha now batch max_attempts policy (first + int pos) pos n)
       (enumerate 0 js)"

text \<open>
  \<^verbatim>\<open>now()\<close> is the transaction's start. The identity column advances even when the insert conflicts.
\<close>

definition submit_batch ::
  "(json \<Rightarrow> string) \<Rightarrow> time \<Rightarrow> string \<Rightarrow> new_job list \<Rightarrow> string option \<Rightarrow> int \<Rightarrow> execution_policy
   \<Rightarrow> db \<Rightarrow> (store_error + submission) \<times> db" where
  "submit_batch sha now label js key max_attempts policy d =
     (if js = [] then (Inl (Value_error ''a batch needs at least one job''), d)
      else if max_attempts < 1 then (Inl (Value_error ''every job needs at least one attempt''), d)
      else
        let dig = request_digest sha label js max_attempts policy;
            batch = next_batch_id d;
            d1 = d\<lparr>next_batch_id := batch + 1\<rparr>
        in (case (if key = None then None else find (\<lambda>b. b_idempotency_key b = key) (batches d)) of
              Some existing \<Rightarrow>
                if b_request_digest existing \<noteq> dig then (Inl (Idempotency_conflict (the key)), d1)
                else (Inr \<lparr>s_batch_id = b_id existing,
                           s_job_ids = map j_id (sort_key j_position
                             (filter (\<lambda>j. j_batch_id j = b_id existing) (jobs d))),
                           s_created = False\<rparr>, d1)
            | None \<Rightarrow>
                let rows = new_rows sha now batch max_attempts policy (next_job_id d) js
                in (Inr \<lparr>s_batch_id = batch, s_job_ids = map j_id (sort_key j_position rows),
                         s_created = True\<rparr>,
                    d1\<lparr>batches := batches d @ [\<lparr>b_id = batch, b_idempotency_key = key,
                         b_request_digest = dig, b_label = label, b_created_at = now\<rparr>],
                       jobs := jobs d @ rows,
                       next_job_id := next_job_id d + int (length js)\<rparr>)))"

section \<open>Claiming, starting and keeping a job\<close>

definition claimable :: "int set \<Rightarrow> (int \<Rightarrow> time) \<Rightarrow> job_row \<Rightarrow> bool" where
  "claimable locked scan j \<longleftrightarrow>
     j_state j = Queued \<and> j_available_at j \<le> scan (j_id j) \<and> j_id j \<notin> locked"

definition oldest_claimable :: "int set \<Rightarrow> (int \<Rightarrow> time) \<Rightarrow> db \<Rightarrow> job_row option" where
  "oldest_claimable locked scan d =
     (case sort_key j_id (filter (claimable locked scan) (jobs d)) of [] \<Rightarrow> None | j # _ \<Rightarrow> Some j)"

definition claim_row :: "(nat \<Rightarrow> time) \<Rightarrow> string \<Rightarrow> seconds \<Rightarrow> job_row \<Rightarrow> job_row" where
  "claim_row clk worker lease j =
     j\<lparr>j_state := Claimed, j_attempt := j_attempt j + 1, j_worker_id := Some worker,
       j_claimed_at := Some (clk 0), j_started_at := None,
       j_lease_expires_at := Some (clk 1 + make_interval lease), j_updated_at := clk 2\<rparr>"

definition new_attempt :: "(nat \<Rightarrow> time) \<Rightarrow> string \<Rightarrow> seconds \<Rightarrow> job_row \<Rightarrow> attempt_row" where
  "new_attempt clk worker lease j =
     \<lparr>a_job_id = j_id j, a_attempt = j_attempt j + 1, a_worker_id = worker, a_claimed_at = clk 0,
      a_lease_expires_at = clk 1 + make_interval lease, a_ended_at = None, a_ended_by = None,
      a_error = None, a_execution = None, a_logs = None\<rparr>"

definition claim ::
  "int set \<Rightarrow> (int \<Rightarrow> time) \<Rightarrow> (nat \<Rightarrow> time) \<Rightarrow> string \<Rightarrow> seconds \<Rightarrow> db \<Rightarrow> claimed_job option \<times> db" where
  "claim locked scan clk worker lease d =
     (case oldest_claimable locked scan d of
        None \<Rightarrow> (None, d)
      | Some j \<Rightarrow>
          (Some \<lparr>c_id = j_id j, c_attempt = j_attempt j + 1, c_name = j_name j,
                 c_payload = j_payload j, c_lease_expires_at = clk 1 + make_interval lease,
                 c_policy = j_policy j\<rparr>,
           let d1 = update_job (j_id j) (claim_row clk worker lease) d
           in d1\<lparr>attempts := attempts d1 @ [new_attempt clk worker lease j]\<rparr>))"

definition start_ok :: "time \<Rightarrow> int \<Rightarrow> int \<Rightarrow> job_state \<Rightarrow> job_row \<Rightarrow> bool" where
  "start_ok t i n s j \<longleftrightarrow>
     j_id j = i \<and> j_attempt j = n \<and> j_state j = s \<and> sql_gt (j_lease_expires_at j) t
     \<and> j_cancel_requested_at j = None"

definition start :: "(nat \<Rightarrow> time) \<Rightarrow> int \<Rightarrow> int \<Rightarrow> db \<Rightarrow> bool \<times> db" where
  "start clk i n d =
     (if \<exists>j \<in> set (jobs d). start_ok (clk 0) i n Claimed j
      then (True, update_job i
              (\<lambda>j. j\<lparr>j_state := Running, j_started_at := Some (clk 1), j_updated_at := clk 2\<rparr>) d)
      else (\<exists>j \<in> set (jobs d). start_ok (clk 3) i n Running j, d))"

record beat =
  beat_lease_expires_at :: time
  beat_cancel_requested :: bool

definition heartbeat :: "(nat \<Rightarrow> time) \<Rightarrow> int \<Rightarrow> int \<Rightarrow> seconds \<Rightarrow> db \<Rightarrow> beat option \<times> db" where
  "heartbeat clk i n lease d =
     (case find (\<lambda>j. holds i n j \<and> sql_gt (j_lease_expires_at j) (clk 0)) (jobs d) of
        None \<Rightarrow> (None, d)
      | Some j \<Rightarrow>
          let until = clk 1 + make_interval lease
          in (if \<exists>a \<in> set (attempts d). a_job_id a = i \<and> a_attempt a = n
              then Some \<lparr>beat_lease_expires_at = until,
                         beat_cancel_requested = (j_cancel_requested_at j \<noteq> None)\<rparr>
              else None,
              update_attempt i n (\<lambda>a. a\<lparr>a_lease_expires_at := until\<rparr>)
                (update_job i (\<lambda>j. j\<lparr>j_lease_expires_at := Some until, j_updated_at := clk 2\<rparr>) d)))"

section \<open>Cancelling\<close>

definition cancel_row :: "(nat \<Rightarrow> time) \<Rightarrow> job_row \<Rightarrow> job_row" where
  "cancel_row clk j =
     j\<lparr>j_state := (if j_state j = Queued then Cancelled else j_state j),
       j_finished_at := (if j_state j = Queued then Some (clk 0) else j_finished_at j),
       j_cancel_requested_at :=
         (case j_cancel_requested_at j of None \<Rightarrow> Some (clk 1) | Some t \<Rightarrow> Some t),
       j_updated_at := clk 2\<rparr>"

definition cancel :: "(nat \<Rightarrow> time) \<Rightarrow> int \<Rightarrow> db \<Rightarrow> job_state option \<times> db" where
  "cancel clk i d =
     (case find (\<lambda>j. j_id j = i \<and> j_state j \<in> set UNFINISHED_STATES) (jobs d) of
        Some j \<Rightarrow> (Some (j_state (cancel_row clk j)), update_job i (cancel_row clk) d)
      | None \<Rightarrow> (map_option j_state (get_job i d), d))"

definition finish_cancelled :: "(nat \<Rightarrow> time) \<Rightarrow> int \<Rightarrow> int \<Rightarrow> db \<Rightarrow> bool \<times> db" where
  "finish_cancelled clk i n d =
     (case finish_cancelled_sql (clk 0) i n d of
        (False, d') \<Rightarrow> (ended_by i n Ended_cancelled d', d')
      | (True, d') \<Rightarrow> (True, d'))"

section \<open>Publishing, releasing and reaping\<close>

definition publish ::
  "(nat \<Rightarrow> time) \<Rightarrow> int \<Rightarrow> int \<Rightarrow> string \<Rightarrow> outcome \<Rightarrow> json \<Rightarrow> db \<Rightarrow> bool \<times> db" where
  "publish clk i n worker v body d =
     (case find (holds i n) (jobs d) of
        None \<Rightarrow>
          (\<exists>r \<in> set (results d). r_job_id r = i \<and> r_attempt r = n \<and> r_worker_id r = worker
             \<and> r_outcome r = v \<and> r_body r = jsonb body, d)
      | Some held \<Rightarrow>
          if j_cancel_requested_at held \<noteq> None
          then (False, snd (finish_cancelled_sql (clk 0) i n d))
          else if \<not> sql_gt (j_lease_expires_at held) (clk 1) then (False, d)
          else
            let r = \<lparr>r_id = next_result_id d, r_job_id = i, r_attempt = n, r_worker_id = worker,
                     r_published_at = clk 1, r_outcome = v, r_body = jsonb body\<rparr>;
                d1 = d\<lparr>results := results d @ [r], next_result_id := next_result_id d + 1\<rparr>
            in (True,
                update_attempt i n
                  (\<lambda>a. a\<lparr>a_ended_at := Some (clk 1), a_ended_by := Some Published\<rparr>)
                  (update_job i
                    (\<lambda>j. j\<lparr>j_state := outcome_state v, j_result_id := Some (r_id r),
                           j_lease_expires_at := None, j_finished_at := Some (clk 1),
                           j_updated_at := clk 1\<rparr>) d1)))"

definition release ::
  "(nat \<Rightarrow> time) \<Rightarrow> int \<Rightarrow> int \<Rightarrow> string \<Rightarrow> retry_policy \<Rightarrow> db \<Rightarrow> job_state option \<times> db" where
  "release clk i n error retry d =
     (case end_attempts (\<lambda>j. holds i n j \<and> sql_gt (j_lease_expires_at j) (clk 0))
             Released (clk 0) error retry d of
        (row # _, d') \<Rightarrow> (Some (snd row), d')
      | ([], d') \<Rightarrow>
          (if ended_by i n Released d' then map_option j_state (get_job i d') else None, d'))"

definition reap :: "int set \<Rightarrow> (nat \<Rightarrow> time) \<Rightarrow> retry_policy \<Rightarrow> db \<Rightarrow> int list \<times> db" where
  "reap locked clk retry d =
     (let (rows, d') = end_attempts
            (\<lambda>j. leased j \<and> sql_le (j_lease_expires_at j) (clk 0) \<and> j_id j \<notin> locked)
            Lease_expired (clk 0) LEASE_EXPIRED retry d
      in (sort (map fst rows), d'))"

definition record_execution :: "int \<Rightarrow> int \<Rightarrow> json \<Rightarrow> string option \<Rightarrow> db \<Rightarrow> db" where
  "record_execution i n execution logs d =
     update_attempt i n (\<lambda>a. a\<lparr>a_execution := Some (jsonb execution), a_logs := logs\<rparr>) d"

section \<open>Queries\<close>

definition executions :: "int \<Rightarrow> db \<Rightarrow> (int \<times> json option) list" where
  "executions batch d =
     dict_of [(j_id j, a_execution a). j \<leftarrow> jobs d, a \<leftarrow> attempts d,
       a_job_id a = j_id j \<and> a_attempt a = j_attempt j \<and> j_batch_id j = batch]"

text \<open>Every attempt of every job of a batch, in order: by job, then by attempt number.\<close>

definition batch_attempts :: "int \<Rightarrow> db \<Rightarrow> attempt_row list" where
  "batch_attempts batch d =
     sort_key (\<lambda>a. (a_job_id a, a_attempt a))
       (filter (\<lambda>a. \<exists>j \<in> set (jobs d). j_id j = a_job_id a \<and> j_batch_id j = batch) (attempts d))"

definition attempt_history :: "int \<Rightarrow> db \<Rightarrow> (int \<times> attempt_row list) list" where
  "attempt_history batch d =
     fold (\<lambda>a h. dict_put h (a_job_id a)
             ((case dict_get h (a_job_id a) of None \<Rightarrow> [] | Some l \<Rightarrow> l) @ [a]))
       (batch_attempts batch d) []"

definition live_attempts :: "time \<Rightarrow> db \<Rightarrow> (int \<times> int) list" where
  "live_attempts t d =
     [(j_id j, j_attempt j). j \<leftarrow> jobs d, leased j \<and> sql_gt (j_lease_expires_at j) t]"

definition unfinished_jobs :: "db \<Rightarrow> nat" where
  "unfinished_jobs d = length (filter (\<lambda>j. j_state j \<in> set UNFINISHED_STATES) (jobs d))"

definition state_counts :: "job_row list \<Rightarrow> (job_state \<times> nat) list" where
  "state_counts js =
     [(s, length (filter (\<lambda>j. j_state j = s) js)). s \<leftarrow> remdups (map j_state js)]"

definition batch_status :: "int \<Rightarrow> db \<Rightarrow> batch_status_row option" where
  "batch_status batch d =
     (case find (\<lambda>b. b_id b = batch) (batches d) of
        None \<Rightarrow> None
      | Some b \<Rightarrow>
          let counts = state_counts (filter (\<lambda>j. j_batch_id j = batch) (jobs d))
          in Some \<lparr>bs_batch_id = batch, bs_label = b_label b, bs_total = sum_list (map snd counts),
                   bs_counts = counts,
                   bs_done = (\<forall>(s, _) \<in> set counts. s \<notin> set UNFINISHED_STATES)\<rparr>)"

definition job_status :: "int \<Rightarrow> db \<Rightarrow> job_row option" where
  "job_status i d = get_job i d"

definition batch_jobs :: "int \<Rightarrow> db \<Rightarrow> job_row list" where
  "batch_jobs batch d = sort_key j_position (filter (\<lambda>j. j_batch_id j = batch) (jobs d))"

definition job_result :: "int \<Rightarrow> db \<Rightarrow> result_row option" where
  "job_result i d = find (\<lambda>r. r_job_id r = i) (results d)"

end
