(* ===== verification/Fleet_Inv.thy ===== *)
theory Fleet_Inv
  imports Fleet_Store
begin

text \<open>
  The invariant of the job store. A job's attempts, in the order they were claimed, are numbered from
  1 to its current attempt; every one but the last ended in a way that is retried, and each was
  claimed no earlier than the one before it ended (\<open>log_ok\<close>). How the last one stands, the lease and
  the result follow the job's state (\<open>state_ok\<close>). One lemma per operation shows that it carries a
  job's invariant to the rows it writes; \<open>db_invI\<close> lifts that to the database.
\<close>

section \<open>The invariant\<close>

definition retried :: "attempt_row \<Rightarrow> bool" where
  "retried a \<longleftrightarrow> a_ended_by a \<in> {Some Lease_expired, Some Released}"

definition row_ok :: "time \<Rightarrow> attempt_row \<Rightarrow> bool" where
  "row_ok now a \<longleftrightarrow>
     a_claimed_at a \<le> now \<and>
     (case (a_ended_at a, a_ended_by a) of
        (None, None) \<Rightarrow> True
      | (Some e, Some b) \<Rightarrow>
          e \<le> now \<and> (if b = Lease_expired then a_lease_expires_at a \<le> e else e < a_lease_expires_at a)
      | _ \<Rightarrow> False)"

definition handed_over :: "attempt_row \<Rightarrow> attempt_row \<Rightarrow> bool" where
  "handed_over a b \<longleftrightarrow> (case a_ended_at a of None \<Rightarrow> False | Some e \<Rightarrow> e \<le> a_claimed_at b)"

definition log_ok :: "time \<Rightarrow> attempt_row list \<Rightarrow> bool" where
  "log_ok now l \<longleftrightarrow>
     list_all (row_ok now) l \<and> successively handed_over l \<and> list_all retried (butlast l)"

definition result_ok :: "attempt_row list \<Rightarrow> result_row list \<Rightarrow> job_row \<Rightarrow> bool" where
  "result_ok l rs j \<longleftrightarrow>
     (case rs of
        [r] \<Rightarrow> j_result_id j = Some (r_id r) \<and> outcome_state (r_outcome r) = j_state j
               \<and> r_attempt r = j_attempt j \<and> r_worker_id r = a_worker_id (last l)
               \<and> a_ended_by (last l) = Some Published \<and> a_ended_at (last l) = Some (r_published_at r)
      | _ \<Rightarrow> False)"

definition state_ok :: "attempt_row list \<Rightarrow> result_row list \<Rightarrow> job_row \<Rightarrow> bool" where
  "state_ok l rs j \<longleftrightarrow>
     (if j_state j = Queued then
        list_all retried l \<and> rs = [] \<and> j_attempt j < j_max_attempts j
        \<and> j_cancel_requested_at j = None
      else if leased j then
        l \<noteq> [] \<and> rs = [] \<and> a_ended_at (last l) = None
        \<and> j_lease_expires_at j = Some (a_lease_expires_at (last l))
      else if j_state j = Dead_lettered then
        l \<noteq> [] \<and> rs = [] \<and> list_all retried l \<and> j_attempt j = j_max_attempts j
        \<and> j_cancel_requested_at j = None
      else if j_state j = Cancelled then
        rs = [] \<and> j_cancel_requested_at j \<noteq> None
        \<and> (l \<noteq> [] \<longrightarrow> retried (last l) \<or> a_ended_by (last l) = Some Ended_cancelled)
      else l \<noteq> [] \<and> j_cancel_requested_at j = None \<and> result_ok l rs j)"

definition job_ok :: "time \<Rightarrow> attempt_row list \<Rightarrow> result_row list \<Rightarrow> job_row \<Rightarrow> bool" where
  "job_ok now l rs j \<longleftrightarrow>
     map a_attempt l = [1..j_attempt j] \<and> job_checks j \<and> log_ok now l \<and> state_ok l rs j"

abbreviation job_inv :: "time \<Rightarrow> db \<Rightarrow> job_row \<Rightarrow> bool" where
  "job_inv now d j \<equiv> job_ok now (log_of (j_id j) d) (results_of (j_id j) d) j"

definition tables_ok :: "db \<Rightarrow> bool" where
  "tables_ok d \<longleftrightarrow>
     distinct (map j_id (jobs d)) \<and> (\<forall>j \<in> set (jobs d). j_id j < next_job_id d)
     \<and> (\<forall>a \<in> set (attempts d). a_job_id a \<in> j_id ` set (jobs d))
     \<and> (\<forall>r \<in> set (results d). r_job_id r \<in> j_id ` set (jobs d))
     \<and> distinct (map r_id (results d)) \<and> (\<forall>r \<in> set (results d). r_id r < next_result_id d)"

definition batches_ok :: "db \<Rightarrow> bool" where
  "batches_ok d \<longleftrightarrow>
     distinct (map b_id (batches d)) \<and> (\<forall>b \<in> set (batches d). b_id b < next_batch_id d)
     \<and> distinct (filter (\<lambda>k. k \<noteq> None) (map b_idempotency_key (batches d)))
     \<and> distinct (map (\<lambda>j. (j_batch_id j, j_position j)) (jobs d))
     \<and> (\<forall>j \<in> set (jobs d). j_batch_id j \<in> b_id ` set (batches d))"

definition db_inv :: "time \<Rightarrow> db \<Rightarrow> bool" where
  "db_inv now d \<longleftrightarrow> tables_ok d \<and> batches_ok d \<and> (\<forall>j \<in> set (jobs d). job_inv now d j)"

section \<open>Reading the tables\<close>

lemma job_unique:
  "tables_ok d \<Longrightarrow> j \<in> set (jobs d) \<Longrightarrow> k \<in> set (jobs d) \<Longrightarrow> j_id j = j_id k \<Longrightarrow> j = k"
  by (auto simp: tables_ok_def distinct_map inj_on_def)

lemma get_job_mem: "tables_ok d \<Longrightarrow> j \<in> set (jobs d) \<Longrightarrow> get_job (j_id j) d = Some j"
  unfolding get_job_def by (rule find_unique) (auto dest: job_unique)

lemma get_job_Some: "get_job i d = Some j \<Longrightarrow> j \<in> set (jobs d) \<and> j_id j = i"
  by (auto simp: get_job_def dest: find_Some_mem)

lemma update_job_frame [simp, frame_simps]:
  "attempts (update_job i f d) = attempts d" "results (update_job i f d) = results d"
  "batches (update_job i f d) = batches d" "next_job_id (update_job i f d) = next_job_id d"
  "next_batch_id (update_job i f d) = next_batch_id d"
  "next_result_id (update_job i f d) = next_result_id d"
  "log_of k (update_job i f d) = log_of k d" "results_of k (update_job i f d) = results_of k d"
  by (simp_all add: update_job_def log_of_def results_of_def)

lemma update_attempt_frame [simp, frame_simps]:
  "jobs (update_attempt i n f d) = jobs d" "results (update_attempt i n f d) = results d"
  "batches (update_attempt i n f d) = batches d"
  "next_job_id (update_attempt i n f d) = next_job_id d"
  "next_batch_id (update_attempt i n f d) = next_batch_id d"
  "next_result_id (update_attempt i n f d) = next_result_id d"
  "results_of k (update_attempt i n f d) = results_of k d"
  by (simp_all add: update_attempt_def results_of_def)

lemma log_of_update_attempt:
  assumes "\<And>a. a_job_id (f a) = a_job_id a"
  shows "log_of k (update_attempt i n f d) =
    (if k = i then map (\<lambda>a. if a_attempt a = n then f a else a) (log_of i d) else log_of k d)"
proof (cases "k = i")
  case True
  have "filter (\<lambda>a. a_job_id a = i)
          (map (\<lambda>a. if a_job_id a = i \<and> a_attempt a = n then f a else a) xs) =
        map (\<lambda>a. if a_attempt a = n then f a else a) (filter (\<lambda>a. a_job_id a = i) xs)" for xs
    by (induction xs) (auto simp: assms)
  with True show ?thesis by (simp add: log_of_def update_attempt_def)
next
  case False
  then show ?thesis
    unfolding log_of_def update_attempt_def by (simp, intro filter_map_other) (auto simp: assms)
qed

lemma job_ids_update_attempt:
  assumes "\<And>a. a_job_id (f a) = a_job_id a"
  shows "a_job_id ` set (attempts (update_attempt i n f d)) = a_job_id ` set (attempts d)"
proof -
  have "map a_job_id (attempts (update_attempt i n f d)) = map a_job_id (attempts d)"
    by (simp add: update_attempt_def assms)
  then show ?thesis by (metis list.set_map)
qed

text \<open>The last attempt of a job's log is its current one.\<close>

lemma log_last:
  assumes "map a_attempt l = [1..n]" and "l \<noteq> []"
  shows "a_attempt (last l) = n" and "distinct (map a_attempt l)" and "0 < n" and "nat n = length l"
proof -
  show "0 < n"
  proof (rule ccontr)
    assume "\<not> 0 < n"
    then have "[1..n] = []" by simp
    with assms show False by simp
  qed
  then have "[1..n] = [1..n - 1] @ [n]" by (simp add: upto_rec2)
  then show "a_attempt (last l) = n" using assms by (metis last_map last_snoc)
  show "distinct (map a_attempt l)" by (simp add: assms(1))
  show "nat n = length l" using assms(1) by (metis diff_add_cancel length_map length_upto)
qed

lemma map_current:
  assumes "map a_attempt l = [1..n]" and "l \<noteq> []"
  shows "map (\<lambda>a. if a_attempt a = n then f a else a) l = butlast l @ [f (last l)]"
  using assms log_last [OF assms] by (intro map_if_last) auto

lemma current_in_log:
  assumes "job_inv now d j" and "log_of (j_id j) d \<noteq> []"
  shows "\<exists>a \<in> set (attempts d). a_job_id a = j_id j \<and> a_attempt a = j_attempt j"
proof -
  let ?l = "log_of (j_id j) d"
  have "last ?l \<in> set ?l" using assms(2) by simp
  moreover have "a_attempt (last ?l) = j_attempt j"
    using assms by (intro log_last(1)) (auto simp: job_ok_def)
  ultimately show ?thesis by (auto simp: log_of_def)
qed

section \<open>Lifting from a job to the database\<close>

lemma db_invI:
  assumes inv: "db_inv now d"
    and jobs: "jobs d' = map f (jobs d)"
    and key: "\<And>j. j_id (f j) = j_id j" "\<And>j. j_batch_id (f j) = j_batch_id j"
      "\<And>j. j_position (f j) = j_position j"
    and frame: "batches d' = batches d" "next_batch_id d' = next_batch_id d"
      "next_job_id d' = next_job_id d"
    and atts: "a_job_id ` set (attempts d') \<subseteq> j_id ` set (jobs d)"
    and ress: "r_job_id ` set (results d') \<subseteq> j_id ` set (jobs d)" "distinct (map r_id (results d'))"
      "\<forall>r \<in> set (results d'). r_id r < next_result_id d'"
    and ok: "\<And>j. j \<in> set (jobs d) \<Longrightarrow> job_inv now d j \<Longrightarrow>
      job_ok now' (log_of (j_id j) d') (results_of (j_id j) d') (f j)"
  shows "db_inv now' d'"
proof -
  have ids: "map j_id (jobs d') = map j_id (jobs d)"
    and pos: "map (\<lambda>j. (j_batch_id j, j_position j)) (jobs d') =
              map (\<lambda>j. (j_batch_id j, j_position j)) (jobs d)"
    by (simp_all add: jobs key comp_def)
  have idset: "j_id ` set (jobs d') = j_id ` set (jobs d)" using ids by (metis list.set_map)
  have "tables_ok d'"
    using inv atts ress ids idset
    by (auto simp: db_inv_def tables_ok_def frame jobs key comp_def)
  moreover have "batches_ok d'"
    using inv pos by (simp add: db_inv_def batches_ok_def frame jobs key comp_def)
  moreover have "job_inv now' d' k" if "k \<in> set (jobs d')" for k
  proof -
    from that obtain j where "j \<in> set (jobs d)" and "k = f j" by (auto simp: jobs)
    with ok [of j] inv show ?thesis by (simp add: key db_inv_def)
  qed
  ultimately show ?thesis by (simp add: db_inv_def)
qed

lemma row_ok_mono: "row_ok now a \<Longrightarrow> now \<le> now' \<Longrightarrow> row_ok now' a"
  by (auto simp: row_ok_def split: option.splits)

lemma job_ok_mono: "job_ok now l rs j \<Longrightarrow> now \<le> now' \<Longrightarrow> job_ok now' l rs j"
  by (auto simp: job_ok_def log_ok_def list_all_iff dest: row_ok_mono)

lemma db_inv_mono: "db_inv now d \<Longrightarrow> now \<le> now' \<Longrightarrow> db_inv now' d"
  by (auto simp: db_inv_def dest: job_ok_mono)

section \<open>What each kind of write does to a job\<close>

lemma leased_log:
  assumes "job_ok now l rs j" and "leased j"
  shows "l \<noteq> []" and "a_ended_at (last l) = None" and "a_ended_by (last l) = None" and "rs = []"
    and "j_lease_expires_at j = Some (a_lease_expires_at (last l))" and "a_attempt (last l) = j_attempt j"
proof -
  have s: "l \<noteq> [] \<and> rs = [] \<and> a_ended_at (last l) = None
    \<and> j_lease_expires_at j = Some (a_lease_expires_at (last l))"
    using assms by (auto simp: job_ok_def state_ok_def leased_states_def)
  then show "l \<noteq> []" and "a_ended_at (last l) = None" and "rs = []"
    and "j_lease_expires_at j = Some (a_lease_expires_at (last l))" by auto
  have "row_ok now (last l)" using s assms(1) by (auto simp: job_ok_def log_ok_def list_all_iff)
  with s show "a_ended_by (last l) = None" by (auto simp: row_ok_def split: option.splits)
  show "a_attempt (last l) = j_attempt j"
    using s assms(1) by (intro log_last(1)) (auto simp: job_ok_def)
qed

text \<open>Rewriting the last attempt keeps the log in order when its claim time stays.\<close>

lemma log_ok_replace_last:
  assumes "log_ok now l" and "l \<noteq> []" and "now \<le> now'"
    and "a_claimed_at a = a_claimed_at (last l)" and "row_ok now' a"
  shows "log_ok now' (butlast l @ [a])"
proof -
  obtain l0 b where l: "l = l0 @ [b]" using assms(2) by (metis append_butlast_last_id)
  have "handed_over x a = handed_over x b" for x
    using assms(4) by (simp add: handed_over_def l split: option.splits)
  then show ?thesis
    using assms by (auto simp: l log_ok_def successively_append_iff list_all_iff dest: row_ok_mono)
qed

lemma job_ok_replace_last:
  assumes ok: "job_ok now l rs j" and "leased j" and "now \<le> now'"
    and a: "a_claimed_at a = a_claimed_at (last l)" "a_attempt a = a_attempt (last l)" "row_ok now' a"
    and k: "j_attempt k = j_attempt j" "job_checks k" "state_ok (butlast l @ [a]) rs' k"
  shows "job_ok now' (butlast l @ [a]) rs' k"
proof -
  note l = leased_log(1) [OF ok \<open>leased j\<close>]
  have "map a_attempt (butlast l @ [a]) = map a_attempt (butlast l @ [last l])" by (simp add: a)
  also have "\<dots> = [1..j_attempt k]" using ok l by (simp add: job_ok_def k)
  finally have "map a_attempt (butlast l @ [a]) = [1..j_attempt k]" .
  moreover have "log_ok now' (butlast l @ [a])"
    using ok l assms(3) a by (intro log_ok_replace_last) (auto simp: job_ok_def)
  ultimately show ?thesis using k by (simp add: job_ok_def)
qed

lemma ended_row_ok:
  assumes ok: "job_ok now l rs j" "leased j"
    and e: "now \<le> now'" "e \<le> now'"
      "if b = Lease_expired then sql_le (j_lease_expires_at j) e else sql_gt (j_lease_expires_at j) e"
    and a: "a_claimed_at a = a_claimed_at (last l)" "a_lease_expires_at a = a_lease_expires_at (last l)"
      "a_ended_at a = Some e" "a_ended_by a = Some b"
  shows "row_ok now' a"
proof -
  have "row_ok now (last l)"
    using ok leased_log(1) [OF ok] by (auto simp: job_ok_def log_ok_def list_all_iff)
  then show ?thesis
    using e a leased_log(5) [OF ok] by (auto simp: row_ok_def split: if_splits)
qed

lemma end_job_ok:
  assumes ok: "job_ok now l rs j" and lj: "leased j"
    and e: "now \<le> now'" "e \<le> now'"
      "if b = Lease_expired then sql_le (j_lease_expires_at j) e else sql_gt (j_lease_expires_at j) e"
    and b: "b = Lease_expired \<or> b = Released"
  shows "job_ok now'
           (butlast l @ [(last l)\<lparr>a_ended_at := Some e, a_ended_by := Some b, a_error := Some err\<rparr>])
           rs (end_job e err retry j)"
proof (rule job_ok_replace_last [OF ok lj e(1)])
  let ?a = "(last l)\<lparr>a_ended_at := Some e, a_ended_by := Some b, a_error := Some err\<rparr>"
  show "row_ok now' ?a" by (rule ended_row_ok [OF ok lj e]) simp_all
  have jc: "job_checks j" and "list_all retried (butlast l)"
    using ok by (auto simp: job_ok_def log_ok_def)
  moreover have "retried ?a" using b by (auto simp: retried_def)
  ultimately show "state_ok (butlast l @ [?a]) rs (end_job e err retry j)"
    using leased_log(4) [OF ok lj]
    by (auto simp: state_ok_def end_job_def may_retry_def final_state_def job_checks_def
        leased_states_def split: if_splits)
  show "job_checks (end_job e err retry j)"
    using jc lj by (auto simp: job_checks_def end_job_def final_state_def state_list_defs)
qed (simp_all add: end_job_def)

lemma cancelled_ok:
  assumes ok: "job_ok now l rs j" and lj: "leased j"
    and e: "now \<le> now'" "e \<le> now'" "sql_gt (j_lease_expires_at j) e"
    and c: "j_cancel_requested_at j \<noteq> None"
  shows "job_ok now'
           (butlast l @ [(last l)\<lparr>a_ended_at := Some e, a_ended_by := Some Ended_cancelled,
                                  a_error := Some err\<rparr>])
           rs (j\<lparr>j_state := Cancelled, j_lease_expires_at := None, j_finished_at := Some e,
                 j_updated_at := u\<rparr>)"
proof (rule job_ok_replace_last [OF ok lj e(1)])
  show "row_ok now' ((last l)\<lparr>a_ended_at := Some e, a_ended_by := Some Ended_cancelled,
                               a_error := Some err\<rparr>)"
    by (rule ended_row_ok [OF ok lj e(1,2), where b = Ended_cancelled]) (use e in simp_all)
qed (use ok lj c leased_log(4) [OF ok lj] in
     \<open>auto simp: job_ok_def job_checks_def state_ok_def state_list_defs\<close>)

lemma published_ok:
  assumes ok: "job_ok now l rs j" and lj: "leased j"
    and e: "now \<le> now'" "e \<le> now'" "sql_gt (j_lease_expires_at j) e"
    and c: "j_cancel_requested_at j = None"
    and r: "r_attempt r = j_attempt j" "r_worker_id r = a_worker_id (last l)"
      "r_published_at r = e" "r_outcome r = v"
  shows "job_ok now'
           (butlast l @ [(last l)\<lparr>a_ended_at := Some e, a_ended_by := Some Published\<rparr>])
           [r] (j\<lparr>j_state := outcome_state v, j_result_id := Some (r_id r),
                  j_lease_expires_at := None, j_finished_at := Some e, j_updated_at := u\<rparr>)"
proof (rule job_ok_replace_last [OF ok lj e(1)])
  show "row_ok now' ((last l)\<lparr>a_ended_at := Some e, a_ended_by := Some Published\<rparr>)"
    by (rule ended_row_ok [OF ok lj e(1,2), where b = Published]) (use e in simp_all)
qed (use ok lj c r in \<open>auto simp: job_ok_def job_checks_def state_ok_def result_ok_def\<close>)

lemma beat_ok:
  assumes ok: "job_ok now l rs j" and lj: "leased j" and n: "now \<le> now'"
  shows "job_ok now' (butlast l @ [(last l)\<lparr>a_lease_expires_at := u\<rparr>]) rs
           (j\<lparr>j_lease_expires_at := Some u, j_updated_at := t\<rparr>)"
proof (rule job_ok_replace_last [OF ok lj n])
  have "row_ok now (last l)"
    using ok leased_log(1) [OF ok lj] by (auto simp: job_ok_def log_ok_def list_all_iff)
  then show "row_ok now' ((last l)\<lparr>a_lease_expires_at := u\<rparr>)"
    using n leased_log(2,3) [OF ok lj] by (auto simp: row_ok_def)
qed (use ok lj leased_log(1,2,4) [OF ok lj] in
     \<open>auto simp: job_ok_def job_checks_def state_ok_def state_list_defs split: if_splits\<close>)

lemma claimed_ok:
  assumes ok: "job_ok now l rs j" and q: "j_state j = Queued"
    and clk: "now \<le> now'" "now \<le> clk 0" "clk 0 \<le> now'"
  shows "job_ok now' (l @ [new_attempt clk w s j]) rs (claim_row clk w s j)"
proof -
  let ?a = "new_attempt clk w s j"
  have jc: "job_checks j" and lo: "log_ok now l" and nums: "map a_attempt l = [1..j_attempt j]"
    and st: "list_all retried l" "rs = []" "j_attempt j < j_max_attempts j"
    using ok q by (auto simp: job_ok_def state_ok_def)
  have "handed_over (last l) ?a" if "l \<noteq> []"
  proof -
    have "row_ok now (last l)" and "retried (last l)"
      using that lo st by (auto simp: log_ok_def list_all_iff)
    then show ?thesis
      using clk by (auto simp: row_ok_def retried_def handed_over_def new_attempt_def split: option.splits)
  qed
  moreover have "row_ok now' ?a" using clk by (simp add: row_ok_def new_attempt_def)
  moreover have "list_all (row_ok now') l"
    using lo row_ok_mono [OF _ clk(1)] by (auto simp: log_ok_def list_all_iff)
  ultimately have "log_ok now' (l @ [?a])"
    using lo st by (auto simp: log_ok_def successively_append_iff)
  moreover have "map a_attempt (l @ [?a]) = [1..j_attempt j + 1]"
    using nums jc by (simp add: new_attempt_def upto_rec2 job_checks_def)
  ultimately show ?thesis
    using jc st q
    by (auto simp: job_ok_def job_checks_def state_ok_def claim_row_def new_attempt_def state_list_defs)
qed

lemma started_ok:
  assumes ok: "job_ok now l rs j" and s: "j_state j = Claimed" and n: "now \<le> now'"
  shows "job_ok now' l rs (j\<lparr>j_state := Running, j_started_at := t, j_updated_at := u\<rparr>)"
  using job_ok_mono [OF ok n] s
  by (auto simp: job_ok_def job_checks_def state_ok_def state_list_defs)

lemma cancel_row_ok:
  assumes ok: "job_ok now l rs j" and s: "j_state j \<in> set UNFINISHED_STATES" and n: "now \<le> now'"
  shows "job_ok now' l rs (cancel_row clk j)"
proof -
  note ok' = job_ok_mono [OF ok n]
  have c: "j_cancel_requested_at (cancel_row clk j) \<noteq> None"
    by (simp add: cancel_row_def split: option.splits)
  show ?thesis
  proof (cases "j_state j = Queued")
    case True
    with ok' c show ?thesis
      by (simp add: job_ok_def job_checks_def state_ok_def state_list_defs list_all_iff)
         (simp add: cancel_row_def)
  next
    case False
    with s have "leased j" by (auto simp: state_list_defs)
    with ok' False show ?thesis
      by (simp add: job_ok_def job_checks_def state_ok_def state_list_defs cancel_row_def)
  qed
qed

end
