(* ===== verification/Fleet_Runs.thy ===== *)
theory Fleet_Runs
  imports Fleet_Inv
begin

text \<open>
  Runs of the fleet: any interleaving of store calls, with any arguments, by any number of workers and
  clients, on a database clock that never goes backwards. A call whose process dies before its commit
  is no step; one whose answer is lost after its commit is a step like any other. The one thing asked
  of the callers is what \<^verbatim>\<open>Worker.step\<close> does: a result is published under the worker id its attempt
  was claimed with. Every operation keeps the invariant, so every reachable database has it.
\<close>

section \<open>Steps\<close>

definition during :: "time \<Rightarrow> time \<Rightarrow> (nat \<Rightarrow> time) \<Rightarrow> bool" where
  "during now now' clk \<longleftrightarrow> now \<le> now' \<and> (\<forall>k. now \<le> clk k \<and> clk k \<le> now')"

definition claimed_by :: "int \<Rightarrow> int \<Rightarrow> string \<Rightarrow> db \<Rightarrow> bool" where
  "claimed_by i n w d \<longleftrightarrow>
     (\<forall>a \<in> set (attempts d). a_job_id a = i \<and> a_attempt a = n \<longrightarrow> a_worker_id a = w)"

type_synonym fleet = "time \<times> db"

inductive fleet_step :: "(json \<Rightarrow> string) \<Rightarrow> fleet \<Rightarrow> fleet \<Rightarrow> bool"
  for sha :: "json \<Rightarrow> string" where
  step_tick: "now \<le> now' \<Longrightarrow> fleet_step sha (now, d) (now', d)"
| step_submit: "during now now' clk \<Longrightarrow>
    fleet_step sha (now, d) (now', snd (submit_batch sha (clk 0) label js key m policy d))"
| step_claim: "during now now' clk \<Longrightarrow>
    fleet_step sha (now, d) (now', snd (claim locked scan clk w lease d))"
| step_start: "during now now' clk \<Longrightarrow> fleet_step sha (now, d) (now', snd (start clk i n d))"
| step_heartbeat: "during now now' clk \<Longrightarrow>
    fleet_step sha (now, d) (now', snd (heartbeat clk i n lease d))"
| step_cancel: "during now now' clk \<Longrightarrow> fleet_step sha (now, d) (now', snd (cancel clk i d))"
| step_finish_cancelled: "during now now' clk \<Longrightarrow>
    fleet_step sha (now, d) (now', snd (finish_cancelled clk i n d))"
| step_publish: "during now now' clk \<Longrightarrow> claimed_by i n w d \<Longrightarrow>
    fleet_step sha (now, d) (now', snd (publish clk i n w v body d))"
| step_release: "during now now' clk \<Longrightarrow>
    fleet_step sha (now, d) (now', snd (release clk i n error retry d))"
| step_reap: "during now now' clk \<Longrightarrow> fleet_step sha (now, d) (now', snd (reap locked clk retry d))"
| step_record: "now \<le> now' \<Longrightarrow> fleet_step sha (now, d) (now', record_execution i n execution logs d)"

fun fleet_init :: "fleet \<Rightarrow> bool" where
  "fleet_init (now, d) = (d = empty_db)"

fun fleet_inv :: "fleet \<Rightarrow> bool" where
  "fleet_inv (now, d) = db_inv now d"

abbreviation fleet_reachable :: "(json \<Rightarrow> string) \<Rightarrow> fleet \<Rightarrow> bool" where
  "fleet_reachable sha \<equiv> reach fleet_init (fleet_step sha)"

section \<open>Every operation keeps the invariant\<close>

lemma duringD: "during now now' clk \<Longrightarrow> now \<le> now'" "during now now' clk \<Longrightarrow> now \<le> clk k"
  "during now now' clk \<Longrightarrow> clk k \<le> now'"
  by (auto simp: during_def)

lemma inv_tables: "db_inv now d \<Longrightarrow> tables_ok d"
  by (simp add: db_inv_def)

lemma inv_job: "db_inv now d \<Longrightarrow> j \<in> set (jobs d) \<Longrightarrow> job_inv now d j"
  by (simp add: db_inv_def)

lemma inv_results:
  "db_inv now d \<Longrightarrow> r_job_id ` set (results d) \<subseteq> j_id ` set (jobs d)"
  "db_inv now d \<Longrightarrow> distinct (map r_id (results d))"
  "db_inv now d \<Longrightarrow> \<forall>r \<in> set (results d). r_id r < next_result_id d"
  "db_inv now d \<Longrightarrow> a_job_id ` set (attempts d) \<subseteq> j_id ` set (jobs d)"
  by (auto simp: db_inv_def tables_ok_def)

lemma empty_db_inv: "db_inv now empty_db"
  by (simp add: db_inv_def tables_ok_def batches_ok_def empty_db_def)

text \<open>Rewriting one job's row and its current attempt.\<close>

lemma update_one_inv:
  assumes inv: "db_inv now d" and j: "j \<in> set (jobs d)" "leased j" and n: "now \<le> now'"
    and f: "\<And>j. j_id (f j) = j_id j" "\<And>j. j_batch_id (f j) = j_batch_id j"
      "\<And>j. j_position (f j) = j_position j"
    and g: "\<And>a. a_job_id (g a) = a_job_id a"
    and ok: "job_ok now' (butlast (log_of (j_id j) d) @ [g (last (log_of (j_id j) d))])
               (results_of (j_id j) d) (f j)"
  shows "db_inv now' (update_attempt (j_id j) (j_attempt j) g (update_job (j_id j) f d))"
proof (rule db_invI [OF inv, where f = "\<lambda>k. if j_id k = j_id j then f k else k"])
  let ?d = "update_attempt (j_id j) (j_attempt j) g (update_job (j_id j) f d)"
  have l: "log_of (j_id j) d \<noteq> []" "map a_attempt (log_of (j_id j) d) = [1..j_attempt j]"
    using inv_job [OF inv j(1)] leased_log(1) [OF inv_job [OF inv j(1)] j(2)]
    by (simp_all add: job_ok_def)
  have here: "log_of (j_id j) ?d = butlast (log_of (j_id j) d) @ [g (last (log_of (j_id j) d))]"
    using l by (simp add: log_of_update_attempt g map_current)
  show "jobs ?d = map (\<lambda>k. if j_id k = j_id j then f k else k) (jobs d)"
    by (simp add: update_job_def)
  fix k assume k: "k \<in> set (jobs d)" "job_inv now d k"
  show "job_ok now' (log_of (j_id k) ?d) (results_of (j_id k) ?d) (if j_id k = j_id j then f k else k)"
  proof (cases "j_id k = j_id j")
    case True
    then have "k = j" using job_unique [OF inv_tables [OF inv]] k j by blast
    then show ?thesis using ok here by simp
  next
    case False
    then show ?thesis using job_ok_mono [OF k(2) n] by (simp add: log_of_update_attempt g)
  qed
qed (use inv_results [OF inv] in \<open>auto simp: f job_ids_update_attempt g\<close>)

text \<open>Rewriting one job's row only.\<close>

lemma update_job_inv:
  assumes inv: "db_inv now d" and j: "j \<in> set (jobs d)" and n: "now \<le> now'"
    and f: "\<And>j. j_id (f j) = j_id j" "\<And>j. j_batch_id (f j) = j_batch_id j"
      "\<And>j. j_position (f j) = j_position j"
    and ok: "job_ok now' (log_of (j_id j) d) (results_of (j_id j) d) (f j)"
  shows "db_inv now' (update_job (j_id j) f d)"
proof (rule db_invI [OF inv, where f = "\<lambda>k. if j_id k = j_id j then f k else k"])
  show "jobs (update_job (j_id j) f d) = map (\<lambda>k. if j_id k = j_id j then f k else k) (jobs d)"
    by (simp add: update_job_def)
  fix k assume k: "k \<in> set (jobs d)" "job_inv now d k"
  show "job_ok now' (log_of (j_id k) (update_job (j_id j) f d))
          (results_of (j_id k) (update_job (j_id j) f d)) (if j_id k = j_id j then f k else k)"
    using ok job_ok_mono [OF k(2) n] job_unique [OF inv_tables [OF inv] k(1) j] by auto
qed (use inv_results [OF inv] in \<open>auto simp: f\<close>)

lemma start_inv: "db_inv now d \<Longrightarrow> during now now' clk \<Longrightarrow> db_inv now' (snd (start clk i n d))"
proof -
  assume inv: "db_inv now d" and clk: "during now now' clk"
  let ?f = "\<lambda>j. j\<lparr>j_state := Running, j_started_at := Some (clk 1), j_updated_at := clk 2\<rparr>"
  show ?thesis
  proof (cases "\<exists>j \<in> set (jobs d). start_ok (clk 0) i n Claimed j")
    case True
    then obtain j where j: "j \<in> set (jobs d)" "start_ok (clk 0) i n Claimed j" by blast
    then have "db_inv now' (update_job (j_id j) ?f d)"
      by (intro update_job_inv [OF inv j(1) duringD(1) [OF clk]] started_ok [OF inv_job [OF inv]])
         (auto simp: start_ok_def duringD(1) [OF clk])
    then show ?thesis using True j(2) by (simp add: start_def start_ok_def)
  next
    case False
    then show ?thesis using db_inv_mono [OF inv duringD(1) [OF clk]] by (simp add: start_def)
  qed
qed

lemma cancel_inv: "db_inv now d \<Longrightarrow> during now now' clk \<Longrightarrow> db_inv now' (snd (cancel clk i d))"
proof -
  assume inv: "db_inv now d" and clk: "during now now' clk"
  show ?thesis
  proof (cases "find (\<lambda>j. j_id j = i \<and> j_state j \<in> set UNFINISHED_STATES) (jobs d)")
    case None
    then show ?thesis using db_inv_mono [OF inv duringD(1) [OF clk]] by (simp add: cancel_def)
  next
    case (Some j)
    then have j: "j \<in> set (jobs d)" "j_id j = i" "j_state j \<in> set UNFINISHED_STATES"
      by (auto dest: find_Some_mem)
    then have "db_inv now' (update_job (j_id j) (cancel_row clk) d)"
      by (intro update_job_inv [OF inv j(1) duringD(1) [OF clk]]
            cancel_row_ok [OF inv_job [OF inv]] duringD(1) [OF clk])
         (auto simp: cancel_row_def)
    with Some j(2) show ?thesis by (simp add: cancel_def)
  qed
qed

lemma heartbeat_inv:
  "db_inv now d \<Longrightarrow> during now now' clk \<Longrightarrow> db_inv now' (snd (heartbeat clk i n lease d))"
proof -
  assume inv: "db_inv now d" and clk: "during now now' clk"
  show ?thesis
  proof (cases "find (\<lambda>j. holds i n j \<and> sql_gt (j_lease_expires_at j) (clk 0)) (jobs d)")
    case None
    then show ?thesis using db_inv_mono [OF inv duringD(1) [OF clk]] by (simp add: heartbeat_def)
  next
    case (Some j)
    then have j: "j \<in> set (jobs d)" "j_id j = i" "j_attempt j = n" "leased j"
      by (auto simp: holds_def dest: find_Some_mem)
    show ?thesis
      unfolding heartbeat_def Some option.case Let_def snd_conv unfolding j(2,3) [symmetric]
      by (rule update_one_inv [OF inv j(1,4) duringD(1) [OF clk]])
         (simp_all add: beat_ok [OF inv_job [OF inv j(1)] j(4) duringD(1) [OF clk]])
  qed
qed

lemma finish_cancelled_sql_inv:
  assumes inv: "db_inv now d" and t: "now \<le> now'" "t \<le> now'"
  shows "db_inv now' (snd (finish_cancelled_sql t i n d))"
proof (cases "find (\<lambda>j. holds i n j \<and> sql_gt (j_lease_expires_at j) t \<and> j_cancel_requested_at j \<noteq> None)
                (jobs d)")
  case None
  then show ?thesis using db_inv_mono [OF inv t(1)] by (simp add: finish_cancelled_sql_def)
next
  case (Some j)
  then have j: "j \<in> set (jobs d)" "j_id j = i" "j_attempt j = n" "leased j"
    "sql_gt (j_lease_expires_at j) t" "j_cancel_requested_at j \<noteq> None"
    by (auto simp: holds_def dest: find_Some_mem)
  show ?thesis
    unfolding finish_cancelled_sql_def Some option.case snd_conv unfolding j(2,3) [symmetric]
    by (rule update_one_inv [OF inv j(1,4) t(1)])
       (simp_all add: cancelled_ok [OF inv_job [OF inv j(1)] j(4) t j(5,6)])
qed

lemma finish_cancelled_inv:
  "db_inv now d \<Longrightarrow> during now now' clk \<Longrightarrow> db_inv now' (snd (finish_cancelled clk i n d))"
  using finish_cancelled_sql_inv [of now d now' "clk 0" i n]
  by (auto simp: finish_cancelled_def duringD split: prod.splits bool.splits)

lemma record_execution_inv:
  assumes inv: "db_inv now d" and n: "now \<le> now'"
  shows "db_inv now' (record_execution i n x logs d)"
proof (rule db_invI [OF inv, where f = id])
  let ?g = "\<lambda>a. a\<lparr>a_execution := Some (jsonb x), a_logs := logs\<rparr>"
  have [simp]: "row_ok t (?g a) = row_ok t a" "retried (?g a) = retried a" for t a
    by (auto simp: row_ok_def retried_def split: option.splits)
  have same: "job_ok now' (map (\<lambda>a. if a_attempt a = n then ?g a else a) l) rs j = job_ok now' l rs j" for l rs j
  proof -
    let ?h = "\<lambda>a. if a_attempt a = n then ?g a else a"
    have last: "l \<noteq> [] \<Longrightarrow> last (map ?h l) = ?h (last l)" by (rule last_map)
    have "handed_over (?h a) (?h b) = handed_over a b" for a b
      by (simp add: handed_over_def split: option.splits)
    then have "log_ok now' (map ?h l) = log_ok now' l"
      by (simp add: log_ok_def list.pred_map comp_def successively_map map_butlast [symmetric])
    moreover have "state_ok (map ?h l) rs j = state_ok l rs j"
      by (cases "l = []")
         (simp_all add: state_ok_def result_ok_def last list.pred_map comp_def split: list.splits)
    ultimately show ?thesis by (simp add: job_ok_def comp_def if_distrib cong: if_cong)
  qed
  fix j assume "job_inv now d j"
  then show "job_ok now' (log_of (j_id j) (record_execution i n x logs d))
      (results_of (j_id j) (record_execution i n x logs d)) (id j)"
    using job_ok_mono [OF _ n] by (auto simp: record_execution_def log_of_update_attempt same)
qed (use inv_results [OF inv] in \<open>auto simp: record_execution_def job_ids_update_attempt\<close>)

lemma claim_inv:
  assumes inv: "db_inv now d" and clk: "during now now' clk"
  shows "db_inv now' (snd (claim locked scan clk w lease d))"
proof (cases "oldest_claimable locked scan d")
  case None
  then show ?thesis using db_inv_mono [OF inv duringD(1) [OF clk]] by (simp add: claim_def)
next
  case (Some j)
  let ?F = "filter (claimable locked scan) (jobs d)"
  have "j = hd (sort_key j_id ?F)" and "?F \<noteq> []"
    using Some by (auto simp: oldest_claimable_def split: list.splits)
  then have "j \<in> set ?F" using hd_sort_key_least(1) by blast
  then have j: "j \<in> set (jobs d)" "j_state j = Queued" by (auto simp: claimable_def)
  let ?d1 = "update_job (j_id j) (claim_row clk w lease) d"
  let ?d = "?d1\<lparr>attempts := attempts d @ [new_attempt clk w lease j]\<rparr>"
  have log: "log_of k ?d = log_of k d @ (if k = j_id j then [new_attempt clk w lease j] else [])"
    and res: "results_of k ?d = results_of k d" for k
    by (simp_all add: log_of_def results_of_def new_attempt_def)
  have "db_inv now' ?d"
  proof (rule db_invI [OF inv, where f = "\<lambda>k. if j_id k = j_id j then claim_row clk w lease k else k"])
    show "jobs ?d = map (\<lambda>k. if j_id k = j_id j then claim_row clk w lease k else k) (jobs d)"
      by (simp add: update_job_def)
    fix k assume k: "k \<in> set (jobs d)" "job_inv now d k"
    show "job_ok now' (log_of (j_id k) ?d) (results_of (j_id k) ?d)
            (if j_id k = j_id j then claim_row clk w lease k else k)"
    proof (cases "j_id k = j_id j")
      case True
      then have "k = j" using job_unique [OF inv_tables [OF inv]] k j by blast
      then show ?thesis
        using claimed_ok [OF k(2), of now' clk w lease] j(2) duringD [OF clk] by (simp add: log res)
    next
      case False
      then show ?thesis using job_ok_mono [OF k(2) duringD(1) [OF clk]] by (simp add: log res)
    qed
  qed (use inv_results [OF inv] j in \<open>auto simp: claim_row_def new_attempt_def\<close>)
  with Some show ?thesis by (simp add: claim_def Let_def)
qed

lemma publish_inv:
  assumes inv: "db_inv now d" and clk: "during now now' clk" and w: "claimed_by i n w d"
  shows "db_inv now' (snd (publish clk i n w v body d))"
proof (cases "find (holds i n) (jobs d)")
  case None
  then show ?thesis using db_inv_mono [OF inv duringD(1) [OF clk]] by (simp add: publish_def)
next
  case (Some j)
  then have j: "j \<in> set (jobs d)" "j_id j = i" "j_attempt j = n" "leased j"
    by (auto simp: holds_def dest: find_Some_mem)
  note ok = inv_job [OF inv j(1)]
  consider (cancel) "j_cancel_requested_at j \<noteq> None"
    | (late) "j_cancel_requested_at j = None" "\<not> sql_gt (j_lease_expires_at j) (clk 1)"
    | (live) "j_cancel_requested_at j = None" "sql_gt (j_lease_expires_at j) (clk 1)" by blast
  then show ?thesis
  proof cases
    case cancel
    then show ?thesis
      using Some finish_cancelled_sql_inv [OF inv duringD(1,3) [OF clk]] by (simp add: publish_def)
  next
    case late
    then show ?thesis using Some db_inv_mono [OF inv duringD(1) [OF clk]] by (simp add: publish_def)
  next
    case live
    let ?r = "\<lparr>r_id = next_result_id d, r_job_id = i, r_attempt = n, r_worker_id = w,
               r_published_at = clk 1, r_outcome = v, r_body = jsonb body\<rparr>"
    let ?d1 = "d\<lparr>results := results d @ [?r], next_result_id := next_result_id d + 1\<rparr>"
    let ?g = "\<lambda>a. a\<lparr>a_ended_at := Some (clk 1), a_ended_by := Some Published\<rparr>"
    let ?f = "\<lambda>j. j\<lparr>j_state := outcome_state v, j_result_id := Some (r_id ?r),
                     j_lease_expires_at := None, j_finished_at := Some (clk 1), j_updated_at := clk 1\<rparr>"
    let ?d = "update_attempt i n ?g (update_job i ?f ?d1)"
    let ?l = "log_of i d"
    have l: "?l \<noteq> []" "map a_attempt ?l = [1..n]" "a_attempt (last ?l) = n" "results_of i d = []"
      using ok leased_log [OF ok j(4)] j by (simp_all add: job_ok_def)
    have "last ?l \<in> set ?l" using l(1) by simp
    then have w': "a_worker_id (last ?l) = w"
      using w l(3) by (auto simp: claimed_by_def log_of_def)
    have log: "log_of k ?d = (if k = i then butlast ?l @ [?g (last ?l)] else log_of k d)" for k
    proof -
      have "log_of k ?d1 = log_of k d" for k by (simp add: log_of_def)
      then show ?thesis using l by (simp add: log_of_update_attempt map_current)
    qed
    have res: "results_of k ?d = (if k = i then [?r] else results_of k d)" for k
      using l(4) by (simp add: results_of_def)
    have "db_inv now' ?d"
    proof (rule db_invI [OF inv, where f = "\<lambda>k. if j_id k = i then ?f k else k"])
      show "jobs ?d = map (\<lambda>k. if j_id k = i then ?f k else k) (jobs d)"
        by (simp add: update_job_def)
      fix k assume k: "k \<in> set (jobs d)" "job_inv now d k"
      show "job_ok now' (log_of (j_id k) ?d) (results_of (j_id k) ?d) (if j_id k = i then ?f k else k)"
      proof (cases "j_id k = i")
        case True
        then have "k = j" using job_unique [OF inv_tables [OF inv]] k j by blast
        then show ?thesis
          using published_ok [OF ok j(4) duringD(1) [OF clk] duringD(3) [OF clk] live(2,1), of ?r] j w' True
          unfolding log res by simp
      next
        case False
        then show ?thesis using job_ok_mono [OF k(2) duringD(1) [OF clk]] unfolding log res by simp
      qed
    qed (use inv_results [OF inv] j in \<open>auto simp: job_ids_update_attempt\<close>)
    with Some live show ?thesis by (simp add: publish_def Let_def)
  qed
qed

lemma end_attempts_inv:
  assumes inv: "db_inv now d" and t: "now \<le> now'" "t \<le> now'"
    and c: "\<And>j. chosen j \<Longrightarrow> leased j"
      "\<And>j. chosen j \<Longrightarrow> if b = Lease_expired then sql_le (j_lease_expires_at j) t
                              else sql_gt (j_lease_expires_at j) t"
    and b: "b = Lease_expired \<or> b = Released"
  shows "db_inv now' (snd (end_attempts chosen b t err retry d))"
proof -
  let ?moved = "map (end_job t err retry) (filter chosen (jobs d))"
  let ?of = "\<lambda>a. find (\<lambda>m. j_id m = a_job_id a \<and> j_attempt m = a_attempt a) ?moved"
  let ?g = "\<lambda>a. a\<lparr>a_ended_at := Some t, a_ended_by := Some b, a_error := Some err\<rparr>"
  let ?h = "\<lambda>a. if ?of a \<noteq> None then ?g a else a"
  let ?f = "\<lambda>j. if chosen j then end_job t err retry j else j"
  let ?d = "d\<lparr>jobs := map ?f (jobs d), attempts := map ?h (attempts d)\<rparr>"
  have [simp]: "j_id (end_job t err retry j) = j_id j" "j_attempt (end_job t err retry j) = j_attempt j"
    "j_batch_id (end_job t err retry j) = j_batch_id j"
    "j_position (end_job t err retry j) = j_position j" for j
    by (simp_all add: end_job_def)
  have hit: "?of a \<noteq> None \<longleftrightarrow> chosen j \<and> j_attempt j = a_attempt a"
    if "j \<in> set (jobs d)" "a_job_id a = j_id j" for j a
  proof -
    have "?of a \<noteq> None \<longleftrightarrow>
        (\<exists>k \<in> set (jobs d). chosen k \<and> j_id k = a_job_id a \<and> j_attempt k = a_attempt a)"
      unfolding not_None_eq [symmetric] find_None_all by auto
    then show ?thesis using that(2) job_unique [OF inv_tables [OF inv] _ that(1)] that(1) by auto
  qed
  have log: "log_of (j_id j) ?d = (if chosen j
      then map (\<lambda>a. if a_attempt a = j_attempt j then ?g a else a) (log_of (j_id j) d)
      else log_of (j_id j) d)" if "j \<in> set (jobs d)" for j
  proof -
    have "log_of (j_id j) ?d = map ?h (log_of (j_id j) d)"
      unfolding log_of_def by (simp, rule filter_map_same) simp
    also have "\<dots> = map (\<lambda>a. if chosen j \<and> j_attempt j = a_attempt a then ?g a else a) (log_of (j_id j) d)"
    proof (rule map_cong [OF refl])
      fix a assume "a \<in> set (log_of (j_id j) d)"
      then have "a_job_id a = j_id j" by (simp add: log_of_def)
      from hit [OF that this] show "?h a = (if chosen j \<and> j_attempt j = a_attempt a then ?g a else a)"
        by (simp only:)
    qed
    finally show ?thesis by (cases "chosen j") (auto intro!: map_cong)
  qed
  have "db_inv now' ?d"
  proof (rule db_invI [OF inv, where f = ?f])
    fix j assume j: "j \<in> set (jobs d)" "job_inv now d j"
    show "job_ok now' (log_of (j_id j) ?d) (results_of (j_id j) ?d) (?f j)"
    proof (cases "chosen j")
      case True
      have "log_of (j_id j) ?d = butlast (log_of (j_id j) d) @ [?g (last (log_of (j_id j) d))]"
        unfolding log [OF j(1)] using j True leased_log(1) [OF j(2) c(1) [OF True]]
        by (simp add: map_current job_ok_def)
      then show ?thesis
        using end_job_ok [OF j(2) c(1) [OF True] t c(2) [OF True] b] True by (simp add: results_of_def)
    next
      case False
      then show ?thesis
        unfolding log [OF j(1)] using job_ok_mono [OF j(2) t(1)] by (simp add: results_of_def)
    qed
  qed (use inv_results [OF inv] in auto)
  then show ?thesis by (simp add: end_attempts_def Let_def)
qed

lemma release_inv:
  assumes "db_inv now d" and clk: "during now now' clk"
  shows "db_inv now' (snd (release clk i n err retry d))"
proof -
  have "db_inv now' (snd (end_attempts (\<lambda>j. holds i n j \<and> sql_gt (j_lease_expires_at j) (clk 0))
          Released (clk 0) err retry d))"
    by (rule end_attempts_inv [OF assms(1) duringD(1,3) [OF clk]]) (auto simp: holds_def)
  then show ?thesis by (auto simp: release_def split: prod.splits list.splits)
qed

lemma reap_inv:
  assumes "db_inv now d" and clk: "during now now' clk"
  shows "db_inv now' (snd (reap locked clk retry d))"
proof -
  have "db_inv now' (snd (end_attempts
          (\<lambda>j. leased j \<and> sql_le (j_lease_expires_at j) (clk 0) \<and> j_id j \<notin> locked)
          Lease_expired (clk 0) LEASE_EXPIRED retry d))"
    by (rule end_attempts_inv [OF assms(1) duringD(1,3) [OF clk]]) auto
  then show ?thesis by (auto simp: reap_def split: prod.splits)
qed

lemma new_rows_simps [simp]:
  "length (new_rows sha t b m p first js) = length js"
  "map j_id (new_rows sha t b m p first js) = map (\<lambda>k. first + int k) [0..<length js]"
  "map (\<lambda>j. (j_batch_id j, j_position j)) (new_rows sha t b m p first js) =
     map (Pair b) [0..<length js]"
  by (simp add: new_rows_def)
     (rule nth_equalityI; simp add: new_rows_def new_row_def nth_enumerate_eq)+

lemma new_row_ok: "1 \<le> m \<Longrightarrow> job_ok now [] [] (new_row sha t b m p i pos n)"
  by (simp add: job_ok_def new_row_def job_checks_def log_ok_def state_ok_def state_list_defs)

lemma bump_batch_id_inv: "db_inv now d \<Longrightarrow> db_inv now (d\<lparr>next_batch_id := next_batch_id d + 1\<rparr>)"
  by (auto simp: db_inv_def tables_ok_def batches_ok_def log_of_def results_of_def)

lemma insert_batch_inv:
  assumes inv: "db_inv now d" and m: "1 \<le> m" and key: "key \<notin> set (map b_idempotency_key (batches d)) \<or> key = None"
  shows "db_inv now (d\<lparr>next_batch_id := next_batch_id d + 1,
           batches := batches d @ [\<lparr>b_id = next_batch_id d, b_idempotency_key = key,
             b_request_digest = dig, b_label = label, b_created_at = t\<rparr>],
           jobs := jobs d @ new_rows sha t (next_batch_id d) m policy (next_job_id d) js,
           next_job_id := next_job_id d + int (length js)\<rparr>)" (is "db_inv now ?d")
proof -
  let ?rows = "new_rows sha t (next_batch_id d) m policy (next_job_id d) js"
  let ?first = "next_job_id d"
  have tab: "tables_ok d" and bat: "batches_ok d" using inv by (simp_all add: db_inv_def)
  have ids: "j_id ` set ?rows = (\<lambda>k. ?first + int k) ` {0..<length js}"
    using arg_cong [OF new_rows_simps(2), of set] by (simp only: set_map set_upt)
  have poss: "(\<lambda>j. (j_batch_id j, j_position j)) ` set ?rows = Pair (next_batch_id d) ` {0..<length js}"
    using arg_cong [OF new_rows_simps(3), of set] by (simp only: set_map set_upt)
  have new: "?first \<le> j_id j \<and> j_id j < ?first + int (length js)" "j_batch_id j = next_batch_id d"
    if "j \<in> set ?rows" for j
    using that ids poss by (force simp: image_iff)+
  have old: "j_id j < ?first" "j_batch_id j < next_batch_id d" if "j \<in> set (jobs d)" for j
    using that tab bat by (auto simp: tables_ok_def batches_ok_def)
  have "tables_ok ?d"
    using tab new old by (fastforce simp: tables_ok_def distinct_map inj_on_def)
  moreover have "batches_ok ?d"
    using bat key new old poss
    by (fastforce simp: batches_ok_def distinct_map inj_on_def)
  moreover have "job_inv now ?d j" if "j \<in> set (jobs ?d)" for j
  proof -
    have same: "log_of k ?d = log_of k d" "results_of k ?d = results_of k d" for k
      by (simp_all add: log_of_def results_of_def)
    from that consider "j \<in> set (jobs d)" | "j \<in> set ?rows" by auto
    then show ?thesis
    proof cases
      case 1
      then show ?thesis using inv_job [OF inv] by (simp add: same)
    next
      case 2
      then have "j_id j \<notin> j_id ` set (jobs d)" using new(1) old(1) by force
      then have "\<forall>a \<in> set (attempts d). a_job_id a \<noteq> j_id j" "\<forall>r \<in> set (results d). r_job_id r \<noteq> j_id j"
        using tab unfolding tables_ok_def by metis+
      then have none: "log_of (j_id j) d = []" "results_of (j_id j) d = []"
        by (simp_all add: log_of_def results_of_def filter_empty_conv)
      from 2 have "job_ok now [] [] j" by (auto simp: new_rows_def new_row_ok [OF m])
      then show ?thesis by (simp add: same none)
    qed
  qed
  ultimately show ?thesis by (simp add: db_inv_def)
qed

lemma submit_inv:
  assumes inv: "db_inv now d" and clk: "during now now' clk"
  shows "db_inv now' (snd (submit_batch sha (clk 0) label js key m policy d))"
proof -
  have keep: "db_inv now' d" and bump: "db_inv now' (d\<lparr>next_batch_id := next_batch_id d + 1\<rparr>)"
    using db_inv_mono [OF _ duringD(1) [OF clk]] inv bump_batch_id_inv [OF inv] by auto
  have "db_inv now' (d\<lparr>next_batch_id := next_batch_id d + 1,
           batches := batches d @ [\<lparr>b_id = next_batch_id d, b_idempotency_key = key,
             b_request_digest = dig, b_label = label, b_created_at = clk 0\<rparr>],
           jobs := jobs d @ new_rows sha (clk 0) (next_batch_id d) m policy (next_job_id d) js,
           next_job_id := next_job_id d + int (length js)\<rparr>)"
    if "\<not> m < 1" "key = None \<or> find (\<lambda>b. b_idempotency_key b = key) (batches d) = None" for dig
    using that by (intro insert_batch_inv [OF keep]) (auto simp: find_None_all)
  with keep bump show ?thesis
    by (auto simp: submit_batch_def Let_def split: option.splits)
qed

section \<open>Reachable databases\<close>

theorem fleet_step_inv: "fleet_inv s \<Longrightarrow> fleet_step sha s t \<Longrightarrow> fleet_inv t"
  by (cases rule: fleet_step.cases, assumption)
     (auto intro: db_inv_mono submit_inv claim_inv start_inv heartbeat_inv cancel_inv
       finish_cancelled_inv publish_inv release_inv reap_inv record_execution_inv)

interpretation store_runs: invariant_system fleet_init "fleet_step sha" fleet_inv for sha
proof unfold_locales
  fix s assume "fleet_init s"
  then show "fleet_inv s" by (cases s) (simp add: empty_db_inv)
qed (rule fleet_step_inv)

lemma reachable_inv: "fleet_reachable sha (now, d) \<Longrightarrow> db_inv now d"
  using store_runs.inv_reach by fastforce

end
