(* ===== verification/Fleet_Demo.thy ===== *)
theory Fleet_Demo
  imports Fleet_Runs
begin

text \<open>
  One run of the fleet, used to exercise the theorems on concrete databases. Two jobs are submitted
  with two attempts each. The first is claimed by a worker that dies, is reaped when its lease runs
  out, claimed again after its backoff, started and published. The second is claimed, cancelled
  while it is leased and ended by its worker.
\<close>

definition demo_sha :: "json \<Rightarrow> string" where
  "demo_sha v = ''digest''"

definition demo_job :: "string \<Rightarrow> new_job" where
  "demo_job name = \<lparr>n_name = name, n_payload = JObj [(''task'', JStr name)]\<rparr>"

definition demo_submitted :: db where
  "demo_submitted = snd (submit_batch demo_sha 0 ''demo'' [demo_job ''a'', demo_job ''b''] (Some ''k'') 2
     DEFAULT_POLICY empty_db)"

definition demo_claimed :: db where
  "demo_claimed = snd (claim {} (\<lambda>_. 10) (\<lambda>_. 10) ''w1'' 30 demo_submitted)"

definition demo_reaped :: db where
  "demo_reaped = snd (reap {} (\<lambda>_. 40000000) DEFAULT_RETRY demo_claimed)"

definition demo_leased :: db where
  "demo_leased = snd (start (\<lambda>_. 50000001) 1 2 (snd (claim {} (\<lambda>_. 50000000) (\<lambda>_. 50000000) ''w2'' 30 demo_reaped)))"

definition demo_published :: db where
  "demo_published = snd (publish (\<lambda>_. 50000002) 1 2 ''w2'' Outcome_succeeded (JObj []) demo_leased)"

definition demo_cancelling :: db where
  "demo_cancelling = snd (cancel (\<lambda>_. 50000004) 2
     (snd (claim {} (\<lambda>_. 50000003) (\<lambda>_. 50000003) ''w1'' 30 demo_published)))"

definition demo_done :: db where
  "demo_done = snd (finish_cancelled (\<lambda>_. 50000005) 2 1 demo_cancelling)"

lemma during_const: "now \<le> t \<Longrightarrow> during now t (\<lambda>_. t)"
  by (simp add: during_def)

lemma demo_submitted_reachable: "fleet_reachable demo_sha (0, demo_submitted)"
  unfolding demo_submitted_def
  by (rule reach_step [where s = "(0, empty_db)"], rule reach_init, simp,
      rule step_submit [OF during_const, where now = 0], simp)

lemma demo_claimed_reachable: "fleet_reachable demo_sha (10, demo_claimed)"
  unfolding demo_claimed_def
  by (rule reach_step [OF demo_submitted_reachable step_claim [OF during_const]]) simp

lemma demo_reaped_reachable: "fleet_reachable demo_sha (40000000, demo_reaped)"
  unfolding demo_reaped_def
  by (rule reach_step [OF demo_claimed_reachable step_reap [OF during_const]]) simp

lemma demo_leased_reachable: "fleet_reachable demo_sha (50000001, demo_leased)"
  unfolding demo_leased_def
  by (rule reach_step [OF reach_step [OF demo_reaped_reachable step_claim [OF during_const]]
        step_start [OF during_const]]) simp_all

lemma demo_published_reachable: "fleet_reachable demo_sha (50000002, demo_published)"
  unfolding demo_published_def
  by (rule reach_step [OF demo_leased_reachable step_publish [OF during_const]], simp, code_simp)

lemma demo_cancelling_reachable: "fleet_reachable demo_sha (50000004, demo_cancelling)"
  unfolding demo_cancelling_def
  by (rule reach_step [OF reach_step [OF demo_published_reachable step_claim [OF during_const]]
        step_cancel [OF during_const]]) simp_all

lemma demo_done_reachable: "fleet_reachable demo_sha (50000005, demo_done)"
  unfolding demo_done_def
  by (rule reach_step [OF demo_cancelling_reachable step_finish_cancelled [OF during_const]]) simp

end
