(* ===== verification/Fleet_Checker.thy ===== *)
theory Fleet_Checker
  imports Fleet_Demo
begin

text \<open>
  The invariant checker, \<^verbatim>\<open>fleet/invariants.py\<close>: it reads a drained run back from the database and
  lists every broken invariant. A violation's text is kept as data (\<open>detail\<close>, one constructor per
  message). The rows of a snapshot come in no particular order, so the theorems are about every
  snapshot that holds the right rows (\<open>is_snapshot\<close>).
\<close>

section \<open>Rows and violations\<close>

datatype invariant = One_result | Nothing_lost | No_stale_write | Accounting

definition RESULT_STATES :: "job_state list" where
  "RESULT_STATES = [Succeeded, Failed, Escalated]"

definition FINAL_STATES :: "job_state list" where
  "FINAL_STATES = RESULT_STATES @ [Dead_lettered, Cancelled]"

definition RETRY_ENDINGS :: "ending list" where
  "RETRY_ENDINGS = [Lease_expired, Released]"

definition LIVE_ENDINGS :: "ending list" where
  "LIVE_ENDINGS = [Released, Ended_cancelled]"

record chk_job =
  cj_id :: int
  cj_state :: job_state
  cj_attempt :: int
  cj_max_attempts :: int
  cj_result_id :: "int option"
  cj_cancel_requested_at :: "time option"

record chk_attempt =
  ca_job_id :: int
  ca_attempt :: int
  ca_worker_id :: string
  ca_claimed_at :: time
  ca_lease_expires_at :: time
  ca_ended_at :: "time option"
  ca_ended_by :: "ending option"

record chk_result =
  cr_id :: int
  cr_job_id :: int
  cr_attempt :: int
  cr_worker_id :: string
  cr_published_at :: time
  cr_outcome :: outcome
  cr_result_key :: "string option"

record snapshot =
  sn_jobs :: "chk_job list"
  sn_attempts :: "chk_attempt list"
  sn_results :: "chk_result list"

datatype detail =
    Not_in_store
  | Left_in job_state
  | Has_result job_state
  | Result_count job_state nat
  | Points_at "int option" int
  | Result_says job_state outcome
  | By_old_attempt int int
  | By_unrecorded int
  | By_other_worker string string
  | After_lease int
  | Not_own_publish int
  | After_cancel
  | Claimed_while_held int int
  | Attempt_log "int list" int
  | Over_budget int int
  | Never_ended int
  | Reaped_early int
  | Ended_late int "ending option"
  | Ran_again int "ending option"
  | Last_ended job_state "ending option"
  | Dead_lettered_after int int
  | Dead_lettered_last "ending option"
  | Dead_lettered_cancelled
  | Cancelled_unrequested
  | Cancelled_last "ending option"
  | Carries_key "string option" "string option"
  | Key_published string nat
  | Totals nat nat

record violation =
  v_invariant :: invariant
  v_job_id :: "int option"
  v_detail :: detail

definition Violation :: "invariant \<Rightarrow> int option \<Rightarrow> detail \<Rightarrow> violation" where
  "Violation i j t = \<lparr>v_invariant = i, v_job_id = j, v_detail = t\<rparr>"

section \<open>The checks\<close>

definition nothing_lost :: "(int \<times> chk_job) list \<Rightarrow> int list \<Rightarrow> violation list" where
  "nothing_lost js submitted =
     [Violation Nothing_lost (Some i) Not_in_store. i \<leftarrow> submitted, i \<notin> set (dict_keys js)]
     @ [Violation Nothing_lost (Some (cj_id j)) (Left_in (cj_state j)).
          j \<leftarrow> map snd js, cj_state j \<notin> set FINAL_STATES]"

definition one_result :: "chk_job \<Rightarrow> chk_result list \<Rightarrow> violation list" where
  "one_result job rs =
     map (Violation One_result (Some (cj_id job)))
       (if cj_state job \<notin> set RESULT_STATES then (if rs \<noteq> [] then [Has_result (cj_state job)] else [])
        else (case rs of
                [r] \<Rightarrow>
                  if Some (cr_id r) \<noteq> cj_result_id job then [Points_at (cj_result_id job) (cr_id r)]
                  else if outcome_state (cr_outcome r) \<noteq> cj_state job
                  then [Result_says (cj_state job) (cr_outcome r)] else []
              | _ \<Rightarrow> [Result_count (cj_state job) (length rs)]))"

definition stale_result :: "chk_job \<Rightarrow> chk_attempt list \<Rightarrow> chk_result \<Rightarrow> detail list" where
  "stale_result job l r =
     (if cr_attempt r \<noteq> cj_attempt job then [By_old_attempt (cr_attempt r) (cj_attempt job)] else [])
     @ (case dict_get (dict_of (map (\<lambda>a. (ca_attempt a, a)) l)) (cr_attempt r) of
          None \<Rightarrow> [By_unrecorded (cr_attempt r)]
        | Some owner \<Rightarrow>
            (if cr_worker_id r \<noteq> ca_worker_id owner
             then [By_other_worker (cr_worker_id r) (ca_worker_id owner)] else [])
            @ (if cr_published_at r \<ge> ca_lease_expires_at owner then [After_lease (ca_attempt owner)]
               else [])
            @ (if (ca_ended_by owner, ca_ended_at owner) \<noteq> (Some Published, Some (cr_published_at r))
               then [Not_own_publish (ca_attempt owner)] else [])
            @ (case cj_cancel_requested_at job of
                 None \<Rightarrow> []
               | Some t \<Rightarrow> if cr_published_at r \<ge> t then [After_cancel] else []))"

fun pairwise :: "'a list \<Rightarrow> ('a \<times> 'a) list" where
  "pairwise (x # y # xs) = (x, y) # pairwise (y # xs)"
| "pairwise _ = []"

definition overlaps :: "chk_attempt \<Rightarrow> chk_attempt \<Rightarrow> bool" where
  "overlaps earlier later \<longleftrightarrow>
     (case ca_ended_at earlier of None \<Rightarrow> True | Some e \<Rightarrow> ca_claimed_at later < e)"

definition no_stale_write :: "chk_job \<Rightarrow> chk_attempt list \<Rightarrow> chk_result list \<Rightarrow> violation list" where
  "no_stale_write job l rs =
     map (Violation No_stale_write (Some (cj_id job)))
       (concat (map (stale_result job l) rs)
        @ [Claimed_while_held (ca_attempt later) (ca_attempt earlier).
             (earlier, later) \<leftarrow> pairwise l, overlaps earlier later])"

definition attempt_ending :: "chk_attempt \<Rightarrow> detail list" where
  "attempt_ending a =
     (case ca_ended_at a of
        None \<Rightarrow> [Never_ended (ca_attempt a)]
      | Some e \<Rightarrow>
          if ca_ended_by a = Some Lease_expired \<and> e < ca_lease_expires_at a then [Reaped_early (ca_attempt a)]
          else if ca_ended_by a \<in> Some ` set LIVE_ENDINGS \<and> e \<ge> ca_lease_expires_at a
          then [Ended_late (ca_attempt a) (ca_ended_by a)] else [])"

definition last_ending :: "chk_attempt list \<Rightarrow> ending option" where
  "last_ending l = (if l = [] then None else ca_ended_by (last l))"

definition retry_ending :: "ending option \<Rightarrow> bool" where
  "retry_ending e \<longleftrightarrow> e \<in> Some ` set RETRY_ENDINGS"

definition accounting :: "chk_job \<Rightarrow> chk_attempt list \<Rightarrow> violation list" where
  "accounting job l =
     (let numbers = map ca_attempt l; last_end = last_ending l
      in map (Violation Accounting (Some (cj_id job)))
        ((if numbers \<noteq> [1..cj_attempt job] then [Attempt_log numbers (cj_attempt job)] else [])
         @ (if cj_attempt job > cj_max_attempts job
            then [Over_budget (cj_attempt job) (cj_max_attempts job)] else [])
         @ concat (map attempt_ending l)
         @ [Ran_again (ca_attempt a) (ca_ended_by a). a \<leftarrow> butlast l, \<not> retry_ending (ca_ended_by a)]
         @ (if cj_state job \<in> set RESULT_STATES \<and> last_end \<noteq> Some Published
            then [Last_ended (cj_state job) last_end] else [])
         @ (if cj_state job = Dead_lettered then
              (if cj_attempt job < cj_max_attempts job
               then [Dead_lettered_after (cj_attempt job) (cj_max_attempts job)] else [])
              @ (if \<not> retry_ending last_end then [Dead_lettered_last last_end] else [])
              @ (if cj_cancel_requested_at job \<noteq> None then [Dead_lettered_cancelled] else [])
            else [])
         @ (if cj_state job = Cancelled then
              (if cj_cancel_requested_at job = None then [Cancelled_unrequested] else [])
              @ (if l \<noteq> [] \<and> \<not> retry_ending last_end \<and> last_end \<noteq> Some Ended_cancelled
                 then [Cancelled_last last_end] else [])
            else if last_end = Some Ended_cancelled then [Last_ended (cj_state job) last_end] else [])))"

definition result_keys :: "chk_result list \<Rightarrow> (int \<Rightarrow> string option) \<Rightarrow> violation list" where
  "result_keys rs keys =
     [Violation One_result (Some (cr_job_id r)) (Carries_key (cr_result_key r) (keys (cr_job_id r))).
        r \<leftarrow> rs, cr_result_key r \<noteq> keys (cr_job_id r)]
     @ (let published = [k. r \<leftarrow> rs, Some k \<leftarrow> [cr_result_key r]]
        in [Violation One_result None (Key_published k (count_list published k)).
              k \<leftarrow> sort (remdups published), count_list published k > 1])"

definition totals :: "(int \<times> chk_job) list \<Rightarrow> int list \<Rightarrow> violation list" where
  "totals js submitted =
     (let final = length (filter (\<lambda>j. cj_state j \<in> set FINAL_STATES) (map snd js))
      in if final = length submitted \<and> length submitted = length js then []
         else [Violation Accounting None (Totals (length submitted) final)])"

definition check_job :: "snapshot \<Rightarrow> chk_job \<Rightarrow> violation list" where
  "check_job run job =
     (let l = filter (\<lambda>a. ca_job_id a = cj_id job) (sort_key ca_attempt (sn_attempts run));
          rs = filter (\<lambda>r. cr_job_id r = cj_id job) (sn_results run)
      in one_result job rs @ no_stale_write job l rs @ accounting job l)"

definition check :: "snapshot \<Rightarrow> int list \<Rightarrow> (int \<Rightarrow> string option) option \<Rightarrow> violation list" where
  "check run submitted keys =
     (let js = dict_of (map (\<lambda>j. (cj_id j, j)) (sn_jobs run))
      in nothing_lost js submitted
         @ concat (map (check_job run) (map snd js))
         @ totals js submitted
         @ (case keys of None \<Rightarrow> [] | Some k \<Rightarrow> result_keys (sn_results run) k))"

section \<open>Reading the run back\<close>

definition chk_job_of :: "job_row \<Rightarrow> chk_job" where
  "chk_job_of j = \<lparr>cj_id = j_id j, cj_state = j_state j, cj_attempt = j_attempt j,
                   cj_max_attempts = j_max_attempts j, cj_result_id = j_result_id j,
                   cj_cancel_requested_at = j_cancel_requested_at j\<rparr>"

definition chk_attempt_of :: "attempt_row \<Rightarrow> chk_attempt" where
  "chk_attempt_of a = \<lparr>ca_job_id = a_job_id a, ca_attempt = a_attempt a, ca_worker_id = a_worker_id a,
                       ca_claimed_at = a_claimed_at a, ca_lease_expires_at = a_lease_expires_at a,
                       ca_ended_at = a_ended_at a, ca_ended_by = a_ended_by a\<rparr>"

text \<open>\<^verbatim>\<open>body->>'result_key'\<close>, for the string or null a keyed job's result holds there.\<close>

definition body_key :: "json \<Rightarrow> string option" where
  "body_key body = (case obj_get body ''result_key'' of Some (JStr k) \<Rightarrow> Some k | _ \<Rightarrow> None)"

definition chk_result_of :: "result_row \<Rightarrow> chk_result" where
  "chk_result_of r = \<lparr>cr_id = r_id r, cr_job_id = r_job_id r, cr_attempt = r_attempt r,
                      cr_worker_id = r_worker_id r, cr_published_at = r_published_at r,
                      cr_outcome = r_outcome r, cr_result_key = body_key (r_body r)\<rparr>"

definition snapshot_of :: "int list \<Rightarrow> db \<Rightarrow> snapshot" where
  "snapshot_of ids d =
     \<lparr>sn_jobs = map chk_job_of (filter (\<lambda>j. j_id j \<in> set ids) (jobs d)),
      sn_attempts = map chk_attempt_of (filter (\<lambda>a. a_job_id a \<in> set ids) (attempts d)),
      sn_results = map chk_result_of (filter (\<lambda>r. r_job_id r \<in> set ids) (results d))\<rparr>"

definition is_snapshot :: "int list \<Rightarrow> db \<Rightarrow> snapshot \<Rightarrow> bool" where
  "is_snapshot ids d run \<longleftrightarrow>
     mset (sn_jobs run) = mset (sn_jobs (snapshot_of ids d))
     \<and> mset (sn_attempts run) = mset (sn_attempts (snapshot_of ids d))
     \<and> mset (sn_results run) = mset (sn_results (snapshot_of ids d))"

lemmas chk_simps = chk_job_of_def chk_attempt_of_def chk_result_of_def
lemmas chk_states = RESULT_STATES_def FINAL_STATES_def RETRY_ENDINGS_def LIVE_ENDINGS_def

lemma is_snapshot_refl: "is_snapshot ids d (snapshot_of ids d)"
  by (simp add: is_snapshot_def)

section \<open>A drained run passes every check\<close>

lemma pairwise_successively:
  "successively P l \<Longrightarrow> (a, b) \<in> set (pairwise l) \<Longrightarrow> P a b"
  by (induction l rule: pairwise.induct) auto

lemma pairwise_map: "pairwise (map f l) = map (map_prod f f) (pairwise l)"
  by (induction l rule: pairwise.induct) auto

lemma final_state_cases:
  assumes "s \<in> set FINAL_STATES"
  obtains (result) "s \<in> set result_states" | (dead) "s = Dead_lettered" | (cancelled) "s = Cancelled"
  using assms by (auto simp: chk_states result_states_def)

text \<open>Every attempt of a job in a final state has ended.\<close>

lemma final_log_ended:
  assumes ok: "job_ok now l rs j" and f: "j_state j \<in> set FINAL_STATES" and a: "a \<in> set l"
  shows "\<exists>e b. a_ended_at a = Some e \<and> a_ended_by a = Some b"
proof -
  have row: "row_ok now a" using ok a by (auto simp: job_ok_def log_ok_def list_all_iff)
  have "a_ended_by a \<noteq> None"
  proof (cases "a \<in> set (butlast l)")
    case True
    then have "retried a" using ok by (auto simp: job_ok_def log_ok_def list_all_iff)
    then show ?thesis by (auto simp: retried_def)
  next
    case False
    then have a: "a = last l" using a by (metis append_butlast_last_id empty_iff
          list.set(1) rotate1.simps(2) set_ConsD set_rotate1)
    have "l \<noteq> []" using assms(3) by auto
    with f ok show ?thesis unfolding a
      by (cases rule: final_state_cases)
         (auto simp: job_ok_def state_ok_def result_ok_def state_list_defs retried_def list_all_iff
           split: list.splits)
  qed
  with row show ?thesis by (auto simp: row_ok_def split: option.splits)
qed

lemma one_result_ok:
  assumes "job_ok now l rs j" and "j_state j \<in> set FINAL_STATES"
  shows "one_result (chk_job_of j) (map chk_result_of rs) = []"
  using assms(2,1)
  by (cases rule: final_state_cases)
     (auto simp: one_result_def job_ok_def state_ok_def result_ok_def chk_simps chk_states
       state_list_defs split: list.splits)

lemma accounting_Nil_iff:
  "accounting job l = [] \<longleftrightarrow>
     map ca_attempt l = [1..cj_attempt job] \<and> cj_attempt job \<le> cj_max_attempts job
     \<and> (\<forall>a \<in> set l. attempt_ending a = [])
     \<and> (\<forall>a \<in> set (butlast l). retry_ending (ca_ended_by a))
     \<and> (cj_state job \<in> set RESULT_STATES \<longrightarrow> last_ending l = Some Published)
     \<and> (cj_state job = Dead_lettered \<longrightarrow>
          cj_max_attempts job \<le> cj_attempt job \<and> retry_ending (last_ending l)
          \<and> cj_cancel_requested_at job = None)
     \<and> (cj_state job = Cancelled \<longrightarrow>
          cj_cancel_requested_at job \<noteq> None
          \<and> (l = [] \<or> retry_ending (last_ending l) \<or> last_ending l = Some Ended_cancelled))
     \<and> (last_ending l = Some Ended_cancelled \<longrightarrow> cj_state job = Cancelled)"
  by (simp add: accounting_def Let_def filter_empty_conv not_less) blast

lemma result_states_eq: "set RESULT_STATES = set result_states"
  by (auto simp: chk_states result_states_def)

lemma accounting_ok:
  assumes ok: "job_ok now l rs j" and f: "j_state j \<in> set FINAL_STATES"
  shows "accounting (chk_job_of j) (map chk_attempt_of l) = []"
proof -
  let ?stop = "if l = [] then None else a_ended_by (last l)"
  have st: "state_ok l rs j" and jc: "job_checks j" and lo: "log_ok now l"
    and nums: "map a_attempt l = [1..j_attempt j]"
    using ok by (auto simp: job_ok_def)
  have "attempt_ending (chk_attempt_of a) = []" if "a \<in> set l" for a
    using that final_log_ended [OF ok f that] lo
    by (auto simp: attempt_ending_def chk_simps chk_states log_ok_def list_all_iff row_ok_def
        split: if_splits)
  moreover have retried: "retry_ending (a_ended_by a)" if "retried a" for a
    using that by (auto simp: retried_def retry_ending_def chk_states)
  moreover have "\<forall>a \<in> set (butlast l). retried a"
    using lo by (simp add: log_ok_def list_all_iff)
  moreover have last: "last_ending (map chk_attempt_of l) = ?stop"
    by (simp add: last_ending_def last_map chk_simps)
  moreover have "j_attempt j \<le> j_max_attempts j" using jc by (simp add: job_checks_def)
  moreover have "j_state j \<in> set result_states \<longrightarrow> ?stop = Some Published"
    using st by (auto simp: state_ok_def result_ok_def state_list_defs split: list.splits)
  moreover have "j_state j = Dead_lettered \<longrightarrow>
      j_max_attempts j \<le> j_attempt j \<and> retry_ending ?stop \<and> j_cancel_requested_at j = None"
    using st retried [of "last l"] by (auto simp: state_ok_def state_list_defs list_all_iff)
  moreover have "j_state j = Cancelled \<longrightarrow>
      j_cancel_requested_at j \<noteq> None \<and> (l = [] \<or> retry_ending ?stop \<or> ?stop = Some Ended_cancelled)"
    using st retried [of "last l"] by (auto simp: state_ok_def state_list_defs)
  moreover have "?stop = Some Ended_cancelled \<longrightarrow> j_state j = Cancelled"
    using f
  proof (cases rule: final_state_cases)
    case result
    then show ?thesis
      using st by (auto simp: state_ok_def result_ok_def state_list_defs split: list.splits)
  next
    case dead
    then have "retried (last l)" using st by (auto simp: state_ok_def state_list_defs list_all_iff)
    then show ?thesis by (auto simp: retried_def)
  qed simp
  ultimately show ?thesis
    using nums unfolding accounting_Nil_iff last
    by (simp add: chk_simps comp_def map_butlast [symmetric] result_states_eq)
qed

lemma dict_get_last:
  assumes "distinct (map f l)" and "a \<in> set l"
  shows "dict_get (dict_of (map (\<lambda>a. (f a, a)) l)) (f a) = Some a"
proof -
  have "dict_of (map (\<lambda>a. (f a, a)) l) = map (\<lambda>a. (f a, a)) l"
    using assms(1) by (intro dict_of_distinct) (simp add: comp_def)
  with assms show ?thesis by (auto intro!: dict_get_distinct simp: comp_def)
qed

lemma stale_result_ok:
  assumes ok: "job_ok now l [r] j" and f: "j_state j \<in> set FINAL_STATES"
  shows "stale_result (chk_job_of j) (map chk_attempt_of l) (chk_result_of r) = []"
proof -
  have st: "l \<noteq> []" "j_cancel_requested_at j = None" "result_ok l [r] j"
    using ok f by (auto simp: job_ok_def state_ok_def chk_states state_list_defs)
  have nums: "map a_attempt l = [1..j_attempt j]" using ok by (simp add: job_ok_def)
  note cur = log_last [OF nums st(1)]
  have "row_ok now (last l)" using ok st(1) by (auto simp: job_ok_def log_ok_def list_all_iff)
  then have "r_published_at r < a_lease_expires_at (last l)"
    using st(3) by (auto simp: row_ok_def result_ok_def)
  moreover have "dict_get (dict_of (map (\<lambda>a. (ca_attempt a, a)) (map chk_attempt_of l)))
      (ca_attempt (chk_attempt_of (last l))) = Some (chk_attempt_of (last l))"
    using st(1) cur(2) by (intro dict_get_last) (auto simp: chk_simps comp_def)
  ultimately show ?thesis
    using st cur(1) by (simp add: stale_result_def result_ok_def chk_simps)
qed

lemma no_stale_write_ok:
  assumes ok: "job_ok now l rs j" and f: "j_state j \<in> set FINAL_STATES"
  shows "no_stale_write (chk_job_of j) (map chk_attempt_of l) (map chk_result_of rs) = []"
proof -
  have "rs = [] \<or> (\<exists>r. rs = [r])"
    using ok f by (auto simp: job_ok_def state_ok_def result_ok_def chk_states state_list_defs
        split: list.splits)
  then have "\<forall>r \<in> set rs. stale_result (chk_job_of j) (map chk_attempt_of l) (chk_result_of r) = []"
    using stale_result_ok ok f by auto
  moreover have "\<not> overlaps (chk_attempt_of a) (chk_attempt_of b)" if "(a, b) \<in> set (pairwise l)" for a b
    using ok pairwise_successively [OF _ that, of handed_over]
    by (auto simp: job_ok_def log_ok_def handed_over_def overlaps_def chk_simps split: option.splits)
  ultimately show ?thesis
    by (auto simp: no_stale_write_def pairwise_map concat_eq_Nil_conv filter_empty_conv)
qed

section \<open>Every snapshot of a drained run passes\<close>

lemma filter_map_chk:
  "filter (\<lambda>a. ca_job_id a = i) (map chk_attempt_of as) = map chk_attempt_of (filter (\<lambda>a. a_job_id a = i) as)"
  "filter (\<lambda>r. cr_job_id r = i) (map chk_result_of rs) = map chk_result_of (filter (\<lambda>r. r_job_id r = i) rs)"
  by (simp_all add: filter_map comp_def chk_simps)

lemma filter_ids:
  "i \<in> set ids \<Longrightarrow> filter (\<lambda>a. f a = i) (filter (\<lambda>a. f a \<in> set ids) xs) = filter (\<lambda>a. f a = i) xs"
  by (induction xs) auto

text \<open>The attempts of a job, sorted by number, are its log.\<close>

lemma snapshot_log:
  assumes "is_snapshot ids d run" and "j_id j \<in> set ids" and "job_inv now d j"
  shows "filter (\<lambda>a. ca_job_id a = j_id j) (sort_key ca_attempt (sn_attempts run)) =
         map chk_attempt_of (log_of (j_id j) d)"
proof -
  let ?m = "filter (\<lambda>a. ca_job_id a = j_id j)" and ?l = "map chk_attempt_of (log_of (j_id j) d)"
  have nums: "map ca_attempt ?l = [1..j_attempt j]"
    using assms(3) by (simp add: job_ok_def comp_def chk_simps)
  have "mset (?m (sn_attempts run)) = mset (?m (sn_attempts (snapshot_of ids d)))"
    using assms(1) by (simp add: is_snapshot_def)
  also have "?m (sn_attempts (snapshot_of ids d)) = ?l"
    by (simp add: snapshot_of_def filter_map_chk log_of_def assms(2) filter_ids del: filter_filter)
  finally have m: "mset ?l = mset (?m (sn_attempts run))" by (rule sym)
  have "sort_key ca_attempt (?m (sn_attempts run)) = sort_key ca_attempt ?l"
    by (rule sort_key_mset_unique [OF m, symmetric]) (simp only: nums, simp)
  also have "\<dots> = ?l" by (rule sort_key_sorted_id) (simp only: nums, simp)
  finally show ?thesis by (simp add: filter_sort)
qed

text \<open>A job has at most one result, so its results come in one order only.\<close>

lemma snapshot_results:
  assumes "is_snapshot ids d run" and "j_id j \<in> set ids" and "length (results_of (j_id j) d) \<le> 1"
  shows "filter (\<lambda>r. cr_job_id r = j_id j) (sn_results run) = map chk_result_of (results_of (j_id j) d)"
proof -
  have "mset (filter (\<lambda>r. cr_job_id r = j_id j) (sn_results run)) =
        mset (filter (\<lambda>r. cr_job_id r = j_id j) (sn_results (snapshot_of ids d)))"
    using assms(1) by (simp add: is_snapshot_def)
  also have "filter (\<lambda>r. cr_job_id r = j_id j) (sn_results (snapshot_of ids d)) =
      map chk_result_of (results_of (j_id j) d)"
    by (simp add: snapshot_of_def filter_map_chk results_of_def assms(2) filter_ids del: filter_filter)
  finally show ?thesis
    using assms(3) by (cases "results_of (j_id j) d") (auto simp flip: mset_filter)
qed

lemma one_result_at_most: "job_ok now l rs j \<Longrightarrow> length rs \<le> 1"
  by (auto simp: job_ok_def state_ok_def result_ok_def split: if_splits list.splits)

lemma check_job_ok:
  assumes "is_snapshot ids d run" and "j_id j \<in> set ids" and "job_inv now d j"
    and "j_state j \<in> set FINAL_STATES"
  shows "check_job run (chk_job_of j) = []"
proof -
  have i: "cj_id (chk_job_of j) = j_id j" by (simp add: chk_simps)
  show ?thesis
    unfolding check_job_def Let_def i snapshot_log [OF assms(1-3)]
      snapshot_results [OF assms(1,2) one_result_at_most [OF assms(3)]]
    using one_result_ok [OF assms(3,4)] no_stale_write_ok [OF assms(3,4)]
      accounting_ok [OF assms(3,4)] by simp
qed

lemma snapshot_jobs:
  assumes run: "is_snapshot ids d run" and inv: "tables_ok d"
  shows "set (sn_jobs run) = chk_job_of ` {j \<in> set (jobs d). j_id j \<in> set ids}"
    and "distinct (map cj_id (sn_jobs run))"
proof -
  have m: "mset (sn_jobs run) = mset (map chk_job_of (filter (\<lambda>j. j_id j \<in> set ids) (jobs d)))"
    using run by (simp add: is_snapshot_def snapshot_of_def)
  then have "set (sn_jobs run) = set (map chk_job_of (filter (\<lambda>j. j_id j \<in> set ids) (jobs d)))"
    by (rule mset_eq_setD)
  then show "set (sn_jobs run) = chk_job_of ` {j \<in> set (jobs d). j_id j \<in> set ids}" by auto
  have "mset (map cj_id (sn_jobs run)) = mset (map j_id (filter (\<lambda>j. j_id j \<in> set ids) (jobs d)))"
    using m by (simp add: image_mset.compositionality comp_def chk_simps)
  moreover have "distinct (map j_id (filter (\<lambda>j. j_id j \<in> set ids) (jobs d)))"
    using inv by (auto simp: tables_ok_def intro: distinct_map_filter)
  ultimately show "distinct (map cj_id (sn_jobs run))" using mset_eq_imp_distinct_iff by blast
qed

lemma drained_check_clean:
  assumes inv: "db_inv now d"
    and sub: "distinct submitted" "set submitted \<subseteq> j_id ` set (jobs d)"
    and fin: "\<forall>j \<in> set (jobs d). j_id j \<in> set submitted \<longrightarrow> j_state j \<in> set FINAL_STATES"
    and run: "is_snapshot submitted d run"
  shows "check run submitted None = []"
proof -
  let ?js = "map (\<lambda>j. (cj_id j, j)) (sn_jobs run)"
  note snap = snapshot_jobs [OF run inv_tables [OF inv]]
  have js: "dict_of ?js = ?js"
    using snap(2) by (intro dict_of_distinct) (simp add: comp_def)
  have ids: "set (map cj_id (sn_jobs run)) = set submitted"
  proof -
    have "set (map cj_id (sn_jobs run)) = j_id ` {j \<in> set (jobs d). j_id j \<in> set submitted}"
      by (simp add: snap(1) image_image chk_simps)
    then show ?thesis using sub(2) by auto
  qed
  have final: "cj_state c \<in> set FINAL_STATES" if "c \<in> set (sn_jobs run)" for c
    using that snap(1) fin by (auto simp: chk_simps)
  have "nothing_lost ?js submitted = []"
    using ids final by (auto simp: nothing_lost_def comp_def filter_empty_conv)
  moreover have "check_job run c = []" if "c \<in> set (sn_jobs run)" for c
    using that snap(1) fin check_job_ok [OF run _ inv_job [OF inv]] by auto
  moreover have "totals ?js submitted = []"
    using final distinct_card [OF snap(2)] distinct_card [OF sub(1)] ids
    by (simp add: totals_def Let_def comp_def filter_id_conv [THEN iffD2])
  ultimately show ?thesis by (auto simp: check_def js comp_def)
qed

text \<open>
  C1. Whatever the interleaving of submissions, claims, crashes, reaps, retries and cancellations,
  once every submitted job is in a final state the checker finds no violation in what the database
  holds, in whatever order the rows come back.
\<close>

theorem drained_run_passes:
  assumes reach: "fleet_reachable sha (now, d)"
    and sub: "distinct submitted" "set submitted \<subseteq> j_id ` set (jobs d)"
    and fin: "\<forall>j \<in> set (jobs d). j_id j \<in> set submitted \<longrightarrow> j_state j \<in> set FINAL_STATES"
    and run: "is_snapshot submitted d run"
  shows "check run submitted None = []"
  by (rule drained_check_clean [OF reachable_inv [OF reach] sub fin run])

theorem drained_run_passes_witness:
  "jobs demo_done \<noteq> [] \<and> check (snapshot_of [1, 2] demo_done) [1, 2] None = []"
proof
  have "set [1, 2] \<subseteq> j_id ` set (jobs demo_done)"
    and "\<forall>j \<in> set (jobs demo_done). j_id j \<in> set [1, 2] \<longrightarrow> j_state j \<in> set FINAL_STATES"
    by code_simp+
  then show "check (snapshot_of [1, 2] demo_done) [1, 2] None = []"
    by (intro drained_run_passes [OF demo_done_reachable]) (simp_all add: is_snapshot_refl)
qed code_simp

section \<open>What a clean report promises\<close>

lemma one_result_Nil_iff:
  "one_result job rs = [] \<longleftrightarrow>
     (if cj_state job \<in> set RESULT_STATES
      then \<exists>r. rs = [r] \<and> cj_result_id job = Some (cr_id r) \<and> outcome_state (cr_outcome r) = cj_state job
      else rs = [])"
  by (auto simp: one_result_def split: list.splits if_splits)

lemma stale_result_Nil:
  assumes "stale_result job l r = []"
  shows "cr_attempt r = cj_attempt job \<and>
    (\<exists>a \<in> set l. ca_attempt a = cj_attempt job \<and> ca_worker_id a = cr_worker_id r
       \<and> cr_published_at r < ca_lease_expires_at a \<and> ca_ended_by a = Some Published
       \<and> ca_ended_at a = Some (cr_published_at r))
    \<and> (\<forall>t. cj_cancel_requested_at job = Some t \<longrightarrow> cr_published_at r < t)"
proof -
  obtain a where a: "dict_get (dict_of (map (\<lambda>a. (ca_attempt a, a)) l)) (cr_attempt r) = Some a"
    using assms by (auto simp: stale_result_def split: option.splits if_splits)
  have "(k, v) \<in> set (dict_of kvs) \<Longrightarrow> (k, v) \<in> set kvs" for k and v :: chk_attempt and kvs :: "(int \<times> chk_attempt) list"
    by (rule set_dict_of)
  then have "a \<in> set l \<and> ca_attempt a = cr_attempt r" using dict_get_mem [OF a] by force
  then show ?thesis
    using assms a by (auto simp: stale_result_def not_le split: option.splits if_splits)
qed

lemma guarded_Nil: "[f x. x \<leftarrow> xs, P x] = [] \<longleftrightarrow> (\<forall>x \<in> set xs. \<not> P x)"
  by (induction xs) auto

lemma nothing_lost_Nil_iff:
  "nothing_lost js submitted = [] \<longleftrightarrow>
     set submitted \<subseteq> fst ` set js \<and> (\<forall>j \<in> snd ` set js. cj_state j \<in> set FINAL_STATES)"
  unfolding nothing_lost_def append_is_Nil_conv guarded_Nil by auto

definition clean_job :: "snapshot \<Rightarrow> chk_job \<Rightarrow> bool" where
  "clean_job run job \<longleftrightarrow>
     (let l = filter (\<lambda>a. ca_job_id a = cj_id job) (sort_key ca_attempt (sn_attempts run));
          rs = filter (\<lambda>r. cr_job_id r = cj_id job) (sn_results run)
      in cj_state job \<in> set FINAL_STATES
         \<and> map ca_attempt l = [1..cj_attempt job] \<and> cj_attempt job \<le> cj_max_attempts job
         \<and> successively (\<lambda>a b. \<exists>e. ca_ended_at a = Some e \<and> e \<le> ca_claimed_at b) l
         \<and> (if cj_state job \<in> set RESULT_STATES
            then (\<exists>r a. rs = [r] \<and> cj_result_id job = Some (cr_id r)
                   \<and> outcome_state (cr_outcome r) = cj_state job
                   \<and> a \<in> set l \<and> ca_attempt a = cj_attempt job \<and> cr_attempt r = cj_attempt job
                   \<and> ca_worker_id a = cr_worker_id r \<and> ca_ended_by a = Some Published
                   \<and> ca_ended_at a = Some (cr_published_at r)
                   \<and> cr_published_at r < ca_lease_expires_at a)
            else rs = []))"

lemma successively_pairwise: "successively P l \<longleftrightarrow> (\<forall>(a, b) \<in> set (pairwise l). P a b)"
  by (induction l rule: pairwise.induct) auto

lemma check_job_clean:
  assumes "check_job run job = []" and "cj_state job \<in> set FINAL_STATES"
  shows "clean_job run job"
proof -
  let ?l = "filter (\<lambda>a. ca_job_id a = cj_id job) (sort_key ca_attempt (sn_attempts run))"
  let ?rs = "filter (\<lambda>r. cr_job_id r = cj_id job) (sn_results run)"
  have one: "one_result job ?rs = []" and stale: "no_stale_write job ?l ?rs = []"
    and acc: "accounting job ?l = []"
    using assms(1) by (simp_all add: check_job_def Let_def)
  have "\<forall>(a, b) \<in> set (pairwise ?l). \<not> overlaps a b"
    using stale by (auto simp: no_stale_write_def filter_empty_conv)
  then have "successively (\<lambda>a b. \<exists>e. ca_ended_at a = Some e \<and> e \<le> ca_claimed_at b) ?l"
    by (fastforce simp: successively_pairwise overlaps_def not_less split: option.splits)
  moreover have "\<forall>r \<in> set ?rs. stale_result job ?l r = []"
    using stale by (simp add: no_stale_write_def)
  moreover from this have stale': "\<forall>r \<in> set ?rs. cr_attempt r = cj_attempt job \<and>
    (\<exists>a \<in> set ?l. ca_attempt a = cj_attempt job \<and> ca_worker_id a = cr_worker_id r
       \<and> cr_published_at r < ca_lease_expires_at a \<and> ca_ended_by a = Some Published
       \<and> ca_ended_at a = Some (cr_published_at r))"
    using stale_result_Nil [of job ?l] by blast
  moreover have "\<exists>r a. ?rs = [r] \<and> cj_result_id job = Some (cr_id r)
      \<and> outcome_state (cr_outcome r) = cj_state job
      \<and> a \<in> set ?l \<and> ca_attempt a = cj_attempt job \<and> cr_attempt r = cj_attempt job
      \<and> ca_worker_id a = cr_worker_id r \<and> ca_ended_by a = Some Published
      \<and> ca_ended_at a = Some (cr_published_at r) \<and> cr_published_at r < ca_lease_expires_at a"
    if s: "cj_state job \<in> set RESULT_STATES"
  proof -
    obtain r where r: "?rs = [r]" "cj_result_id job = Some (cr_id r)"
      "outcome_state (cr_outcome r) = cj_state job"
      using one s unfolding one_result_Nil_iff by auto
    then have "r \<in> set ?rs" by simp
    with stale' r show ?thesis by metis
  qed
  ultimately show ?thesis
    using assms(2) one acc unfolding clean_job_def Let_def one_result_Nil_iff accounting_Nil_iff
    by meson
qed

text \<open>
  C2. A clean report is evidence: when the checker returns no violation for a snapshot with one row per
  job, every submitted job is in the snapshot, every job of it is in a final state within its attempt
  budget, its attempts never overlapped, and it has exactly one result, published by the claimant of
  its current attempt inside that attempt's lease, when its state is a result state, and none
  otherwise.
\<close>

theorem clean_report_sound:
  assumes "check run submitted keys = []" and "distinct (map cj_id (sn_jobs run))"
  shows "set submitted \<subseteq> cj_id ` set (sn_jobs run) \<and> length submitted = length (sn_jobs run)
    \<and> list_all (clean_job run) (sn_jobs run)"
proof -
  let ?js = "map (\<lambda>j. (cj_id j, j)) (sn_jobs run)"
  have "dict_of ?js = ?js" using assms(2) by (intro dict_of_distinct) (simp add: comp_def)
  then have lost: "nothing_lost ?js submitted = []"
    and each: "\<forall>j \<in> set (sn_jobs run). check_job run j = []" and tot: "totals ?js submitted = []"
    using assms(1) by (auto simp: check_def comp_def Let_def)
  have "set submitted \<subseteq> cj_id ` set (sn_jobs run)"
    and fin: "\<forall>j \<in> set (sn_jobs run). cj_state j \<in> set FINAL_STATES"
    using lost by (simp_all add: nothing_lost_Nil_iff image_image)
  moreover have "length submitted = length (sn_jobs run)"
    using tot by (auto simp: totals_def Let_def split: if_splits)
  ultimately show ?thesis
    using check_job_clean each by (auto simp: list_all_iff)
qed

theorem clean_report_sound_witness:
  "clean_job (snapshot_of [1, 2] demo_done) (hd (sn_jobs (snapshot_of [1, 2] demo_done)))"
proof -
  let ?run = "snapshot_of [1, 2] demo_done"
  have "check ?run [1, 2] None = []" and "distinct (map cj_id (sn_jobs ?run))"
    and "sn_jobs ?run \<noteq> []"
    by code_simp+
  then show ?thesis using clean_report_sound [of ?run "[1, 2]" None] by (cases "sn_jobs ?run") auto
qed

end
