(* ===== verification/Fleet_Lifecycle.thy ===== *)
theory Fleet_Lifecycle
  imports Fleet_Checker
begin

text \<open>
  What a run of the fleet does to one job: the states of \<^verbatim>\<open>JobState\<close> and the moves between them, as an
  abstract machine (\<open>moves\<close>) that every operation of the store refines. A finished job's row is
  frozen, results are only ever appended, and a cancellation once asked for stays asked for.
\<close>

section \<open>The abstract machine\<close>

inductive moves :: "job_state \<Rightarrow> job_state \<Rightarrow> bool" where
  move_claim: "moves Queued Claimed"
| move_start: "moves Claimed Running"
| move_retry: "s \<in> set leased_states \<Longrightarrow> moves s Queued"
| move_bury: "s \<in> set leased_states \<Longrightarrow> moves s Dead_lettered"
| move_publish: "s \<in> set leased_states \<Longrightarrow> moves s (outcome_state v)"
| move_cancel: "s \<in> set UNFINISHED_STATES \<Longrightarrow> moves s Cancelled"

inductive_cases movesE: "moves s t"

text \<open>The step of one row: what identifies the job and what it asks for never changes.\<close>

definition same_request :: "job_row \<Rightarrow> job_row \<Rightarrow> bool" where
  "same_request j k \<longleftrightarrow>
     j_id k = j_id j \<and> j_batch_id k = j_batch_id j \<and> j_position k = j_position j
     \<and> j_name k = j_name j \<and> j_payload k = j_payload j \<and> j_payload_digest k = j_payload_digest j
     \<and> j_max_attempts k = j_max_attempts j \<and> j_policy k = j_policy j
     \<and> j_submitted_at k = j_submitted_at j"

definition evolves :: "job_row \<Rightarrow> job_row \<Rightarrow> bool" where
  "evolves j k \<longleftrightarrow>
     k = j \<or>
     same_request j k \<and> j_state j \<in> set UNFINISHED_STATES
     \<and> (j_state k = j_state j \<or> moves (j_state j) (j_state k))
     \<and> j_attempt k = (if j_state j = Queued \<and> j_state k = Claimed then j_attempt j + 1 else j_attempt j)
     \<and> (j_cancel_requested_at j \<noteq> None \<longrightarrow> j_cancel_requested_at k = j_cancel_requested_at j)"

definition evolved :: "db \<Rightarrow> db \<Rightarrow> bool" where
  "evolved d d' \<longleftrightarrow>
     (\<exists>f new. jobs d' = map f (jobs d) @ new \<and> (\<forall>j \<in> set (jobs d). evolves j (f j))
        \<and> (\<forall>j \<in> set new. j_batch_id j \<notin> b_id ` set (batches d)))
     \<and> (\<exists>rs. results d' = results d @ rs) \<and> (\<exists>bs. batches d' = batches d @ bs)"

lemma evolves_refl [simp]: "evolves j j"
  by (simp add: evolves_def)

lemma evolvedI:
  assumes "jobs d' = map f (jobs d) @ new" and "\<And>j. j \<in> set (jobs d) \<Longrightarrow> evolves j (f j)"
    and "results d' = results d @ rs" and "batches d' = batches d @ bs"
    and "\<And>j. j \<in> set new \<Longrightarrow> j_batch_id j \<notin> b_id ` set (batches d)"
  shows "evolved d d'"
  using assms by (auto simp: evolved_def)

lemma evolved_refl [simp]: "evolved d d"
  by (rule evolvedI [where f = "\<lambda>j. j" and new = "[]" and rs = "[]"]) simp_all

lemma evolved_update:
  assumes "\<And>k. k \<in> set (jobs d) \<Longrightarrow> j_id k = i \<Longrightarrow> evolves k (f k)"
  shows "evolved d (update_job i f d)"
  by (rule evolvedI [where f = "\<lambda>k. if j_id k = i then f k else k" and new = "[]" and rs = "[]"
        and bs = "[]"])
     (auto simp: update_job_def assms)

lemma evolved_attempts:
  "evolved d d' \<Longrightarrow> evolved d (update_attempt i n g d')"
  by (simp add: evolved_def)

section \<open>Every operation refines the machine\<close>

lemma evolvesI:
  assumes "same_request j k" and "j_state j \<in> set UNFINISHED_STATES"
    and "j_state k = j_state j \<or> moves (j_state j) (j_state k)"
    and "j_attempt k = (if j_state j = Queued \<and> j_state k = Claimed then j_attempt j + 1 else j_attempt j)"
    and "j_cancel_requested_at j \<noteq> None \<Longrightarrow> j_cancel_requested_at k = j_cancel_requested_at j"
  shows "evolves j k"
  using assms by (simp add: evolves_def)

lemmas evolves_simps = same_request_def state_list_defs moves.simps

lemma submit_evolved:
  assumes "batches_ok d"
  shows "evolved d (snd (submit_batch sha t label js key m policy d))"
proof -
  let ?rows = "new_rows sha t (next_batch_id d) m policy (next_job_id d) js"
  have "j_batch_id j = next_batch_id d" if "j \<in> set ?rows" for j
    using that by (auto simp: new_rows_def new_row_def)
  then have new: "j_batch_id j \<notin> b_id ` set (batches d)" if "j \<in> set ?rows" for j
    using that assms by (fastforce simp: batches_ok_def)
  have "evolved d (d\<lparr>next_batch_id := x, batches := batches d @ y, jobs := jobs d @ ?rows, next_job_id := z\<rparr>)"
    for x y z
    by (rule evolvedI [where f = "\<lambda>j. j" and new = ?rows]) (simp_all add: new)
  moreover have "evolved d (d\<lparr>next_batch_id := x\<rparr>)" for x
    by (rule evolvedI [where f = "\<lambda>j. j" and new = "[]"]) simp_all
  ultimately show ?thesis by (simp add: submit_batch_def Let_def split: option.splits)
qed

lemma oldest_claimable_Some:
  assumes "oldest_claimable locked scan d = Some j"
  shows "j \<in> set (jobs d)" and "claimable locked scan j"
proof -
  have "j \<in> set (sort_key j_id (filter (claimable locked scan) (jobs d)))"
    using assms by (simp add: oldest_claimable_def split: list.splits del: set_sort)
  then show "j \<in> set (jobs d)" and "claimable locked scan j" by auto
qed

lemma claim_evolved:
  assumes "tables_ok d"
  shows "evolved d (snd (claim locked scan clk w lease d))"
proof (cases "oldest_claimable locked scan d")
  case (Some j)
  note j = oldest_claimable_Some [OF Some]
  have "evolves j (claim_row clk w lease j)"
    using j(2) by (intro evolvesI) (auto simp: claimable_def claim_row_def evolves_simps)
  then have "evolved d (update_job (j_id j) (claim_row clk w lease) d)"
    using job_unique [OF assms _ j(1)] by (intro evolved_update) auto
  then show ?thesis by (simp add: claim_def Some Let_def evolved_def)
qed (simp add: claim_def)

lemma start_evolved:
  assumes "tables_ok d"
  shows "evolved d (snd (start clk i n d))"
proof (cases "\<exists>j \<in> set (jobs d). start_ok (clk 0) i n Claimed j")
  case True
  then obtain j where j: "j \<in> set (jobs d)" "start_ok (clk 0) i n Claimed j" by blast
  have "j_state k = Claimed" if "k \<in> set (jobs d)" "j_id k = i" for k
    using job_unique [OF assms that(1) j(1)] that(2) j(2) by (simp add: start_ok_def)
  with True show ?thesis
    by (auto simp: start_def evolves_simps intro!: evolved_update evolvesI)
qed (simp add: start_def)

lemma held_unique:
  assumes "tables_ok d" and "find (\<lambda>j. holds i n j \<and> P j) (jobs d) = Some j"
    and "k \<in> set (jobs d)" and "j_id k = i"
  shows "leased k" and "k = j" and "P k"
  using assms job_unique [OF assms(1), of k j] find_Some_mem [OF assms(2)] by (auto simp: holds_def)

lemma heartbeat_evolved:
  assumes "tables_ok d"
  shows "evolved d (snd (heartbeat clk i n lease d))"
  using held_unique(1) [OF assms]
  by (auto simp: heartbeat_def Let_def evolves_simps intro!: evolved_attempts evolved_update evolvesI
      split: option.splits)

lemma cancel_evolved:
  assumes "tables_ok d"
  shows "evolved d (snd (cancel clk i d))"
proof (cases "find (\<lambda>j. j_id j = i \<and> j_state j \<in> set UNFINISHED_STATES) (jobs d)")
  case (Some j)
  note j = find_Some_mem [OF Some]
  have "evolves k (cancel_row clk k)" if "j_state k \<in> set UNFINISHED_STATES" for k
    using that by (intro evolvesI) (auto simp: cancel_row_def evolves_simps)
  moreover have "j_state k \<in> set UNFINISHED_STATES" if "k \<in> set (jobs d)" "j_id k = i" for k
    using job_unique [OF assms that(1), of j] that(2) j by simp
  ultimately have "evolved d (update_job i (cancel_row clk) d)" by (simp add: evolved_update)
  then show ?thesis by (simp add: cancel_def Some)
qed (simp add: cancel_def)

lemma finish_cancelled_sql_evolved:
  assumes "tables_ok d"
  shows "evolved d (snd (finish_cancelled_sql t i n d))"
  using held_unique(1) [OF assms]
  by (auto simp: finish_cancelled_sql_def evolves_simps intro!: evolved_attempts evolved_update evolvesI
      split: option.splits)

lemma finish_cancelled_evolved:
  assumes "tables_ok d"
  shows "evolved d (snd (finish_cancelled clk i n d))"
  using finish_cancelled_sql_evolved [OF assms, of "clk 0" i n]
  by (auto simp: finish_cancelled_def split: prod.splits bool.splits)

lemma publish_evolved:
  assumes "tables_ok d"
  shows "evolved d (snd (publish clk i n w v body d))"
proof (cases "find (holds i n) (jobs d)")
  case (Some j)
  let ?r = "\<lparr>r_id = next_result_id d, r_job_id = i, r_attempt = n, r_worker_id = w,
             r_published_at = clk 1, r_outcome = v, r_body = jsonb body\<rparr>"
  let ?f = "\<lambda>j. j\<lparr>j_state := outcome_state v, j_result_id := Some (r_id ?r),
             j_lease_expires_at := None, j_finished_at := Some (clk 1), j_updated_at := clk 1\<rparr>"
  let ?d = "d\<lparr>results := results d @ [?r], next_result_id := next_result_id d + 1\<rparr>"
  have "leased k" if "k \<in> set (jobs d)" "j_id k = i" for k
    using that Some held_unique(1) [OF assms, of i n "\<lambda>_. True"] by simp
  then have "evolved d (update_job i ?f ?d)"
    by (intro evolvedI [where f = "\<lambda>k. if j_id k = i then ?f k else k" and new = "[]" and rs = "[?r]"])
       (auto simp: update_job_def evolves_simps intro!: evolvesI)
  then show ?thesis
    using finish_cancelled_sql_evolved [OF assms, of "clk 0" i n]
    by (simp add: publish_def Some Let_def evolved_attempts)
qed (simp add: publish_def)

lemma end_attempts_evolved:
  assumes "\<And>j. chosen j \<Longrightarrow> leased j"
  shows "evolved d (snd (end_attempts chosen ending t error retry d))"
  by (rule evolvedI [where f = "\<lambda>j. if chosen j then end_job t error retry j else j" and new = "[]"
        and rs = "[]"])
     (auto simp: end_attempts_def Let_def evolves_simps end_job_def final_state_def dest!: assms
       intro!: evolvesI)

lemma release_evolved: "evolved d (snd (release clk i n error retry d))"
  using end_attempts_evolved [of "\<lambda>j. holds i n j \<and> sql_gt (j_lease_expires_at j) (clk 0)" d Released "clk 0" error retry]
  by (auto simp: release_def holds_def split: prod.splits list.splits)

lemma reap_evolved: "evolved d (snd (reap locked clk retry d))"
  using end_attempts_evolved [of "\<lambda>j. leased j \<and> sql_le (j_lease_expires_at j) (clk 0) \<and> j_id j \<notin> locked"
      d Lease_expired "clk 0" LEASE_EXPIRED retry]
  by (auto simp: reap_def split: prod.splits)

lemma fleet_step_evolved:
  assumes "fleet_step sha (now, d) (now', d')" and "tables_ok d" and "batches_ok d"
  shows "evolved d d'"
  using assms
  by (cases rule: fleet_step.cases)
     (auto simp: record_execution_def
       intro: submit_evolved claim_evolved start_evolved heartbeat_evolved cancel_evolved
         finish_cancelled_evolved publish_evolved release_evolved reap_evolved evolved_attempts)

text \<open>What a run of any length does to a job.\<close>

definition outgrows :: "job_row \<Rightarrow> job_row \<Rightarrow> bool" where
  "outgrows j k \<longleftrightarrow>
     same_request j k \<and> moves\<^sup>*\<^sup>* (j_state j) (j_state k) \<and> j_attempt j \<le> j_attempt k
     \<and> (j_state j \<notin> set UNFINISHED_STATES \<longrightarrow> k = j)
     \<and> (j_cancel_requested_at j \<noteq> None \<longrightarrow> j_cancel_requested_at k = j_cancel_requested_at j)"

definition grown :: "fleet \<Rightarrow> fleet \<Rightarrow> bool" where
  "grown s t \<longleftrightarrow>
     (\<forall>j \<in> set (jobs (snd s)). \<exists>k \<in> set (jobs (snd t)). outgrows j k)
     \<and> (\<exists>rs. results (snd t) = results (snd s) @ rs)"

lemma evolves_outgrows: "evolves j k \<Longrightarrow> outgrows j k"
  by (auto simp: evolves_def outgrows_def same_request_def split: if_splits)

lemma outgrows_refl: "outgrows j j"
  by (simp add: outgrows_def same_request_def)

lemma outgrows_trans:
  assumes jk: "outgrows j k" and kl: "outgrows k l"
  shows "outgrows j l"
proof -
  have "moves\<^sup>*\<^sup>* (j_state j) (j_state l)"
    using jk kl rtranclp_trans [of moves "j_state j" "j_state k"] by (simp add: outgrows_def)
  moreover have "j_attempt j \<le> j_attempt l" and "same_request j l"
    using jk kl by (simp_all add: outgrows_def same_request_def)
  ultimately show ?thesis using jk kl by (auto simp: outgrows_def)
qed

lemma grown_refl: "grown s s"
  by (auto simp: grown_def intro: outgrows_refl)

lemma grown_trans:
  assumes st: "grown s t" and tu: "grown t u"
  shows "grown s u"
proof -
  have "\<exists>rs. results (snd u) = results (snd s) @ rs" using st tu by (auto simp: grown_def)
  moreover have "\<exists>l \<in> set (jobs (snd u)). outgrows j l" if j: "j \<in> set (jobs (snd s))" for j
  proof -
    obtain k where k: "k \<in> set (jobs (snd t))" "outgrows j k" using st j by (auto simp: grown_def)
    obtain l where l: "l \<in> set (jobs (snd u))" "outgrows k l" using tu k(1) by (auto simp: grown_def)
    show ?thesis using outgrows_trans [OF k(2) l(2)] l(1) by blast
  qed
  ultimately show ?thesis by (simp add: grown_def)
qed

lemma step_grown:
  assumes "fleet_step sha s t" and "fleet_inv s"
  shows "grown s t"
proof -
  have "evolved (snd s) (snd t)"
    using assms fleet_step_evolved by (cases s; cases t) (auto simp: db_inv_def)
  then obtain f new rs where t: "jobs (snd t) = map f (jobs (snd s)) @ new"
    "\<And>j. j \<in> set (jobs (snd s)) \<Longrightarrow> evolves j (f j)" "results (snd t) = results (snd s) @ rs"
    by (auto simp: evolved_def)
  have "f j \<in> set (jobs (snd t)) \<and> outgrows j (f j)" if "j \<in> set (jobs (snd s))" for j
    using that t(1) evolves_outgrows [OF t(2)] by simp
  then show ?thesis unfolding grown_def using t(3) by blast
qed

lemma run_grown:
  assumes "fleet_reachable sha s" and "(fleet_step sha)\<^sup>*\<^sup>* s t"
  shows "grown s t"
  using assms(2)
proof (induction rule: rtranclp_induct)
  case base
  show ?case by (rule grown_refl)
next
  case (step t u)
  have "fleet_inv t" using store_runs.inv_reach [OF store_runs.reach_steps [OF step(1) assms(1)]] .
  then show ?case using grown_trans [OF step(3) step_grown [OF step(2)]] by blast
qed



text \<open>
  C7. A cancellation is final: once a job's cancellation is asked for, no later state of the fleet
  has a result for it, and the job can only be waiting for its worker or be cancelled.
\<close>

theorem cancelled_never_published:
  assumes "fleet_reachable sha (now, d)" and "(fleet_step sha)\<^sup>*\<^sup>* (now, d) (now', d')"
    and "j \<in> set (jobs d)" and "j_cancel_requested_at j \<noteq> None"
  shows "\<exists>k \<in> set (jobs d'). j_id k = j_id j \<and> results_of (j_id j) d' = []
    \<and> j_state k \<in> {Claimed, Running, Cancelled}"
proof -
  have "grown (now, d) (now', d')" using assms(1,2) by (rule run_grown)
  then obtain k where k: "k \<in> set (jobs d')" "j_id k = j_id j" "j_cancel_requested_at k \<noteq> None"
    using assms(3,4) by (fastforce simp: grown_def outgrows_def same_request_def)
  have "job_inv now' d' k"
    using reachable_inv [OF store_runs.reach_steps [OF assms(2,1)]] k(1) by (rule inv_job)
  then have "results_of (j_id k) d' = [] \<and> j_state k \<in> {Claimed, Running, Cancelled}"
    using k(3) by (cases "j_state k") (auto simp: job_ok_def state_ok_def state_list_defs)
  then show ?thesis using k by auto
qed

theorem cancelled_never_published_witness:
  "results_of 2 demo_done = []"
proof -
  have "fleet_step demo_sha (50000004, demo_cancelling) (50000005, demo_done)"
    unfolding demo_done_def by (rule step_finish_cancelled [OF during_const]) simp
  moreover have "last (jobs demo_cancelling) \<in> set (jobs demo_cancelling)"
    "j_cancel_requested_at (last (jobs demo_cancelling)) \<noteq> None" "j_id (last (jobs demo_cancelling)) = 2"
    by code_simp+
  ultimately show ?thesis
    using cancelled_never_published [OF demo_cancelling_reachable r_into_rtranclp] by metis
qed

end
