(* ===== verification/Fleet_Calls.thy ===== *)
theory Fleet_Calls
  imports Fleet_Lifecycle
begin

text \<open>
  The contract of the store's calls, as their callers rely on it: the schema's constraints hold in
  every reachable database; a write is taken only from the attempt that holds the job's live lease;
  a call made again after its answer was lost changes nothing and says the same (\<open>retryable\<close>, the
  interface the workers' ride-through depends on); a repeated submission returns the first batch;
  claiming is first-in first-out and never hands out an attempt twice.
\<close>

section \<open>The schema\<close>

lemma results_per_job:
  assumes "db_inv now d" and "r \<in> set (results d)" and "s \<in> set (results d)" and "r_job_id r = r_job_id s"
  shows "r = s"
proof -
  obtain j where j: "j \<in> set (jobs d)" "j_id j = r_job_id r"
    using inv_results(1) [OF assms(1)] assms(2) by auto
  have "length (results_of (j_id j) d) \<le> 1"
    using one_result_at_most [OF inv_job [OF assms(1) j(1)]] .
  moreover have "r \<in> set (results_of (j_id j) d)" "s \<in> set (results_of (j_id j) d)"
    using assms j by (auto simp: results_of_def)
  ultimately show ?thesis by (cases "results_of (j_id j) d") auto
qed

lemma distinct_filter_map:
  assumes "\<And>k. distinct (map f (filter (\<lambda>x. g x = k) xs))"
  shows "distinct (map (\<lambda>x. (g x, f x)) xs)"
  using assms
proof (induction xs)
  case (Cons x xs)
  have "distinct (map f (filter (\<lambda>x. g x = k) xs))" for k
    using Cons.prems [of k] by (cases "g x = k") auto
  moreover have "f x \<notin> f ` {y \<in> set xs. g y = g x}" using Cons.prems [of "g x"] by simp
  ultimately show ?case using Cons.IH by (auto simp: image_iff)
qed simp

lemma inv_keys:
  assumes "db_inv now d"
  shows "keys_ok d"
proof -
  have "distinct (map a_attempt (log_of i d))" for i
  proof (cases "i \<in> j_id ` set (jobs d)")
    case True
    then obtain j where "j \<in> set (jobs d)" "i = j_id j" by auto
    then show ?thesis using inv_job [OF assms, of j] by (simp add: job_ok_def)
  next
    case False
    then have "log_of i d = []" using inv_results(4) [OF assms] by (auto simp: log_of_def filter_empty_conv)
    then show ?thesis by simp
  qed
  then have "distinct (map (\<lambda>a. (a_job_id a, a_attempt a)) (attempts d))"
    unfolding log_of_def by (rule distinct_filter_map)
  moreover have "distinct (map r_job_id (results d))"
    using results_per_job [OF assms] inv_results(2) [OF assms]
    by (auto simp: distinct_map inj_on_def)
  ultimately show ?thesis
    using assms by (simp add: keys_ok_def db_inv_def tables_ok_def batches_ok_def)
qed

lemma inv_references:
  assumes "db_inv now d"
  shows "references_ok d"
proof -
  have "i \<in> r_id ` set (results d)" if j: "j \<in> set (jobs d)" "j_result_id j = Some i" for j i
  proof -
    have "job_inv now d j" using assms j(1) by (rule inv_job)
    then have "j_state j \<in> set result_states \<and> state_ok (log_of (j_id j) d) (results_of (j_id j) d) j"
      using j(2) by (simp add: job_ok_def job_checks_def)
    then obtain r where "results_of (j_id j) d = [r]" "r_id r = i"
      using j(2) by (auto simp: state_ok_def result_ok_def state_list_defs split: list.splits)
    then have "r \<in> set (results d)" by (metis (no_types) filter_is_subset list.set_intros(1) results_of_def subsetD)
    then show ?thesis using \<open>r_id r = i\<close> by blast
  qed
  then show ?thesis
    using assms by (auto simp: references_ok_def db_inv_def tables_ok_def batches_ok_def split: option.splits)
qed

text \<open>
  C11. Every reachable database satisfies every constraint of the migrations: the checks on jobs and
  attempts, the primary and unique keys (one result per job among them) and the foreign keys, so no
  operation of the store can fail on one.
\<close>

theorem reachable_schema_ok:
  assumes "fleet_reachable sha (now, d)"
  shows "schema_ok d"
proof -
  have inv: "db_inv now d" using reachable_inv [OF assms] .
  have "attempt_checks a" if a: "a \<in> set (attempts d)" for a
  proof -
    obtain j where j: "j \<in> set (jobs d)" "j_id j = a_job_id a"
      using inv_results(4) [OF inv] a by auto
    then have "a \<in> set (log_of (j_id j) d)" using a by (simp add: log_of_def)
    then have "row_ok now a"
      using inv_job [OF inv j(1)] by (auto simp: job_ok_def log_ok_def list_all_iff)
    then show ?thesis by (auto simp: row_ok_def attempt_checks_def split: option.splits)
  qed
  moreover have "job_checks j" if "j \<in> set (jobs d)" for j
    using inv_job [OF inv that] by (simp add: job_ok_def)
  ultimately show ?thesis
    using inv_keys [OF inv] inv_references [OF inv] by (simp add: schema_ok_def list_all_iff)
qed

theorem reachable_schema_ok_witness: "schema_ok demo_done \<and> results demo_done \<noteq> []"
  using reachable_schema_ok [OF demo_done_reachable] by (rule conjI) code_simp

section \<open>Fencing\<close>

lemma find_holds:
  assumes "tables_ok d"
  shows "find (\<lambda>j. holds i n j \<and> P j) (jobs d) = Some j \<longleftrightarrow> j \<in> set (jobs d) \<and> holds i n j \<and> P j"
proof
  assume "find (\<lambda>j. holds i n j \<and> P j) (jobs d) = Some j"
  then show "j \<in> set (jobs d) \<and> holds i n j \<and> P j" using find_Some_mem by fastforce
next
  assume "j \<in> set (jobs d) \<and> holds i n j \<and> P j"
  then show "find (\<lambda>j. holds i n j \<and> P j) (jobs d) = Some j"
    by (intro find_unique) (auto simp: holds_def dest: job_unique [OF assms])
qed

definition same_result :: "int \<Rightarrow> int \<Rightarrow> string \<Rightarrow> outcome \<Rightarrow> json \<Rightarrow> result_row \<Rightarrow> bool" where
  "same_result i n w v body r \<longleftrightarrow>
     r_job_id r = i \<and> r_attempt r = n \<and> r_worker_id r = w \<and> r_outcome r = v \<and> r_body r = jsonb body"

definition may_publish :: "time \<Rightarrow> int \<Rightarrow> int \<Rightarrow> job_row \<Rightarrow> bool" where
  "may_publish t i n j \<longleftrightarrow>
     holds i n j \<and> j_cancel_requested_at j = None \<and> sql_gt (j_lease_expires_at j) t"

lemma finish_cancelled_sql_results [simp]: "results (snd (finish_cancelled_sql t i n d)) = results d"
  by (simp add: finish_cancelled_sql_def split: option.splits)

text \<open>A held job has no result yet.\<close>

lemma held_no_result:
  assumes "db_inv now d" and "j \<in> set (jobs d)" and "holds i n j" and "r \<in> set (results d)"
  shows "r_job_id r \<noteq> i"
proof
  assume "r_job_id r = i"
  then have "r \<in> set (results_of (j_id j) d)" using assms by (simp add: results_of_def holds_def)
  moreover have "results_of (j_id j) d = []"
    using leased_log(4) [OF inv_job [OF assms(1,2)]] assms(3) by (simp add: holds_def)
  ultimately show False by simp
qed

lemma publish_answer:
  assumes inv: "db_inv now d" and p: "publish clk i n w v body d = (ok, d')"
  shows "ok \<longleftrightarrow> (\<exists>j \<in> set (jobs d). may_publish (clk 1) i n j)
                 \<or> (\<exists>r \<in> set (results d). same_result i n w v body r)"
    and "ok \<Longrightarrow> \<exists>r \<in> set (results d'). same_result i n w v body r"
    and "\<not> ok \<Longrightarrow> results d' = results d"
proof -
  note find = find_holds [OF inv_tables [OF inv], of i n "\<lambda>_. True", simplified]
  show "ok \<longleftrightarrow> (\<exists>j \<in> set (jobs d). may_publish (clk 1) i n j)
               \<or> (\<exists>r \<in> set (results d). same_result i n w v body r)"
  proof (cases "find (holds i n) (jobs d)")
    case None
    then show ?thesis
      using p None by (auto simp: find_None_all publish_def may_publish_def same_result_def)
  next
    case (Some j)
    then have j: "j \<in> set (jobs d)" "holds i n j" using find by auto
    have "k = j" if "k \<in> set (jobs d)" "may_publish t i n k" for k t
      using that j job_unique [OF inv_tables [OF inv] that(1) j(1)] by (simp add: may_publish_def holds_def)
    then have "(\<exists>k \<in> set (jobs d). may_publish (clk 1) i n k) \<longleftrightarrow> may_publish (clk 1) i n j"
      using j(1) by blast
    moreover have "\<not> (\<exists>r \<in> set (results d). same_result i n w v body r)"
      using held_no_result [OF inv j] by (auto simp: same_result_def)
    moreover have "ok \<longleftrightarrow> may_publish (clk 1) i n j"
      using p j(2) by (auto simp: publish_def Some Let_def may_publish_def split: if_splits)
    ultimately show ?thesis by simp
  qed
  show "\<exists>r \<in> set (results d'). same_result i n w v body r" if "ok"
    using p that by (auto simp: publish_def Let_def same_result_def split: option.splits if_splits)
  show "results d' = results d" if "\<not> ok"
    using p that by (auto simp: publish_def Let_def split: option.splits if_splits)
qed

text \<open>
  C4. A result is accepted exactly from the attempt that holds the job's live lease with no cancel
  asked for, or when that very result is already there. Once accepted, it is the job's only result
  and the job is in its outcome's state.
\<close>

theorem publish_fenced:
  assumes reach: "fleet_reachable sha (now, d)" and clk: "during now now' clk"
    and w: "claimed_by i n w d" and p: "publish clk i n w v body d = (ok, d')"
  shows "(ok \<longleftrightarrow> (\<exists>j \<in> set (jobs d). may_publish (clk 1) i n j)
                 \<or> (\<exists>r \<in> set (results d). same_result i n w v body r))
    \<and> (if ok then \<exists>r j. results_of i d' = [r] \<and> same_result i n w v body r
                    \<and> get_job i d' = Some j \<and> j_state j = outcome_state v
                    \<and> j_result_id j = Some (r_id r)
       else results d' = results d)"
proof -
  note inv = reachable_inv [OF reach]
  have inv': "db_inv now' d'" using publish_inv [OF inv clk w, of v body] p by simp
  have "\<exists>r j. results_of i d' = [r] \<and> same_result i n w v body r
          \<and> get_job i d' = Some j \<and> j_state j = outcome_state v \<and> j_result_id j = Some (r_id r)" if acc: "ok"
  proof -
    obtain r where r: "r \<in> set (results d')" "same_result i n w v body r"
      using publish_answer(2) [OF inv p acc] by auto
    then obtain j where j: "j \<in> set (jobs d')" "j_id j = i"
      using inv_results(1) [OF inv'] by (auto simp: same_result_def)
    have "r \<in> set (results_of i d')" using r by (simp add: results_of_def same_result_def)
    moreover have "state_ok (log_of i d') (results_of i d') j"
      using inv_job [OF inv' j(1)] j(2) by (simp add: job_ok_def)
    ultimately have "results_of i d' = [r] \<and> result_ok (log_of i d') [r] j"
      by (auto simp: state_ok_def result_ok_def split: if_splits list.splits)
    then show ?thesis
      using r(2) j(2) get_job_mem [OF inv_tables [OF inv'] j(1)]
      by (auto simp: result_ok_def same_result_def)
  qed
  then show ?thesis using publish_answer(1,3) [OF inv p] by auto
qed

theorem publish_fenced_witness:
  "\<exists>r j. results_of 1 demo_published = [r] \<and> same_result 1 2 ''w2'' Outcome_succeeded (JObj []) r
     \<and> get_job 1 demo_published = Some j \<and> j_state j = Succeeded"
proof -
  have "claimed_by 1 2 ''w2'' demo_leased" by code_simp
  moreover have "fst (publish (\<lambda>_. 50000002) 1 2 ''w2'' Outcome_succeeded (JObj []) demo_leased)" by code_simp
  then have "publish (\<lambda>_. 50000002) 1 2 ''w2'' Outcome_succeeded (JObj []) demo_leased = (True, demo_published)"
    by (simp add: demo_published_def prod_eq_iff)
  ultimately show ?thesis
    using publish_fenced [OF demo_leased_reachable during_const, of 50000002 1 2 "''w2''"
        Outcome_succeeded "JObj []" True demo_published] by auto
qed

text \<open>
  An attempt that lost its job is fenced off: when the job is not leased to it any more (another
  attempt runs, or the job is queued again or finished), none of its calls changes the database.
\<close>

theorem stale_attempt_harmless:
  assumes "\<forall>j \<in> set (jobs d). \<not> holds i n j"
  shows "snd (start clk i n d) = d \<and> snd (heartbeat clk i n lease d) = d
    \<and> snd (finish_cancelled clk i n d) = d \<and> snd (publish clk i n w v body d) = d
    \<and> snd (release clk i n error retry d) = d
    \<and> fst (heartbeat clk i n lease d) = None \<and> \<not> fst (start clk i n d)"
proof -
  have none: "find (\<lambda>j. holds i n j \<and> P j) (jobs d) = None" for P
    using assms by (auto simp: find_None_iff)
  have fin: "finish_cancelled_sql t i n d = (False, d)" for t
    by (simp add: finish_cancelled_sql_def none)
  have unheld: "\<not> start_ok t i n Claimed j" "\<not> start_ok t i n Running j" if "j \<in> set (jobs d)" for j t
    using assms that by (auto simp: start_ok_def holds_def leased_states_def)
  have "end_attempts (\<lambda>j. holds i n j \<and> P j) e t error retry d = ([], d)" for P e t
    using assms by (auto simp: end_attempts_def Let_def filter_empty_conv cong: map_cong)
  then show ?thesis
    using none [of "\<lambda>_. True"]
    by (simp add: start_def heartbeat_def none finish_cancelled_def fin publish_def release_def unheld)
qed

theorem stale_attempt_harmless_witness:
  "snd (publish (\<lambda>_. 50000002) 1 1 ''w1'' Outcome_failed (JObj []) demo_leased) = demo_leased"
proof -
  have "\<forall>j \<in> set (jobs demo_leased). \<not> holds 1 1 j" by code_simp
  then show ?thesis using stale_attempt_harmless by blast
qed

end
