(* ===== verification/Fleet_Connections.thy ===== *)
theory Fleet_Connections
  imports Fleet_Calls
begin

text \<open>
  \<^verbatim>\<open>fleet/connections.py\<close>: telling a dropped connection from a failed call, and making the call
  again on a fresh connection until the drop is over or the time allowed has passed. A call that
  was committed before its connection dropped is made a second time, so the store's calls have to
  be safe to repeat, whatever the rest of the fleet did in between: that is the interface
  \<open>retryable\<close>, which publishing, ending a cancelled job and releasing an attempt satisfy.
\<close>

section \<open>Dropped connections\<close>

text \<open>
  An exception, as far as \<^verbatim>\<open>connection_lost\<close> looks at it: whether it is a \<^verbatim>\<open>ConnectionError\<close> or
  \<^verbatim>\<open>TimeoutError\<close>, whether it is a \<^verbatim>\<open>DBAPIError\<close> whose connection was invalidated, its \<^verbatim>\<open>sqlstate\<close>
  when that is a string, \<^verbatim>\<open>orig\<close> and \<^verbatim>\<open>__cause__\<close>.
\<close>

datatype exn = Exn (network_error: bool) (connection_invalidated: bool) (sqlstate: "string option")
  (orig: "exn option") (cause: "exn option")

definition LOST_STATES :: "string list" where
  "LOST_STATES = [''08'', ''57P01'', ''57P02'', ''57P03'']"

definition FIRST_DELAY_SECONDS :: seconds where
  "FIRST_DELAY_SECONDS = 1 / 20"

definition MAX_DELAY_SECONDS :: seconds where
  "MAX_DELAY_SECONDS = 1"

definition lost_here :: "exn \<Rightarrow> bool" where
  "lost_here e \<longleftrightarrow> network_error e \<or>
     (case sqlstate e of None \<Rightarrow> False | Some s \<Rightarrow> \<exists>p \<in> set LOST_STATES. startswith s p)"

text \<open>The stack \<^verbatim>\<open>pending\<close>, its top first: of the two pushed, the cause is popped first.\<close>

fun lost_in :: "nat \<Rightarrow> exn option list \<Rightarrow> bool" where
  "lost_in 0 pending = False"
| "lost_in (Suc k) [] = False"
| "lost_in (Suc k) (None # pending) = lost_in k pending"
| "lost_in (Suc k) (Some e # pending) = (lost_here e \<or> lost_in k (cause e # orig e # pending))"

definition connection_lost :: "exn \<Rightarrow> bool" where
  "connection_lost e \<longleftrightarrow> connection_invalidated e \<or> lost_in 8 [Some e]"

text \<open>The exceptions on an exception's chain of causes, itself first.\<close>

fun causes :: "exn \<Rightarrow> exn list" where
  "causes (Exn a b c d None) = [Exn a b c d None]"
| "causes (Exn a b c d (Some e)) = Exn a b c d (Some e) # causes e"

lemma causes_Cons: "causes e = e # (case cause e of None \<Rightarrow> [] | Some c \<Rightarrow> causes c)"
  by (cases e rule: causes.cases) auto

lemma lost_in_causes:
  "x \<in> set (take k (causes e)) \<Longrightarrow> lost_here x \<Longrightarrow> lost_in k (Some e # pending)"
proof (induction k arbitrary: e pending)
  case (Suc k)
  then show ?case
    by (subst (asm) causes_Cons) (cases "cause e"; auto)
qed simp

lemma lost_in_source:
  "lost_in k pending \<Longrightarrow>
     \<exists>e x. Some e \<in> set pending \<and> lost_here x \<and> (x, e) \<in> {(y, z). orig z = Some y \<or> cause z = Some y}\<^sup>*"
proof (induction k pending rule: lost_in.induct)
  case (4 k e pending)
  let ?below = "{(y, z). orig z = Some y \<or> cause z = Some y}"
  show ?case
  proof (cases "lost_here e")
    case True
    then show ?thesis by (intro exI [of _ e]) auto
  next
    case False
    then obtain z x where z: "Some z \<in> set (cause e # orig e # pending)" "lost_here x" "(x, z) \<in> ?below\<^sup>*"
      using 4 by auto
    then consider "cause e = Some z \<or> orig e = Some z" | "Some z \<in> set pending" by auto
    then show ?thesis
    proof cases
      case 1
      then have "(x, e) \<in> ?below\<^sup>*" using z(3) by (auto intro: rtrancl_into_rtrancl)
      then show ?thesis using z(2) by auto
    next
      case 2
      then show ?thesis using z by auto
    qed
  qed
qed auto

text \<open>
  Telling a drop from a failure: a network error or a connection \<^verbatim>\<open>sqlstate\<close> among the first
  eight exceptions of the chain of causes is recognised, and nothing is taken for a drop
  that has neither an invalidated connection nor such an error somewhere below it.
\<close>

theorem connection_lost_recognised:
  "(connection_lost e \<longrightarrow> connection_invalidated e \<or>
      (\<exists>x. lost_here x \<and> (x, e) \<in> {(y, z). orig z = Some y \<or> cause z = Some y}\<^sup>*))
   \<and> ((\<exists>x \<in> set (take 8 (causes e)). lost_here x) \<longrightarrow> connection_lost e)"
  using lost_in_source [of 8 "[Some e]"] lost_in_causes [of _ 8 e "[]"]
  by (auto simp: connection_lost_def)

definition reset_by_peer :: exn where
  "reset_by_peer = Exn True False None None None"

theorem connection_lost_recognised_witness:
  "connection_lost (Exn False False (Some ''XX000'') None (Some reset_by_peer))
   \<and> \<not> connection_lost (Exn False False (Some ''23505'') None None)"
proof
  let ?e = "Exn False False (Some ''XX000'') None (Some reset_by_peer)"
  have "\<exists>x \<in> set (take 8 (causes ?e)). lost_here x"
    by (simp add: reset_by_peer_def lost_here_def)
  then show "connection_lost ?e" using connection_lost_recognised [of ?e] by blast
  show "\<not> connection_lost (Exn False False (Some ''23505'') None None)"
    by code_simp
qed

section \<open>Riding through\<close>

text \<open>
  The loop of \<^verbatim>\<open>ride_through\<close>. Try \<open>k\<close> makes the call on the state it finds; \<open>clock k\<close> is the reading
  taken after it failed. Its \<open>fuel\<close> bounds the tries; \<open>ride_through_ends\<close> gives the bound.
\<close>

fun ride :: "nat \<Rightarrow> (nat \<Rightarrow> 's \<Rightarrow> (exn + 'a) \<times> 's) \<Rightarrow> (nat \<Rightarrow> seconds) \<Rightarrow> seconds \<Rightarrow> seconds \<Rightarrow> nat \<Rightarrow> 's
    \<Rightarrow> ((exn + 'a) \<times> 's) option" where
  "ride 0 call clock deadline delay k s = None"
| "ride (Suc fuel) call clock deadline delay k s =
     (case call k s of
        (Inr a, s') \<Rightarrow> Some (Inr a, s')
      | (Inl e, s') \<Rightarrow>
          if \<not> connection_lost e \<or> deadline < clock k + delay then Some (Inl e, s')
          else ride fuel call clock deadline (min (delay * 2) MAX_DELAY_SECONDS) (Suc k) s')"

definition ride_through ::
  "nat \<Rightarrow> (nat \<Rightarrow> 's \<Rightarrow> (exn + 'a) \<times> 's) \<Rightarrow> (nat \<Rightarrow> seconds) \<Rightarrow> seconds \<Rightarrow> seconds \<Rightarrow> 's
   \<Rightarrow> ((exn + 'a) \<times> 's) option" where
  "ride_through fuel call clock started seconds s =
     ride fuel call clock (started + seconds) FIRST_DELAY_SECONDS 0 s"

text \<open>Every sleep moves the clock on by at least the first delay, so the tries run out.\<close>

lemma ride_ends:
  assumes "\<And>k. clock k + FIRST_DELAY_SECONDS \<le> clock (Suc k)" and "FIRST_DELAY_SECONDS \<le> delay"
    and "deadline < clock k + of_nat fuel * FIRST_DELAY_SECONDS" and "0 < fuel"
  shows "\<exists>r. ride fuel call clock deadline delay k s = Some r"
  using assms(2-)
proof (induction fuel arbitrary: delay k s)
  case (Suc fuel)
  have D: "0 < FIRST_DELAY_SECONDS" "FIRST_DELAY_SECONDS \<le> min (delay * 2) MAX_DELAY_SECONDS"
    using Suc.prems(1) by (simp_all add: FIRST_DELAY_SECONDS_def MAX_DELAY_SECONDS_def)
  show ?case
  proof (cases "deadline < clock k + delay")
    case True
    then show ?thesis by (auto split: prod.splits sum.splits)
  next
    case False
    then have "0 < fuel" using Suc.prems(1,2) by (cases fuel) auto
    moreover have "deadline < clock (Suc k) + of_nat fuel * FIRST_DELAY_SECONDS"
      using Suc.prems(2) assms(1) [of k] by (simp add: algebra_simps)
    ultimately have "\<exists>r. ride fuel call clock deadline (min (delay * 2) MAX_DELAY_SECONDS) (Suc k) s' = Some r" for s'
      using Suc.IH D(2) by blast
    then show ?thesis by (auto split: prod.splits sum.splits)
  qed
qed simp

text \<open>
  C12. Riding through ends: on a clock that every sleep moves on, a call is made at most once more than
  twenty times per second allowed, and then its answer or its last error comes back.
\<close>

theorem ride_through_ends:
  assumes "\<And>k. clock k + FIRST_DELAY_SECONDS \<le> clock (Suc k)" and "started \<le> clock 0"
  shows "\<exists>r. ride_through (Suc (nat \<lceil>20 * seconds\<rceil>)) call clock started seconds s = Some r"
  unfolding ride_through_def
proof (rule ride_ends)
  have "20 * seconds \<le> of_int \<lceil>20 * seconds\<rceil>" by (rule le_of_int_ceiling)
  also have "\<dots> \<le> of_int (int (nat \<lceil>20 * seconds\<rceil>))" unfolding of_int_le_iff by simp
  finally have "20 * seconds \<le> of_nat (nat \<lceil>20 * seconds\<rceil>)" unfolding of_int_of_nat_eq .
  then show "started + seconds < clock 0 + of_nat (Suc (nat \<lceil>20 * seconds\<rceil>)) * FIRST_DELAY_SECONDS"
    using assms(2) by (simp add: FIRST_DELAY_SECONDS_def add_divide_distrib)
qed (use assms(1) in auto)

theorem ride_through_ends_witness:
  "\<exists>r. ride_through 21 (\<lambda>_ s. (Inl reset_by_peer, s)) (\<lambda>k. of_nat k) 0 1 () = (Some r :: ((exn + unit) \<times> unit) option)"
  using ride_through_ends [of "\<lambda>k. of_nat k" 0 1 "\<lambda>_ s. (Inl reset_by_peer, s)" "()"]
  by (simp add: FIRST_DELAY_SECONDS_def numeral_eq_Suc)

section \<open>Ended attempts stay ended\<close>

definition endings_kept :: "db \<Rightarrow> db \<Rightarrow> bool" where
  "endings_kept d d' \<longleftrightarrow> (\<forall>i n e. ended_by i n e d \<longrightarrow> ended_by i n e d')"

lemma endings_kept_map:
  assumes "attempts d' = map h (attempts d) @ new"
    and "\<And>a. a \<in> set (attempts d) \<Longrightarrow> a_ended_by a \<noteq> None \<Longrightarrow>
      a_job_id (h a) = a_job_id a \<and> a_attempt (h a) = a_attempt a \<and> a_ended_by (h a) = a_ended_by a"
  shows "endings_kept d d'"
  using assms by (fastforce simp: endings_kept_def ended_by_def)

lemma endings_kept_same: "attempts d' = attempts d \<Longrightarrow> endings_kept d d'"
  by (simp add: endings_kept_def ended_by_def)

lemma current_open:
  assumes inv: "db_inv now d" and j: "j \<in> set (jobs d)" "leased j"
    and a: "a \<in> set (attempts d)" "a_job_id a = j_id j" "a_attempt a = j_attempt j"
  shows "a_ended_by a = None"
proof -
  let ?l = "log_of (j_id j) d"
  note ok = inv_job [OF inv j(1)]
  note l = leased_log [OF ok j(2)]
  have "a \<in> set ?l" using a by (simp add: log_of_def)
  moreover have "distinct (map a_attempt ?l)" using ok by (simp add: job_ok_def)
  ultimately have "a = last ?l"
    using l(1,6) a(3) by (auto simp: distinct_map inj_on_def)
  then show ?thesis using l(3) by simp
qed

lemma endings_kept_update:
  assumes inv: "db_inv now d" and j: "j \<in> set (jobs d)" "holds i n j"
  shows "endings_kept d (update_attempt i n g (update_job i f d))"
  using current_open [OF inv j(1)] j(2)
  by (intro endings_kept_map [where h = "\<lambda>a. if a_job_id a = i \<and> a_attempt a = n then g a else a" and new = "[]"])
     (auto simp: update_attempt_def holds_def)

lemma end_attempts_kept:
  assumes inv: "db_inv now d" and c: "\<And>j. chosen j \<Longrightarrow> leased j"
  shows "endings_kept d (snd (end_attempts chosen e t err retry d))"
proof -
  let ?moved = "map (end_job t err retry) (filter chosen (jobs d))"
  let ?of = "\<lambda>a. find (\<lambda>m. j_id m = a_job_id a \<and> j_attempt m = a_attempt a) ?moved"
  have "?of a = None" if "a \<in> set (attempts d)" "a_ended_by a \<noteq> None" for a
    using current_open [OF inv _ c] that by (fastforce simp: find_None_iff end_job_def)
  then show ?thesis
    by (intro endings_kept_map [where new = "[]"
          and h = "\<lambda>a. if ?of a \<noteq> None then a\<lparr>a_ended_at := Some t, a_ended_by := Some e, a_error := Some err\<rparr> else a"])
       (simp_all add: end_attempts_def Let_def)
qed

lemma finish_cancelled_sql_kept:
  assumes "db_inv now d"
  shows "endings_kept d (snd (finish_cancelled_sql t i n d))"
  using endings_kept_update [OF assms] endings_kept_same
  by (auto simp: finish_cancelled_sql_def find_holds [OF inv_tables [OF assms]] split: option.splits)

lemma publish_kept:
  assumes inv: "db_inv now d"
  shows "endings_kept d (snd (publish clk i n w v body d))"
proof (cases "find (holds i n) (jobs d)")
  case (Some j)
  then have j: "j \<in> set (jobs d)" "holds i n j"
    using find_holds [OF inv_tables [OF inv], of i n "\<lambda>_. True"] by auto
  have "endings_kept d (update_attempt i n g (update_job i f (d\<lparr>results := rs, next_result_id := x\<rparr>)))" for g f rs x
    using endings_kept_update [OF inv j, of g f]
    by (simp add: endings_kept_def ended_by_def update_attempt_def update_job_def)
  then show ?thesis
    using finish_cancelled_sql_kept [OF inv, of "clk 0" i n] endings_kept_same [of d d]
    by (simp add: publish_def Some Let_def)
qed (simp add: publish_def endings_kept_same)

lemma step_endings_kept:
  assumes "fleet_step sha (now, d) (now', d')" and inv: "db_inv now d"
  shows "endings_kept d d'"
  using assms(1)
proof (cases rule: fleet_step.cases)
  case step_tick
  then show ?thesis by (simp add: endings_kept_same)
next
  case step_submit
  then show ?thesis
    by (auto simp: submit_batch_def Let_def intro!: endings_kept_same split: option.splits)
next
  case (step_claim clk locked scan w lease)
  then show ?thesis
    by (auto simp: claim_def Let_def intro!: endings_kept_map [where h = "\<lambda>a. a"] split: option.splits)
next
  case step_start
  then show ?thesis by (auto simp: start_def intro!: endings_kept_same)
next
  case step_heartbeat
  then show ?thesis
    using endings_kept_update [OF inv] endings_kept_same
    by (auto simp: heartbeat_def Let_def find_holds [OF inv_tables [OF inv]] split: option.splits)
next
  case step_cancel
  then show ?thesis by (auto simp: cancel_def intro!: endings_kept_same split: option.splits)
next
  case (step_finish_cancelled clk i n)
  then show ?thesis
    using finish_cancelled_sql_kept [OF inv, of "clk 0" i n]
    by (auto simp: finish_cancelled_def split: prod.splits bool.splits)
next
  case step_publish
  then show ?thesis using publish_kept [OF inv] by simp
next
  case (step_release clk i n error retry)
  then show ?thesis
    using end_attempts_kept [OF inv, of "\<lambda>j. holds i n j \<and> sql_gt (j_lease_expires_at j) (clk 0)" Released "clk 0" error retry]
    by (auto simp: release_def holds_def split: prod.splits list.splits)
next
  case (step_reap clk locked retry)
  then show ?thesis
    using end_attempts_kept [OF inv, of "\<lambda>j. leased j \<and> sql_le (j_lease_expires_at j) (clk 0) \<and> j_id j \<notin> locked"
        Lease_expired "clk 0" LEASE_EXPIRED retry]
    by (auto simp: reap_def split: prod.splits)
next
  case (step_record i n execution logs)
  then show ?thesis
    by (intro endings_kept_map [where new = "[]" and
          h = "\<lambda>a. if a_job_id a = i \<and> a_attempt a = n
                    then a\<lparr>a_execution := Some (jsonb execution), a_logs := logs\<rparr> else a"])
       (auto simp: record_execution_def update_attempt_def)
qed

lemma run_endings_kept:
  assumes "(fleet_step sha)\<^sup>*\<^sup>* s t" and "fleet_reachable sha s"
  shows "endings_kept (snd s) (snd t)"
  using assms(1)
proof (induction rule: rtranclp_induct)
  case base
  show ?case by (simp add: endings_kept_same)
next
  case (step t u)
  have "fleet_inv t" using store_runs.inv_reach [OF store_runs.reach_steps [OF step(1) assms(2)]] .
  then have "endings_kept (snd t) (snd u)"
    using step_endings_kept step(2) by (cases t; cases u) auto
  with step(3) show ?case by (simp add: endings_kept_def)
qed

section \<open>Calls that are safe to repeat\<close>

text \<open>
  What can happen to one try of a call: it is delivered, its connection drops before the commit, or it
  drops after the commit with the answer lost. Before each try the rest of the fleet may have taken
  any steps (\<open>env\<close>); \<open>clks k\<close> are the clock readings of try \<open>k\<close>.
\<close>

datatype fate = Delivered | Dropped_before | Dropped_after

definition wire ::
  "((nat \<Rightarrow> time) \<Rightarrow> db \<Rightarrow> 'a \<times> db) \<Rightarrow> (nat \<Rightarrow> fate) \<Rightarrow> (nat \<Rightarrow> nat \<Rightarrow> time) \<Rightarrow> (nat \<Rightarrow> fleet \<Rightarrow> fleet)
   \<Rightarrow> nat \<Rightarrow> fleet \<Rightarrow> (exn + 'a) \<times> fleet" where
  "wire op fates clks env k s =
     (let (t, d) = env k s
      in case fates k of
           Delivered \<Rightarrow> (Inr (fst (op (clks k) d)), (t, snd (op (clks k) d)))
         | Dropped_before \<Rightarrow> (Inl reset_by_peer, (t, d))
         | Dropped_after \<Rightarrow> (Inl reset_by_peer, (t, snd (op (clks k) d))))"

locale retryable =
  fixes sha :: "json \<Rightarrow> string"
    and op :: "(nat \<Rightarrow> time) \<Rightarrow> db \<Rightarrow> 'a \<times> db"
    and settled :: "'a \<Rightarrow> bool"
    and committed :: "db \<Rightarrow> bool"
  assumes settles: "fleet_reachable sha s \<Longrightarrow> op clk (snd s) = (a, d') \<Longrightarrow> settled a \<Longrightarrow>
      committed d'"
    and stays: "fleet_reachable sha s \<Longrightarrow> committed (snd s) \<Longrightarrow> (fleet_step sha)\<^sup>*\<^sup>* s t \<Longrightarrow> committed (snd t)"
    and repeats: "fleet_reachable sha s \<Longrightarrow> committed (snd s) \<Longrightarrow>
      snd (op clk (snd s)) = snd s \<and> settled (fst (op clk (snd s)))"
begin

lemma try_again:
  assumes "fleet_reachable sha s" and "committed (snd s)"
    and env: "\<And>k s. (fleet_step sha)\<^sup>*\<^sup>* s (env k s)"
    and w: "wire op fates clks env k s = (r, t)"
  shows "t = env k s \<and> fleet_reachable sha t \<and> committed (snd t) \<and> (\<forall>a. r = Inr a \<longrightarrow> settled a)"
proof -
  have "fleet_reachable sha (env k s)" using store_runs.reach_steps [OF env assms(1)] .
  moreover from this have "committed (snd (env k s))" using stays assms(1,2) env by blast
  ultimately show ?thesis
    using w repeats [of "env k s"]
    by (cases "fates k") (auto simp: wire_def Let_def split_beta)
qed

text \<open>Once committed, whatever the remaining tries meet, only the rest of the fleet moves the database.\<close>

lemma ride_repeats:
  assumes "fleet_reachable sha s" and "committed (snd s)"
    and env: "\<And>k s. (fleet_step sha)\<^sup>*\<^sup>* s (env k s)"
    and "ride fuel (wire op fates clks env) clock deadline delay k s = Some (r, t)"
  shows "(fleet_step sha)\<^sup>*\<^sup>* s t \<and> (\<forall>a. r = Inr a \<longrightarrow> settled a)"
  using assms(1,2,4)
proof (induction fuel arbitrary: delay k s)
  case (Suc fuel)
  obtain x u where w: "wire op fates clks env k s = (x, u)" by (cases "wire op fates clks env k s")
  note u = try_again [OF Suc.prems(1,2) env w]
  show ?case
  proof (cases "Some (r, t) = Some (x, u)")
    case True
    then show ?thesis using u env by auto
  next
    case False
    then have "(fleet_step sha)\<^sup>*\<^sup>* u t \<and> (\<forall>a. r = Inr a \<longrightarrow> settled a)"
      using Suc.prems(3) w u by (intro Suc.IH) (auto split: sum.splits if_splits)
    then show ?thesis using u env [of s k] by (auto intro: rtranclp_trans)
  qed
qed simp

end

text \<open>An attempt that ended no longer holds its job.\<close>

lemma ended_not_held:
  assumes "db_inv now d" and "ended_by i n e d"
  shows "\<forall>j \<in> set (jobs d). \<not> holds i n j"
  using current_open [OF assms(1)] assms(2) by (fastforce simp: ended_by_def holds_def)

lemma ended_by_stays:
  "fleet_reachable sha s \<Longrightarrow> ended_by i n e (snd s) \<Longrightarrow> (fleet_step sha)\<^sup>*\<^sup>* s t \<Longrightarrow> ended_by i n e (snd t)"
  using run_endings_kept by (fastforce simp: endings_kept_def)

lemma reachable_inv': "fleet_reachable sha s \<Longrightarrow> db_inv (fst s) (snd s)"
  using reachable_inv [of sha "fst s" "snd s"] by simp

lemma ended_by_update: 
  assumes "a \<in> set (attempts d)" and "a_job_id a = i" and "a_attempt a = n"
    and "\<And>a. a_job_id (g a) = a_job_id a \<and> a_attempt (g a) = a_attempt a \<and> a_ended_by (g a) = Some e"
  shows "ended_by i n e (update_attempt i n g d)"
proof -
  have "g a \<in> set (attempts (update_attempt i n g d))"
    using assms(1-3) by (auto simp: update_attempt_def image_iff)
  then show ?thesis using assms by (auto simp: ended_by_def)
qed

lemma finish_cancelled_ends:
  assumes "finish_cancelled clk i n d = (True, d')"
  shows "ended_by i n Ended_cancelled d'"
  using assms ended_by_update [where e = Ended_cancelled and i = i and n = n]
  by (auto simp: finish_cancelled_def finish_cancelled_sql_def split: option.splits prod.splits bool.splits)

interpretation cancelling: retryable sha "\<lambda>clk. finish_cancelled clk i n" "\<lambda>ok. ok" "ended_by i n Ended_cancelled"
  for sha i n
proof unfold_locales
  fix s clk assume r: "fleet_reachable sha s" and e: "ended_by i n Ended_cancelled (snd s)"
  have "find (\<lambda>j. holds i n j \<and> P j) (jobs (snd s)) = None" for P
    using ended_not_held [OF reachable_inv' [OF r] e] by (auto simp: find_None_iff)
  then show "snd (finish_cancelled clk i n (snd s)) = snd s \<and> fst (finish_cancelled clk i n (snd s))"
    using e by (simp add: finish_cancelled_def finish_cancelled_sql_def)
qed (auto intro: finish_cancelled_ends ended_by_stays)

lemma publish_commits:
  assumes "publish clk i n w v body d = (True, d')"
  shows "\<exists>r \<in> set (results d'). same_result i n w v body r"
  using assms by (auto simp: publish_def Let_def same_result_def split: option.splits if_splits)

lemma published_not_held:
  assumes "db_inv now d" and "\<exists>r \<in> set (results d). same_result i n w v body r"
  shows "find (holds i n) (jobs d) = None"
  using assms held_no_result by (fastforce simp: find_None_iff same_result_def)

interpretation publishing: retryable sha "\<lambda>clk. publish clk i n w v body" "\<lambda>ok. ok"
  "\<lambda>d. \<exists>r \<in> set (results d). same_result i n w v body r" for sha i n w v body
proof unfold_locales
  fix s clk assume r: "fleet_reachable sha s" and e: "\<exists>r \<in> set (results (snd s)). same_result i n w v body r"
  show "snd (publish clk i n w v body (snd s)) = snd s \<and> fst (publish clk i n w v body (snd s))"
    using published_not_held [OF reachable_inv' [OF r] e] e by (auto simp: publish_def same_result_def)
next
  fix s t assume "fleet_reachable sha s" "(fleet_step sha)\<^sup>*\<^sup>* s t"
    and e: "\<exists>r \<in> set (results (snd s)). same_result i n w v body r"
  then obtain rs where "results (snd t) = results (snd s) @ rs"
    using run_grown grown_def by blast
  then show "\<exists>r \<in> set (results (snd t)). same_result i n w v body r" using e by auto
qed (auto dest: publish_commits)

lemma option_listing_Nil:
  "[(g a, h m). a \<leftarrow> xs, Some m \<leftarrow> [f a]] = [] \<longleftrightarrow> (\<forall>a \<in> set xs. f a = None)"
  by (induction xs) (auto split: option.splits)

lemma release_ends:
  assumes "release clk i n err retry d = (Some s, d')"
  shows "ended_by i n Released d'"
proof -
  let ?c = "\<lambda>j. holds i n j \<and> sql_gt (j_lease_expires_at j) (clk 0)"
  let ?moved = "map (end_job (clk 0) err retry) (filter ?c (jobs d))"
  let ?of = "\<lambda>a. find (\<lambda>m. j_id m = a_job_id a \<and> j_attempt m = a_attempt a) ?moved"
  have hit: "a_job_id a = i \<and> a_attempt a = n" if "?of a = Some m" for a m
    using find_Some_mem [OF that] by (auto simp: holds_def end_job_def)
  obtain rows e where r: "end_attempts ?c Released (clk 0) err retry d = (rows, e)" by fastforce
  show ?thesis
  proof (cases rows)
    case Nil
    then show ?thesis using assms r by (auto simp: release_def split: if_splits)
  next
    case (Cons x xs)
    then have d': "d' = e" using assms r by (simp add: release_def)
    have "fst (end_attempts ?c Released (clk 0) err retry d) \<noteq> []" using r Cons by simp
    then obtain a m where a: "a \<in> set (attempts d)" "?of a = Some m"
      unfolding end_attempts_def Let_def fst_conv option_listing_Nil by auto
    have "attempts e = map (\<lambda>a. if ?of a \<noteq> None
        then a\<lparr>a_ended_at := Some (clk 0), a_ended_by := Some Released, a_error := Some err\<rparr> else a) (attempts d)"
      using r by (auto simp: end_attempts_def Let_def)
    then show ?thesis
      using a hit [OF a(2)] unfolding d' ended_by_def
      by (intro bexI [of _ "a\<lparr>a_ended_at := Some (clk 0), a_ended_by := Some Released, a_error := Some err\<rparr>"]) auto
  qed
qed

interpretation releasing: retryable sha "\<lambda>clk. release clk i n err retry" "\<lambda>s. s \<noteq> None" "ended_by i n Released"
  for sha i n err retry
proof unfold_locales
  fix s clk assume r: "fleet_reachable sha s" and e: "ended_by i n Released (snd s)"
  note inv = reachable_inv' [OF r]
  have "end_attempts (\<lambda>j. holds i n j \<and> P j) x t err retry (snd s) = ([], snd s)" for P x t
    using ended_not_held [OF inv e] by (auto simp: end_attempts_def Let_def filter_empty_conv cong: map_cong)
  moreover have "get_job i (snd s) \<noteq> None"
    using e inv_results(4) [OF inv] get_job_mem [OF inv_tables [OF inv]]
    by (fastforce simp: ended_by_def)
  ultimately show "snd (release clk i n err retry (snd s)) = snd s \<and> fst (release clk i n err retry (snd s)) \<noteq> None"
    using e by (auto simp: release_def)
qed (auto intro: release_ends ended_by_stays)

text \<open>
  C6. A lost answer costs nothing: once a result was accepted, making the publish again through
  any number of dropped connections, with the rest of the fleet running in between, never changes
  the database, and an answer that does arrive is again that it was accepted.
\<close>

theorem publish_rides_through:
  assumes "fleet_reachable sha (now, d)" and "claimed_by i n w d" and "during now now' clk"
    and "publish clk i n w v body d = (True, d')"
    and "\<And>k s. (fleet_step sha)\<^sup>*\<^sup>* s (env k s)"
    and "ride_through fuel (wire (\<lambda>clk. publish clk i n w v body) fates clks env) clock started seconds (now', d')
         = Some (r, t)"
  shows "(fleet_step sha)\<^sup>*\<^sup>* (now', d') t \<and> (\<forall>ok. r = Inr ok \<longrightarrow> ok)"
proof -
  have "fleet_step sha (now, d) (now', d')"
    using step_publish [OF assms(3,2), of sha v body] assms(4) by simp
  then have "fleet_reachable sha (now', d')" using assms(1) by (rule reach_step [rotated])
  moreover have "\<exists>r \<in> set (results (snd (now', d'))). same_result i n w v body r"
    using publish_commits [OF assms(4)] by simp
  ultimately show ?thesis
    using assms(5) assms(6) [unfolded ride_through_def] by (rule publishing.ride_repeats)
qed

theorem publish_rides_through_witness:
  "\<exists>t. ride_through 3 (wire (\<lambda>clk. publish clk 1 2 ''w2'' Outcome_succeeded (JObj []))
       (\<lambda>k. if k = 0 then Dropped_after else Delivered) (\<lambda>_ _. 60000000) (\<lambda>_ s. s)) of_nat 0 60
       (50000002, demo_published) = Some (Inr True, t) \<and> (fleet_step demo_sha)\<^sup>*\<^sup>* (50000002, demo_published) t"
proof -
  let ?ride = "ride_through 3 (wire (\<lambda>clk. publish clk 1 2 ''w2'' Outcome_succeeded (JObj []))
       (\<lambda>k. if k = 0 then Dropped_after else Delivered) (\<lambda>_ _. 60000000) (\<lambda>_ s. s)) of_nat 0 60
       (50000002, demo_published)"
  have "map_option fst ?ride = Some (Inr True)" by code_simp
  then obtain t where t: "?ride = Some (Inr True, t)" by auto
  have "claimed_by 1 2 ''w2'' demo_leased" by code_simp
  moreover have "fst (publish (\<lambda>_. 50000002) 1 2 ''w2'' Outcome_succeeded (JObj []) demo_leased)" by code_simp
  then have "publish (\<lambda>_. 50000002) 1 2 ''w2'' Outcome_succeeded (JObj []) demo_leased = (True, demo_published)"
    by (simp add: demo_published_def prod_eq_iff)
  ultimately show ?thesis
    using publish_rides_through [OF demo_leased_reachable _ during_const _ _ t] t by auto
qed

end
