(* ===== verification/Fleet_Queue.thy ===== *)
theory Fleet_Queue
  imports Fleet_Connections
begin

text \<open>
  The store as a queue: a batch submitted twice under one key is one batch, the oldest job that may
  run is claimed first and no attempt is handed out twice, reaping ends exactly the leases that ran
  out, a retried job waits its backoff out, and a batch's status counts its jobs.
\<close>

section \<open>Submitting once\<close>

lemma insort_key_map_same:
  "k (f x) = k x \<Longrightarrow> (\<And>y. y \<in> set ys \<Longrightarrow> k (f y) = k y) \<Longrightarrow>
     insort_key k (f x) (map f ys) = map f (insort_key k x ys)"
  by (induction ys) auto

lemma sort_key_map_same:
  "(\<And>x. x \<in> set xs \<Longrightarrow> k (f x) = k x) \<Longrightarrow> sort_key k (map f xs) = map f (sort_key k xs)"
proof (induction xs)
  case (Cons x xs)
  then have "sort_key k (map f xs) = map f (sort_key k xs)" by simp
  then show ?case using insort_key_map_same [of k f x "sort_key k xs"] Cons.prems by simp
qed simp

definition batch_listing :: "int \<Rightarrow> db \<Rightarrow> int list" where
  "batch_listing b d = map j_id (sort_key j_position (filter (\<lambda>j. j_batch_id j = b) (jobs d)))"

lemma evolved_listing:
  assumes "evolved d d'" and "b \<in> b_id ` set (batches d)"
  shows "batch_listing b d' = batch_listing b d"
proof -
  let ?in = "\<lambda>j. j_batch_id j = b"
  obtain f new where f: "jobs d' = map f (jobs d) @ new" "\<forall>j \<in> set (jobs d). evolves j (f j)"
    and "\<forall>j \<in> set new. j_batch_id j \<notin> b_id ` set (batches d)"
    using assms(1) unfolding evolved_def by blast
  then have new: "\<And>j. j \<in> set new \<Longrightarrow> j_batch_id j \<noteq> b" using assms(2) by blast
  have same: "j_id (f j) = j_id j \<and> j_position (f j) = j_position j \<and> (?in (f j) \<longleftrightarrow> ?in j)"
    if "j \<in> set (jobs d)" for j
    using evolves_outgrows [OF f(2) [rule_format, OF that]] by (simp add: outgrows_def same_request_def)
  have "filter ?in (map f (jobs d)) = map f (filter ?in (jobs d))"
    using same by (auto simp: filter_map comp_def cong: filter_cong intro!: arg_cong [where f = "map f"])
  moreover have "filter ?in new = []" using new by (simp add: filter_empty_conv)
  ultimately have "filter ?in (jobs d') = map f (filter ?in (jobs d))" by (simp add: f(1))
  then have "batch_listing b d' = map j_id (map f (sort_key j_position (filter ?in (jobs d))))"
    unfolding batch_listing_def using sort_key_map_same [of "filter ?in (jobs d)" j_position f] same
    by simp
  then show ?thesis using same by (simp add: batch_listing_def)
qed

definition batch_kept :: "string option \<Rightarrow> batch_row \<Rightarrow> int list \<Rightarrow> db \<Rightarrow> bool" where
  "batch_kept key b ids d \<longleftrightarrow>
     find (\<lambda>x. b_idempotency_key x = key) (batches d) = Some b \<and> batch_listing (b_id b) d = ids"

lemma find_append: "find P (xs @ ys) = (case find P xs of None \<Rightarrow> find P ys | Some x \<Rightarrow> Some x)"
  by (induction xs) auto

lemma step_batch_kept:
  assumes "fleet_step sha s t" and "fleet_inv s" and "batch_kept key b ids (snd s)"
  shows "batch_kept key b ids (snd t)"
proof -
  have ev: "evolved (snd s) (snd t)"
    using assms(1,2) fleet_step_evolved by (cases s; cases t) (auto simp: db_inv_def)
  then obtain bs where bs: "batches (snd t) = batches (snd s) @ bs" by (auto simp: evolved_def)
  have b: "find (\<lambda>x. b_idempotency_key x = key) (batches (snd s)) = Some b"
    and ids: "batch_listing (b_id b) (snd s) = ids"
    using assms(3) by (auto simp: batch_kept_def)
  have "b_id b \<in> b_id ` set (batches (snd s))" using find_Some_mem [OF b] by simp
  from evolved_listing [OF ev this] show ?thesis
    using b ids by (simp add: batch_kept_def bs find_append)
qed

lemma run_batch_kept:
  assumes "(fleet_step sha)\<^sup>*\<^sup>* s t" and "fleet_reachable sha s" and "batch_kept key b ids (snd s)"
  shows "batch_kept key b ids (snd t)"
  using assms(1)
proof (induction rule: rtranclp_induct)
  case (step t u)
  have "fleet_inv t" using store_runs.inv_reach [OF store_runs.reach_steps [OF step(1) assms(2)]] .
  then show ?case using step_batch_kept step by blast
qed (rule assms)

lemma new_rows_listing:
  assumes "batches_ok d"
  shows "filter (\<lambda>j. j_batch_id j = next_batch_id d)
           (jobs d @ new_rows sha t (next_batch_id d) m policy first js) =
         new_rows sha t (next_batch_id d) m policy first js"
proof -
  have "j_batch_id j \<noteq> next_batch_id d" if "j \<in> set (jobs d)" for j
    using assms that by (force simp: batches_ok_def)
  then have "filter (\<lambda>j. j_batch_id j = next_batch_id d) (jobs d) = []" by (simp add: filter_empty_conv)
  then show ?thesis by (auto simp: new_rows_def new_row_def filter_id_conv)
qed

lemma submit_keeps_batch:
  assumes "submit_batch sha t label js (Some key) m policy d = (Inr s, d')" and "batches_ok d"
  shows "\<exists>b. batch_kept (Some key) b (s_job_ids s) d' \<and> b_id b = s_batch_id s
    \<and> b_request_digest b = request_digest sha label js m policy"
proof (cases "find (\<lambda>b. b_idempotency_key b = Some key) (batches d)")
  case None
  then show ?thesis
    using assms
    by (auto simp: submit_batch_def Let_def batch_kept_def find_append batch_listing_def
        new_rows_listing [OF assms(2)] simp del: filter_append split: if_splits)
next
  case (Some b)
  then show ?thesis
    using assms(1)
    by (auto simp: submit_batch_def Let_def batch_kept_def batch_listing_def split: if_splits)
qed

text \<open>
  C8. Submitting is idempotent: however the fleet has moved since a keyed batch went in, submitting
  it again answers with the same batch and job ids and adds nothing, and any request with another
  digest under that key is refused with a conflict.
\<close>

theorem submit_once:
  assumes "fleet_reachable sha (now, d)" and "during now now' clk"
    and first: "submit_batch sha (clk 0) label js (Some key) m policy d = (Inr s, d')"
    and "(fleet_step sha)\<^sup>*\<^sup>* (now', d') (later, e)"
  shows "submit_batch sha t label js (Some key) m policy e =
           (Inr (s\<lparr>s_created := False\<rparr>), e\<lparr>next_batch_id := next_batch_id e + 1\<rparr>)
    \<and> (\<forall>label' js' m' policy'. js' \<noteq> [] \<longrightarrow> 1 \<le> m' \<longrightarrow>
         request_digest sha label' js' m' policy' \<noteq> request_digest sha label js m policy \<longrightarrow>
         submit_batch sha t label' js' (Some key) m' policy' e =
           (Inl (Idempotency_conflict key), e\<lparr>next_batch_id := next_batch_id e + 1\<rparr>))"
proof -
  have ok: "js \<noteq> []" "\<not> m < 1" using first by (auto simp: submit_batch_def split: if_splits)
  have "batches_ok d" using reachable_inv [OF assms(1)] by (simp add: db_inv_def)
  from submit_keeps_batch [OF first this] obtain b where
    b: "batch_kept (Some key) b (s_job_ids s) d'" "b_id b = s_batch_id s"
      "b_request_digest b = request_digest sha label js m policy" by auto
  have "fleet_step sha (now, d) (now', d')"
    using step_submit [OF assms(2), of sha d label js "Some key" m policy] first by simp
  then have "fleet_reachable sha (now', d')" using assms(1) by (rule reach_step [rotated])
  from run_batch_kept [OF assms(4) this] b(1) have "batch_kept (Some key) b (s_job_ids s) e" by simp
  then have "find (\<lambda>b. b_idempotency_key b = Some key) (batches e) = Some b"
    and "map j_id (sort_key j_position (filter (\<lambda>j. j_batch_id j = b_id b) (jobs e))) = s_job_ids s"
    by (simp_all add: batch_kept_def batch_listing_def)
  then show ?thesis
    using ok b(2,3) by (simp add: submit_batch_def)
qed

theorem submit_once_witness:
  "\<exists>s e. submit_batch demo_sha 99 ''demo'' [demo_job ''a'', demo_job ''b''] (Some ''k'') 2 DEFAULT_POLICY
     demo_submitted = (Inr s, e) \<and> s_job_ids s = [1, 2] \<and> \<not> s_created s"
proof -
  let ?first = "submit_batch demo_sha 0 ''demo'' [demo_job ''a'', demo_job ''b''] (Some ''k'') 2 DEFAULT_POLICY empty_db"
  have "fst ?first = Inr \<lparr>s_batch_id = 1, s_job_ids = [1, 2], s_created = True\<rparr>" by code_simp
  then have "?first = (Inr \<lparr>s_batch_id = 1, s_job_ids = [1, 2], s_created = True\<rparr>, demo_submitted)"
    by (simp add: demo_submitted_def prod_eq_iff)
  moreover have "fleet_reachable demo_sha (0, empty_db)" by (rule reach_init) simp
  ultimately show ?thesis
    using submit_once [OF _ during_const [OF order.refl] _ rtranclp.rtrancl_refl, of demo_sha 0 empty_db
        "''demo''" "[demo_job ''a'', demo_job ''b'']" "''k''" 2 DEFAULT_POLICY
        "\<lparr>s_batch_id = 1, s_job_ids = [1, 2], s_created = True\<rparr>" demo_submitted 99]
    by (intro exI [of _ "\<lparr>s_batch_id = 1, s_job_ids = [1, 2], s_created = False\<rparr>"]
        exI [of _ "demo_submitted\<lparr>next_batch_id := next_batch_id demo_submitted + 1\<rparr>"]) auto
qed

section \<open>Claiming in order\<close>

lemma oldest_claimable_least:
  assumes "oldest_claimable locked scan d = Some j"
  shows "j \<in> set (jobs d)" and "claimable locked scan j"
    and "\<And>k. k \<in> set (jobs d) \<Longrightarrow> claimable locked scan k \<Longrightarrow> j_id j \<le> j_id k"
proof -
  let ?F = "filter (claimable locked scan) (jobs d)"
  have j: "j = hd (sort_key j_id ?F)" and ne: "?F \<noteq> []"
    using assms by (auto simp: oldest_claimable_def split: list.splits)
  show "j \<in> set (jobs d)" and "claimable locked scan j" using oldest_claimable_Some [OF assms] .
  show "j_id j \<le> j_id k" if "k \<in> set (jobs d)" "claimable locked scan k" for k
    using hd_sort_key_least(2) [OF ne, of k j_id] that j by simp
qed

lemma oldest_claimable_None:
  "oldest_claimable locked scan d = None \<longleftrightarrow> (\<forall>j \<in> set (jobs d). \<not> claimable locked scan j)"
proof -
  let ?F = "filter (claimable locked scan) (jobs d)"
  have "oldest_claimable locked scan d = None \<longleftrightarrow> set (sort_key j_id ?F) = {}"
    by (simp add: oldest_claimable_def split: list.splits del: set_sort)
  then show ?thesis by auto
qed

text \<open>
  C9. Claiming is first-in first-out and never repeats itself: a claim finds nothing only when no
  queued job may run, else it takes the claimable job with the least id, gives it a lease and its
  next attempt within the budget, and that attempt was never handed out before.
\<close>

theorem claim_oldest:
  assumes "fleet_reachable sha (now, d)" and "claim locked scan clk w lease d = (r, d')"
  shows "case r of
      None \<Rightarrow> d' = d \<and> (\<forall>j \<in> set (jobs d). \<not> claimable locked scan j)
    | Some c \<Rightarrow> \<exists>j k. j \<in> set (jobs d) \<and> claimable locked scan j \<and> c_id c = j_id j
        \<and> (\<forall>i \<in> set (jobs d). claimable locked scan i \<longrightarrow> j_id j \<le> j_id i)
        \<and> c_attempt c = j_attempt j + 1 \<and> c_attempt c \<le> j_max_attempts j
        \<and> (\<forall>a \<in> set (attempts d). (a_job_id a, a_attempt a) \<noteq> (c_id c, c_attempt c))
        \<and> get_job (c_id c) d' = Some k \<and> holds (c_id c) (c_attempt c) k
        \<and> j_lease_expires_at k = Some (c_lease_expires_at c) \<and> j_worker_id k = Some w"
proof (cases "oldest_claimable locked scan d")
  case None
  then have "\<forall>j \<in> set (jobs d). \<not> claimable locked scan j" by (simp add: oldest_claimable_None)
  then show ?thesis using assms(2) None by (auto simp: claim_def)
next
  case (Some j)
  note inv = reachable_inv [OF assms(1)]
  note j = oldest_claimable_least [OF Some]
  have q: "j_state j = Queued" using j(2) by (simp add: claimable_def)
  have ok: "job_inv now d j" using inv j(1) by (rule inv_job)
  have fresh: "(a_job_id a, a_attempt a) \<noteq> (j_id j, j_attempt j + 1)" if a: "a \<in> set (attempts d)" for a
  proof
    assume eq: "(a_job_id a, a_attempt a) = (j_id j, j_attempt j + 1)"
    then have "a \<in> set (log_of (j_id j) d)" using a by (simp add: log_of_def)
    then have "a_attempt a \<in> set [1..j_attempt j]" using ok by (metis job_ok_def image_eqI list.set_map)
    then show False using eq by simp
  qed
  have "get_job (j_id j) d' = Some (claim_row clk w lease j)"
  proof -
    have "jobs d' = map (\<lambda>k. if j_id k = j_id j then claim_row clk w lease k else k) (jobs d)"
      using assms(2) by (simp add: claim_def Some Let_def update_job_def) (auto simp: update_job_def)
    then show ?thesis
      unfolding get_job_def using j(1) job_unique [OF inv_tables [OF inv] _ j(1)]
      by (intro find_unique) (auto simp: claim_row_def)
  qed
  moreover have "j_attempt j < j_max_attempts j" using ok q by (simp add: job_ok_def state_ok_def)
  ultimately show ?thesis
    using assms(2) Some fresh j
    by (auto simp: claim_def Let_def holds_def claim_row_def leased_states_def intro!: exI [of _ j])
qed

theorem claim_oldest_witness:
  "\<exists>j. j \<in> set (jobs demo_submitted) \<and> claimable {} (\<lambda>_. 10) j \<and> j_id j = 1"
proof -
  obtain r d' where c: "claim {} (\<lambda>_. 10) (\<lambda>_. 10) ''w1'' 30 demo_submitted = (r, d')" by fastforce
  have "map_option c_id (fst (claim {} (\<lambda>_. 10) (\<lambda>_. 10) ''w1'' 30 demo_submitted)) = Some 1" by code_simp
  then obtain x where "r = Some x" "c_id x = 1" using c by auto
  then show ?thesis using claim_oldest [OF demo_submitted_reachable c] by auto
qed

section \<open>Reaping and backing off\<close>

lemma sum_powi_mono: "0 \<le> b \<Longrightarrow> 1 \<le> m \<Longrightarrow> m \<le> n \<Longrightarrow> b * 2 powi (m - 1) \<le> b * (2 powi (n - 1) :: rat)"
  by (intro mult_left_mono power_int_increasing) auto

text \<open>
  The wait before a retry doubles with every attempt, starts at the policy's backoff, never goes
  down and never passes the cap.
\<close>

theorem backoff_doubles_to_cap:
  assumes "0 \<le> backoff_seconds retry"
  shows "(j_attempt j = 1 \<longrightarrow> backoff retry j = min (backoff_seconds retry) (backoff_cap_seconds retry))
    \<and> backoff retry j \<le> backoff_cap_seconds retry
    \<and> (1 \<le> j_attempt j \<and> j_attempt j \<le> j_attempt k \<longrightarrow> backoff retry j \<le> backoff retry k)
    \<and> (1 \<le> j_attempt j \<and> j_attempt k = j_attempt j + 1 \<longrightarrow>
         backoff retry k = min (2 * (backoff_seconds retry * 2 powi (j_attempt j - 1))) (backoff_cap_seconds retry))"
proof -
  have "backoff_seconds retry * 2 powi j_attempt j = 2 * (backoff_seconds retry * 2 powi (j_attempt j - 1))"
    by (simp add: power_int_diff)
  then show ?thesis
    using sum_powi_mono [OF assms, of "j_attempt j" "j_attempt k"]
    by (auto simp: backoff_def min_def)
qed

definition numbered :: "int \<Rightarrow> job_row" where
  "numbered n = (new_row demo_sha 0 1 9 DEFAULT_POLICY 1 0 (demo_job ''a''))\<lparr>j_attempt := n\<rparr>"

theorem backoff_doubles_to_cap_witness:
  "backoff DEFAULT_RETRY (numbered 3) = 8 \<and> backoff DEFAULT_RETRY (numbered 9) \<le> 60"
proof
  show "backoff DEFAULT_RETRY (numbered 3) = 8"
    by (simp add: backoff_def DEFAULT_RETRY_def numbered_def)
  show "backoff DEFAULT_RETRY (numbered 9) \<le> 60"
    using backoff_doubles_to_cap [of DEFAULT_RETRY "numbered 9" "numbered 9"]
    by (simp add: DEFAULT_RETRY_def)
qed

lemma distinct_listing:
  assumes "\<And>a b. a \<in> set xs \<Longrightarrow> b \<in> set xs \<Longrightarrow> f a \<noteq> None \<Longrightarrow> f b \<noteq> None \<Longrightarrow> g a = g b \<Longrightarrow> a = b"
    and "distinct xs"
  shows "distinct (map fst [(g a, h m). a \<leftarrow> xs, Some m \<leftarrow> [f a]])
    \<and> set (map fst [(g a, h m). a \<leftarrow> xs, Some m \<leftarrow> [f a]]) = g ` {a \<in> set xs. f a \<noteq> None}"
  using assms
proof (induction xs)
  case (Cons x xs)
  have IH: "distinct (map fst [(g a, h m). a \<leftarrow> xs, Some m \<leftarrow> [f a]])
    \<and> set (map fst [(g a, h m). a \<leftarrow> xs, Some m \<leftarrow> [f a]]) = g ` {a \<in> set xs. f a \<noteq> None}"
    using Cons.prems by (intro Cons.IH) auto
  show ?case
  proof (cases "f x")
    case None
    then have "{a \<in> set (x # xs). f a \<noteq> None} = {a \<in> set xs. f a \<noteq> None}" by auto
    with IH show ?thesis by (simp add: None)
  next
    case (Some m)
    then have "g x \<notin> g ` {a \<in> set xs. f a \<noteq> None}" using Cons.prems(1) [of x] Cons.prems(2) by fastforce
    moreover have "{a \<in> set (x # xs). f a \<noteq> None} = insert x {a \<in> set xs. f a \<noteq> None}" using Some by auto
    ultimately show ?thesis using IH by (simp add: Some)
  qed
qed simp

definition lapsed :: "time \<Rightarrow> int set \<Rightarrow> job_row \<Rightarrow> bool" where
  "lapsed t locked j \<longleftrightarrow> leased j \<and> sql_le (j_lease_expires_at j) t \<and> j_id j \<notin> locked"

lemma end_attempts_listing:
  assumes inv: "db_inv now d" and c: "\<And>j. chosen j \<Longrightarrow> leased j"
  shows "distinct (map fst (fst (end_attempts chosen e t err retry d)))"
    and "set (map fst (fst (end_attempts chosen e t err retry d))) = j_id ` {j \<in> set (jobs d). chosen j}"
proof -
  let ?moved = "map (end_job t err retry) (filter chosen (jobs d))"
  let ?of = "\<lambda>a. find (\<lambda>m. j_id m = a_job_id a \<and> j_attempt m = a_attempt a) ?moved"
  have hit: "?of a \<noteq> None \<longleftrightarrow> (\<exists>j \<in> set (jobs d). chosen j \<and> j_id j = a_job_id a \<and> j_attempt j = a_attempt a)" for a
    unfolding not_None_eq [symmetric] find_None_all by (auto simp: end_job_def)
  have keys: "distinct (map (\<lambda>a. (a_job_id a, a_attempt a)) (attempts d))"
    using inv_keys [OF inv] by (simp add: keys_ok_def)
  then have "distinct (attempts d)" by (simp add: distinct_map)
  moreover have "a = b"
    if ab: "a \<in> set (attempts d)" "b \<in> set (attempts d)" "?of a \<noteq> None" "?of b \<noteq> None" "a_job_id a = a_job_id b" for a b
  proof -
    obtain j k where "j \<in> set (jobs d)" "k \<in> set (jobs d)" "j_id j = a_job_id a" "j_id k = a_job_id b"
      "j_attempt j = a_attempt a" "j_attempt k = a_attempt b"
      using ab(3,4) unfolding hit by blast
    then have "a_attempt a = a_attempt b"
      using job_unique [OF inv_tables [OF inv], of j k] ab(5) by simp
    then show ?thesis using keys ab(1,2,5) by (auto simp: distinct_map inj_on_def)
  qed
  ultimately have "distinct (map fst (fst (end_attempts chosen e t err retry d)))
    \<and> set (map fst (fst (end_attempts chosen e t err retry d))) = a_job_id ` {a \<in> set (attempts d). ?of a \<noteq> None}"
    unfolding end_attempts_def Let_def fst_conv by (intro distinct_listing) auto
  moreover have "a_job_id ` {a \<in> set (attempts d). ?of a \<noteq> None} = j_id ` {j \<in> set (jobs d). chosen j}"
  proof -
    have "\<exists>a \<in> set (attempts d). a_job_id a = j_id j \<and> a_attempt a = j_attempt j"
      if "j \<in> set (jobs d)" "chosen j" for j
      using current_in_log [OF inv_job [OF inv that(1)] leased_log(1) [OF inv_job [OF inv that(1)] c [OF that(2)]]] .
    then show ?thesis unfolding hit by (auto simp: image_iff) (metis, metis)
  qed
  ultimately show "distinct (map fst (fst (end_attempts chosen e t err retry d)))"
    and "set (map fst (fst (end_attempts chosen e t err retry d))) = j_id ` {j \<in> set (jobs d). chosen j}"
    by simp_all
qed

text \<open>
  C10. Reaping ends exactly the leases that ran out: it reports the ids of the jobs whose lease lapsed
  and whose row no one holds, in order, each once; each such job is queued again to wait its backoff
  out when it may be retried, and cancelled or dead-lettered when not, and every other job keeps
  its row.
\<close>

theorem reap_exact:
  assumes "fleet_reachable sha (now, d)" and "reap locked clk retry d = (ids, d')"
  shows "sorted ids \<and> distinct ids \<and> set ids = j_id ` {j \<in> set (jobs d). lapsed (clk 0) locked j}
    \<and> jobs d' = map (\<lambda>j. if lapsed (clk 0) locked j then end_job (clk 0) LEASE_EXPIRED retry j else j) (jobs d)
    \<and> (\<forall>j \<in> set (jobs d). lapsed (clk 0) locked j \<longrightarrow>
         (let k = end_job (clk 0) LEASE_EXPIRED retry j
          in if j_cancel_requested_at j \<noteq> None then j_state k = Cancelled
             else if j_attempt j < j_max_attempts j
             then j_state k = Queued \<and> j_available_at k = clk 0 + make_interval (backoff retry j)
             else j_state k = Dead_lettered))"
proof -
  have chosen: "(\<lambda>j. leased j \<and> sql_le (j_lease_expires_at j) (clk 0) \<and> j_id j \<notin> locked) = lapsed (clk 0) locked"
    by (auto simp: lapsed_def)
  obtain rows e where e: "end_attempts (lapsed (clk 0) locked) Lease_expired (clk 0) LEASE_EXPIRED retry d = (rows, e)"
    by fastforce
  then have r: "ids = sort (map fst rows)" "d' = e" using assms(2) by (simp_all add: reap_def chosen)
  have "jobs e = map (\<lambda>j. if lapsed (clk 0) locked j then end_job (clk 0) LEASE_EXPIRED retry j else j) (jobs d)"
    using e by (auto simp: end_attempts_def Let_def)
  moreover have "distinct (map fst rows)" "set (map fst rows) = j_id ` {j \<in> set (jobs d). lapsed (clk 0) locked j}"
    using end_attempts_listing [OF reachable_inv [OF assms(1)], of "lapsed (clk 0) locked" Lease_expired
        "clk 0" LEASE_EXPIRED retry] e by (simp_all add: lapsed_def)
  moreover have "let k = end_job (clk 0) LEASE_EXPIRED retry j
      in if j_cancel_requested_at j \<noteq> None then j_state k = Cancelled
         else if j_attempt j < j_max_attempts j
         then j_state k = Queued \<and> j_available_at k = clk 0 + make_interval (backoff retry j)
         else j_state k = Dead_lettered" for j
    by (simp add: end_job_def may_retry_def final_state_def Let_def)
  ultimately show ?thesis unfolding r by simp
qed

theorem reap_exact_witness: "fst (reap {} (\<lambda>_. 40000000) DEFAULT_RETRY demo_claimed) = [1]"
proof -
  obtain ids d' where r: "reap {} (\<lambda>_. 40000000) DEFAULT_RETRY demo_claimed = (ids, d')" by fastforce
  have "map j_id (filter (lapsed 40000000 {}) (jobs demo_claimed)) = [1]" by code_simp
  then have "set (map j_id (filter (lapsed 40000000 {}) (jobs demo_claimed))) = set [1]" by (rule arg_cong)
  then have "j_id ` {j \<in> set (jobs demo_claimed). lapsed 40000000 {} j} = {1}" by simp
  with reap_exact [OF demo_claimed_reachable r] have "sorted ids" "set ids = {1}" "distinct ids" by auto
  then have "ids = [1]" by (metis sorted_distinct_set_unique distinct_singleton sorted1 empty_set list.simps(15))
  then show ?thesis using r by simp
qed

section \<open>Counting a batch\<close>

lemma state_counts_total: "sum_list (map snd (state_counts js)) = length js"
proof -
  have "sum_list (map snd (state_counts js)) = (\<Sum>s \<in> set (map j_state js). count_list (map j_state js) s)"
    by (simp add: state_counts_def comp_def sum_list_distinct_conv_sum_set count_list_eq_length_filter
        filter_map eq_commute)
  then show ?thesis using sum_count_set [of "map j_state js" "set (map j_state js)"] by simp
qed

text \<open>
  A batch's status counts its jobs: the total is the number of its jobs, every state listed has
  the number of jobs in it, no state with jobs is left out, and the batch is done exactly when each of
  its jobs is in a final state. A batch the database does not have has no status.
\<close>

theorem batch_status_counts:
  "case batch_status b d of
     None \<Rightarrow> b \<notin> b_id ` set (batches d)
   | Some s \<Rightarrow> bs_batch_id s = b \<and> bs_total s = length (batch_jobs b d)
       \<and> (\<forall>(st, n) \<in> set (bs_counts s). n = length (filter (\<lambda>j. j_state j = st) (batch_jobs b d)))
       \<and> map fst (bs_counts s) = remdups (map j_state (filter (\<lambda>j. j_batch_id j = b) (jobs d)))
       \<and> (bs_done s \<longleftrightarrow> (\<forall>j \<in> set (batch_jobs b d). j_state j \<in> set FINAL_STATES))"
proof (cases "find (\<lambda>x. b_id x = b) (batches d)")
  case None
  then show ?thesis using find_None_all [of "\<lambda>x. b_id x = b" "batches d"] by (auto simp: batch_status_def)
next
  case (Some x)
  let ?js = "filter (\<lambda>j. j_batch_id j = b) (jobs d)"
  have len: "length (filter P (batch_jobs b d)) = length (filter P ?js)" for P
    by (simp add: batch_jobs_def filter_sort)
  have set: "set (batch_jobs b d) = set ?js" by (simp add: batch_jobs_def)
  have final: "s \<notin> set UNFINISHED_STATES \<longleftrightarrow> s \<in> set FINAL_STATES" for s
    by (cases s) (simp_all add: UNFINISHED_STATES_def chk_states)
  have counts: "\<forall>(st, n) \<in> set (state_counts ?js). n = length (filter (\<lambda>j. j_state j = st) (batch_jobs b d))"
    unfolding len by (auto simp: state_counts_def simp del: filter_filter)
  have keys: "map fst (state_counts ?js) = remdups (map j_state ?js)"
    by (simp add: state_counts_def comp_def)
  have "(\<forall>(s, _) \<in> set (state_counts ?js). s \<notin> set UNFINISHED_STATES) \<longleftrightarrow>
      (\<forall>s \<in> set (map fst (state_counts ?js)). s \<in> set FINAL_STATES)" by (auto simp: final)
  also have "\<dots> \<longleftrightarrow> (\<forall>j \<in> set (batch_jobs b d). j_state j \<in> set FINAL_STATES)" by (simp add: keys set)
  finally show ?thesis
    using len [of "\<lambda>_. True"] counts keys find_Some_mem [OF Some]
    unfolding batch_status_def Some by (simp add: Let_def state_counts_total)
qed

theorem batch_status_counts_witness:
  "\<exists>s. batch_status 1 demo_done = Some s \<and> bs_total s = 2 \<and> bs_done s"
proof -
  have "map_option bs_total (batch_status 1 demo_done) = Some 2" by code_simp
  then obtain s where s: "batch_status 1 demo_done = Some s" "bs_total s = 2" by auto
  have "\<forall>j \<in> set (batch_jobs 1 demo_done). j_state j \<in> set FINAL_STATES" by code_simp
  then show ?thesis using batch_status_counts [of 1 demo_done] s by simp
qed

end
