(* ===== verification/Fleet_Execution.thy ===== *)
theory Fleet_Execution
  imports Fleet_Store
begin

text \<open>
  How an attempt runs: the runner contract (\<^verbatim>\<open>fleet/runners.py\<close>), progress reports
  (\<^verbatim>\<open>fleet/progress.py\<close>), the process inside the task container (\<^verbatim>\<open>fleet/task.py\<close>) and the worker's
  side of it (\<^verbatim>\<open>fleet/execution.py\<close>). What crosses the container's boundary is text on its standard
  output; the decoder \<^verbatim>\<open>json.loads\<close> is the parameter \<open>loads\<close>, the encoder \<^verbatim>\<open>json.dumps\<close> the parameter
  \<open>dumps\<close>, and \<open>rep\<close> is \<^verbatim>\<open>repr\<close> of a value that is neither a string, a number nor a constant.
\<close>

section \<open>Runners and progress\<close>

record runner_outcome =
  ro_outcome :: outcome
  ro_body :: json

datatype runner_result = Runner_outcome runner_outcome | RunnerError string

definition runner_name :: "string \<Rightarrow> store_error + string \<times> string" where
  "runner_name path =
     (let (module, attribute) = partition_on (CHR '':'') path
      in if module = [] \<or> attribute = [] then Inl (Value_error path) else Inr (module, attribute))"

text \<open>The sink a reporting context installs: the events so far, or nothing outside a context.\<close>

definition report :: "json list option \<Rightarrow> json \<Rightarrow> json list option" where
  "report sink event = (case sink of None \<Rightarrow> None | Some events \<Rightarrow> Some (events @ [event]))"

fun outcome_name :: "outcome \<Rightarrow> string" where
  "outcome_name Outcome_succeeded = ''succeeded''"
| "outcome_name Outcome_failed = ''failed''"
| "outcome_name Outcome_escalated = ''escalated''"

definition outcome_of :: "string \<Rightarrow> outcome option" where
  "outcome_of s =
     (if s = ''succeeded'' then Some Outcome_succeeded else if s = ''failed'' then Some Outcome_failed
      else if s = ''escalated'' then Some Outcome_escalated else None)"

definition dump_outcome :: "runner_outcome \<Rightarrow> json" where
  "dump_outcome o' = JObj [(''outcome'', JStr (outcome_name (ro_outcome o'))), (''body'', ro_body o')]"

text \<open>\<^verbatim>\<open>RunnerOutcome.model_validate\<close>: a known outcome and a body that is an object.\<close>

definition validate_outcome :: "json \<Rightarrow> runner_outcome option" where
  "validate_outcome v =
     (case (obj_get v ''outcome'', obj_get v ''body'') of
        (Some (JStr s), Some b) \<Rightarrow>
          (if is_obj b then map_option (\<lambda>w. \<lparr>ro_outcome = w, ro_body = b\<rparr>) (outcome_of s) else None)
      | _ \<Rightarrow> None)"

section \<open>Inside the container\<close>

definition TAG :: string where
  "TAG = ''fleet''"

text \<open>\<^verbatim>\<open>Channel.send\<close>: one tagged object carrying the attempt's token.\<close>

definition message :: "string \<Rightarrow> string \<Rightarrow> (string \<times> json) list \<Rightarrow> json" where
  "message token kind data = JObj ((TAG, JStr kind) # (''token'', JStr token) # data)"

datatype run_end = Returned runner_outcome | Raised string string

text \<open>What \<^verbatim>\<open>_run_job\<close> sends for a run that reported \<open>events\<close>, and its exit code.\<close>

definition run_job :: "string \<Rightarrow> json list \<Rightarrow> json \<Rightarrow> run_end \<Rightarrow> json list \<times> int" where
  "run_job token events usage r =
     (let progress = map (\<lambda>e. message token ''progress'' [(''event'', e)]) events;
          used = message token ''usage'' [(''usage'', usage)]
      in case r of
           Raised kind what \<Rightarrow>
             (progress @ [used, message token ''error'' [(''error'', JStr (kind @ '': '' @ what))]], 1)
         | Returned v \<Rightarrow> (progress @ [used, message token ''result'' [(''result'', dump_outcome v)]], 0))"

text \<open>The parent of the job's process, as pid 1: whatever it waits for is reaped; the job's end is returned.\<close>

fun reap_until :: "int \<Rightarrow> (int \<times> int) list \<Rightarrow> int option" where
  "reap_until child [] = None"
| "reap_until child ((pid, status) # waits) =
     (if pid = child then Some (if status < 0 then 128 - status else status) else reap_until child waits)"

section \<open>What the task reported\<close>

record reports =
  rp_progress :: "json list"
  rp_usage :: json
  rp_result :: json
  rp_error :: "string option"
  rp_printed :: "string list"

definition no_reports :: reports where
  "no_reports = \<lparr>rp_progress = [], rp_usage = JNull, rp_result = JNull, rp_error = None, rp_printed = []\<rparr>"

definition carries :: "(string \<Rightarrow> json option) \<Rightarrow> (json \<Rightarrow> string) \<Rightarrow> string \<Rightarrow> string \<Rightarrow> json option" where
  "carries loads rep token line =
     (case loads line of
        None \<Rightarrow> None
      | Some m \<Rightarrow> if is_obj m \<and> py_str rep (get_or_none m ''token'') = token then Some m else None)"

definition take_report :: "(json \<Rightarrow> string) \<Rightarrow> json \<Rightarrow> reports \<Rightarrow> reports" where
  "take_report rep m r =
     (let tag = get_or_none m TAG
      in if tag = JStr ''progress'' \<and> is_obj (get_or_none m ''event'')
         then r\<lparr>rp_progress := rp_progress r @ [get_or_none m ''event'']\<rparr>
         else if tag = JStr ''usage'' then r\<lparr>rp_usage := get_or_none m ''usage''\<rparr>
         else if tag = JStr ''result'' then r\<lparr>rp_result := get_or_none m ''result''\<rparr>
         else if tag = JStr ''error'' then r\<lparr>rp_error := Some (py_str rep (get_or_none m ''error''))\<rparr>
         else r)"

definition read_line :: "(string \<Rightarrow> json option) \<Rightarrow> (json \<Rightarrow> string) \<Rightarrow> string \<Rightarrow> string \<Rightarrow> reports \<Rightarrow> reports" where
  "read_line loads rep token line r =
     (case carries loads rep token line of
        None \<Rightarrow> r\<lparr>rp_printed := rp_printed r @ [line]\<rparr>
      | Some m \<Rightarrow> take_report rep m r)"

definition read_reports :: "(string \<Rightarrow> json option) \<Rightarrow> (json \<Rightarrow> string) \<Rightarrow> string \<Rightarrow> string \<Rightarrow> reports" where
  "read_reports loads rep stdout token = fold (read_line loads rep token) (splitlines stdout) no_reports"

section \<open>The outcome of an attempt\<close>

definition LOG_TAIL_CHARS :: nat where
  "LOG_TAIL_CHARS = 16000"

definition PARTIAL_EVENTS :: nat where
  "PARTIAL_EVENTS = 50"

text \<open>\<^verbatim>\<open>xs[-n:]\<close> for a positive \<open>n\<close>.\<close>

definition tail :: "nat \<Rightarrow> 'a list \<Rightarrow> 'a list" where
  "tail n xs = drop (length xs - n) xs"

definition cut_short :: "string \<Rightarrow> execution_policy \<Rightarrow> json list \<Rightarrow> string \<Rightarrow> runner_outcome" where
  "cut_short failure policy progress logs =
     \<lparr>ro_outcome = Outcome_failed,
      ro_body = JObj
        [(''failure'', JStr failure), (''policy'', policy_json policy),
         (''partial'', JObj [(''events'', JInt (int (length progress))),
                             (''last'', JList (tail PARTIAL_EVENTS progress))]),
         (''logs'', JStr (tail LOG_TAIL_CHARS logs))]\<rparr>"

record attempted =
  at_result :: runner_result
  at_execution :: "json option"
  at_logs :: "string option"

text \<open>
  A run in the worker's own process: it reported \<open>events\<close>, and returned or raised; \<open>timeout\<close> says
  the exception was a \<^verbatim>\<open>TimeoutError\<close>, \<open>expired\<close> that the policy's deadline had passed.
\<close>

definition in_process_run :: "execution_policy \<Rightarrow> json list \<Rightarrow> run_end \<Rightarrow> bool \<Rightarrow> bool \<Rightarrow> attempted" where
  "in_process_run policy events r timeout expired =
     \<lparr>at_result =
        (case r of
           Returned v \<Rightarrow> Runner_outcome v
         | Raised kind what \<Rightarrow>
             if timeout \<and> expired then Runner_outcome (cut_short ''timeout'' policy events [])
             else RunnerError (kind @ '': '' @ what)),
      at_execution = None, at_logs = None\<rparr>"

text \<open>\<^verbatim>\<open>_result\<close>; \<open>None\<close> is the validation error of a result that is not a runner outcome.\<close>

definition last_line :: "string \<Rightarrow> string" where
  "last_line logs = (if strip logs = [] then ''no output'' else last (splitlines (strip logs)))"

definition task_result ::
  "execution_policy \<Rightarrow> reports \<Rightarrow> int \<Rightarrow> bool \<Rightarrow> bool \<Rightarrow> string \<Rightarrow> runner_result option" where
  "task_result policy r exit_code timed_out oom_killed logs =
     (if timed_out then Some (Runner_outcome (cut_short ''timeout'' policy (rp_progress r) logs))
      else if exit_code = 0 \<and> rp_result r \<noteq> JNull
      then map_option Runner_outcome (validate_outcome (rp_result r))
      else if oom_killed
      then Some (Runner_outcome (cut_short ''memory_limit'' policy (rp_progress r) logs))
      else (case rp_error r of
              Some e \<Rightarrow> Some (RunnerError e)
            | None \<Rightarrow> Some (RunnerError (''task container exited '' @ show_int exit_code @ '': '' @ last_line logs))))"

text \<open>
  How a container ended, as \<^verbatim>\<open>InContainer.run\<close> reads it back; \<open>ce_seconds\<close> is the time it took, rounded.
\<close>

record container_end =
  ce_stdout :: string
  ce_stderr :: string
  ce_exit_code :: int
  ce_timed_out :: bool
  ce_oom_killed :: bool
  ce_seconds :: rat
  ce_container :: string

definition execution_json ::
  "string \<Rightarrow> json \<Rightarrow> bool \<Rightarrow> execution_policy \<Rightarrow> reports \<Rightarrow> container_end \<Rightarrow> json" where
  "execution_json img image_id network policy r e = JObj
     [(''mode'', JStr ''container''), (''image'', JStr img), (''image_id'', image_id),
      (''container'', JStr (take 12 (ce_container e))), (''policy'', policy_json policy),
      (''network'', JStr (if network then ''egress'' else ''none'')),
      (''exit_code'', JInt (ce_exit_code e)), (''oom_killed'', JBool (ce_oom_killed e)),
      (''timed_out'', JBool (ce_timed_out e)),
      (''seconds'', JFloat (ce_seconds e)),
      (''usage'', rp_usage r), (''stdout_bytes'', JInt (int (length (ce_stdout e))))]"

definition container_run ::
  "(string \<Rightarrow> json option) \<Rightarrow> (json \<Rightarrow> string) \<Rightarrow> string \<Rightarrow> string \<Rightarrow> json \<Rightarrow> execution_policy \<Rightarrow> container_end
   \<Rightarrow> attempted option" where
  "container_run loads rep token img image_id policy e =
     (let r = read_reports loads rep (ce_stdout e) token;
          logs = concat (map (\<lambda>l. l @ [char_of (10 :: nat)]) (rp_printed r)) @ ce_stderr e
      in map_option
           (\<lambda>result. \<lparr>at_result = result,
              at_execution = Some (execution_json img image_id (egress policy \<noteq> []) policy r e),
              at_logs = Some (tail LOG_TAIL_CHARS logs)\<rparr>)
           (task_result policy r (ce_exit_code e) (ce_timed_out e) (ce_oom_killed e) logs))"

section \<open>Containers without a lease\<close>

record container =
  ct_id :: string
  ct_job :: string
  ct_attempt :: string

text \<open>The ids of the containers removed, in the order the daemon listed them.\<close>

definition not_alive :: "(int \<times> int) list \<Rightarrow> container \<Rightarrow> bool" where
  "not_alive alive c \<longleftrightarrow> (int (read_nat (ct_job c)), int (read_nat (ct_attempt c))) \<notin> set alive"

definition reap_orphans :: "container list \<Rightarrow> (int \<times> int) list \<Rightarrow> string list" where
  "reap_orphans containers alive = map ct_id (filter (not_alive alive) containers)"

definition container_name :: "string \<Rightarrow> claimed_job \<Rightarrow> string" where
  "container_name deployment c = ''fleet-'' @ deployment @ ''-'' @ show_int (c_id c) @ ''-'' @ show_int (c_attempt c)"

definition container_of :: "string \<Rightarrow> claimed_job \<Rightarrow> container" where
  "container_of i c = \<lparr>ct_id = i, ct_job = show_int (c_id c), ct_attempt = show_int (c_attempt c)\<rparr>"

section \<open>Only the task reports\<close>

lemma take_report_printed [simp]: "rp_printed (take_report rep m r) = rp_printed r"
  by (simp add: take_report_def Let_def)

lemma take_report_cong:
  "r\<lparr>rp_printed := p\<rparr> = s\<lparr>rp_printed := p\<rparr> \<Longrightarrow>
     (take_report rep m r)\<lparr>rp_printed := p\<rparr> = (take_report rep m s)\<lparr>rp_printed := p\<rparr>"
  by (cases r; cases s) (simp add: take_report_def Let_def)

lemma read_lines_authentic:
  "(fold (read_line loads rep token) ls r)\<lparr>rp_printed := []\<rparr> =
     (fold (read_line loads rep token) (filter (\<lambda>l. carries loads rep token l \<noteq> None) ls) s)\<lparr>rp_printed := []\<rparr>
   \<and> rp_printed (fold (read_line loads rep token) ls r) =
       rp_printed r @ filter (\<lambda>l. carries loads rep token l = None) ls"
  if "r\<lparr>rp_printed := []\<rparr> = s\<lparr>rp_printed := []\<rparr>"
  using that
proof (induction ls arbitrary: r s)
  case Nil
  then show ?case by simp
next
  case (Cons l ls)
  show ?case
  proof (cases "carries loads rep token l")
    case None
    have "(r\<lparr>rp_printed := rp_printed r @ [l]\<rparr>)\<lparr>rp_printed := []\<rparr> = s\<lparr>rp_printed := []\<rparr>"
      using Cons.prems by (cases r; cases s) simp
    from Cons.IH [OF this] show ?thesis by (simp add: None read_line_def)
  next
    case (Some m)
    from Cons.IH [OF take_report_cong [OF Cons.prems]] show ?thesis by (simp add: Some read_line_def)
  qed
qed


section \<open>What a run sends comes back\<close>

definition clean :: "string \<Rightarrow> bool" where
  "clean l \<longleftrightarrow> list_all (\<lambda>c. \<not> is_break c) l"

lemma splitlines_line:
  assumes "clean l"
  shows "splitlines (l @ char_of (10 :: nat) # s) = l # splitlines s"
proof -
  let ?nl = "char_of (10 :: nat) :: char"
  have nl: "is_break ?nl" by (simp add: is_break_def code_def)
  have "takeWhile (\<lambda>c. \<not> is_break c) (l @ ?nl # s) = l"
    using assms nl by (simp add: clean_def list_all_iff takeWhile_append2)
  moreover have "dropWhile (\<lambda>c. \<not> is_break c) (l @ ?nl # s) = ?nl # s"
    using assms nl by (simp add: clean_def list_all_iff dropWhile_append2)
  moreover have "drop_break (?nl # s) = s" by (cases s) (simp_all add: code_def)
  ultimately show ?thesis by (subst splitlines.simps) simp
qed

lemma splitlines_lines:
  "list_all clean ls \<Longrightarrow> splitlines (concat (map (\<lambda>l. l @ [char_of (10 :: nat)]) ls)) = ls"
proof (induction ls)
  case Nil
  then show ?case by (simp add: splitlines.simps)
next
  case (Cons l ls)
  then show ?case by (simp add: splitlines_line)
qed

definition written :: "(json \<Rightarrow> string) \<Rightarrow> json list \<Rightarrow> string" where
  "written dumps ms = concat (map (\<lambda>m. dumps m @ [char_of (10 :: nat)]) ms)"

lemma carries_message:
  "loads (dumps (message token kind data)) = Some (message token kind data) \<Longrightarrow>
     carries loads rep token (dumps (message token kind data)) = Some (message token kind data)"
  by (simp add: carries_def message_def get_or_none_def TAG_def)

lemma take_report_message:
  "is_obj e \<Longrightarrow> take_report rep (message token ''progress'' [(''event'', e)]) r = r\<lparr>rp_progress := rp_progress r @ [e]\<rparr>"
  "take_report rep (message token ''usage'' [(''usage'', u)]) r = r\<lparr>rp_usage := u\<rparr>"
  "take_report rep (message token ''result'' [(''result'', v)]) r = r\<lparr>rp_result := v\<rparr>"
  "take_report rep (message token ''error'' [(''error'', JStr x)]) r = r\<lparr>rp_error := Some x\<rparr>"
  by (simp_all add: take_report_def message_def get_or_none_def TAG_def)

lemma read_messages:
  assumes "\<forall>m \<in> set ms. (\<exists>kind data. m = message token kind data) \<and> clean (dumps m) \<and> loads (dumps m) = Some m"
  shows "read_reports loads rep (written dumps ms) token = fold (take_report rep) ms no_reports"
proof -
  have clean: "list_all clean (map dumps ms)" using assms by (simp add: list_all_iff)
  have "splitlines (written dumps ms) = map dumps ms"
    using splitlines_lines [OF clean] by (simp add: written_def comp_def)
  moreover have "fold (read_line loads rep token) (map dumps ms) r = fold (take_report rep) ms r" for r
    using assms
  proof (induction ms arbitrary: r)
    case (Cons m ms)
    then have "carries loads rep token (dumps m) = Some m" using carries_message [of loads dumps token] by force
    with Cons show ?case by (simp add: read_line_def)
  qed simp
  ultimately show ?thesis by (simp add: read_reports_def)
qed

lemma fold_progress:
  "list_all is_obj events \<Longrightarrow>
     fold (take_report rep) (map (\<lambda>e. message token ''progress'' [(''event'', e)]) events) r =
       r\<lparr>rp_progress := rp_progress r @ events\<rparr>"
  by (induction events arbitrary: r) (simp_all add: take_report_message)

lemma validate_dump: "is_obj (ro_body v) \<Longrightarrow> validate_outcome (dump_outcome v) = Some v"
  by (cases v; cases "ro_outcome v") (simp_all add: validate_outcome_def dump_outcome_def outcome_of_def)

text \<open>
  C15. What the task process sends is what the worker reads: for a decoder that reads the sent lines
  back, the progress, the usage and the outcome or error of the run come through the container's
  standard output unchanged, and a run that returned is classified as its own outcome, one
  that raised as an infrastructure error.
\<close>

theorem run_reports_back:
  assumes sent: "run_job token events usage r = (ms, exit_code)"
    and wire: "\<forall>m \<in> set ms. clean (dumps m) \<and> loads (dumps m) = Some m"
    and evs: "list_all is_obj events" and body: "\<forall>v. r = Returned v \<longrightarrow> is_obj (ro_body v)"
  shows "let rs = read_reports loads rep (written dumps ms) token
    in rp_progress rs = events \<and> rp_usage rs = usage \<and> rp_printed rs = []
       \<and> task_result policy rs exit_code False False logs =
           Some (case r of Returned v \<Rightarrow> Runner_outcome v | Raised kind what \<Rightarrow> RunnerError (kind @ '': '' @ what))"
proof -
  have "\<forall>m \<in> set ms. (\<exists>kind data. m = message token kind data) \<and> clean (dumps m) \<and> loads (dumps m) = Some m"
    using sent wire by (auto simp: run_job_def Let_def split: run_end.splits) blast+
  note read = read_messages [of ms token dumps loads rep, OF this]
  show ?thesis
  proof (cases r)
    case (Returned v)
    then have ms: "ms = map (\<lambda>e. message token ''progress'' [(''event'', e)]) events @
        [message token ''usage'' [(''usage'', usage)], message token ''result'' [(''result'', dump_outcome v)]]"
      and c: "exit_code = 0" using sent by (auto simp: run_job_def Let_def)
    have "read_reports loads rep (written dumps ms) token =
        no_reports\<lparr>rp_progress := events, rp_usage := usage, rp_result := dump_outcome v\<rparr>"
      unfolding read unfolding ms using evs by (simp add: fold_progress take_report_message no_reports_def)
    moreover have "dump_outcome v \<noteq> JNull" by (simp add: dump_outcome_def)
    ultimately show ?thesis
      using body Returned c by (simp add: Let_def no_reports_def task_result_def validate_dump)
  next
    case (Raised kind what)
    then have ms: "ms = map (\<lambda>e. message token ''progress'' [(''event'', e)]) events @
        [message token ''usage'' [(''usage'', usage)],
         message token ''error'' [(''error'', JStr (kind @ '': '' @ what))]]"
      using sent by (auto simp: run_job_def Let_def)
    have "read_reports loads rep (written dumps ms) token =
        no_reports\<lparr>rp_progress := events, rp_usage := usage, rp_error := Some (kind @ '': '' @ what)\<rparr>"
      unfolding read unfolding ms using evs by (simp add: fold_progress take_report_message no_reports_def)
    then show ?thesis using Raised by (simp add: Let_def no_reports_def task_result_def)
  qed
qed

definition demo_dumps :: "json \<Rightarrow> string" where
  "demo_dumps m = (if m = message ''t'' ''usage'' [(''usage'', JNull)] then ''u'' else ''r'')"

definition demo_loads :: "string \<Rightarrow> json option" where
  "demo_loads l =
     (if l = ''u'' then Some (message ''t'' ''usage'' [(''usage'', JNull)])
      else if l = ''r'' then Some (message ''t'' ''error'' [(''error'', JStr ''OSError: gone'')]) else None)"

theorem run_reports_back_witness:
  "task_result DEFAULT_POLICY (read_reports demo_loads (\<lambda>_. []) (written demo_dumps
     (fst (run_job ''t'' [] JNull (Raised ''OSError'' ''gone'')))) ''t'') 1 False False []
   = Some (RunnerError ''OSError: gone'')"
proof -
  obtain ms where s: "run_job ''t'' [] JNull (Raised ''OSError'' ''gone'') = (ms, 1)" "fst (run_job ''t'' [] JNull (Raised ''OSError'' ''gone'')) = ms"
    by (simp add: run_job_def Let_def)
  have "\<forall>m \<in> set ms. clean (demo_dumps m) \<and> demo_loads (demo_dumps m) = Some m"
    using s(2) by (auto simp: run_job_def Let_def demo_dumps_def demo_loads_def message_def clean_def is_break_def code_def)
  then show ?thesis using run_reports_back [OF s(1)] s(2) by (simp add: Let_def)
qed



lemma live_attempts_iff:
  "(i, n) \<in> set (live_attempts t d) \<longleftrightarrow>
     (\<exists>j \<in> set (jobs d). holds i n j \<and> sql_gt (j_lease_expires_at j) t)"
  unfolding live_attempts_def holds_def by auto

text \<open>
  Reaping orphans spares the living: of the containers this fleet started, those removed
  are exactly the ones whose attempt held no live lease when the store was asked, and
  a container's labels give back the job and attempt it was created for.
\<close>

theorem orphans_exact:
  assumes "\<forall>(i, c) \<in> set cs. 0 \<le> c_id c \<and> 0 \<le> c_attempt c"
  shows "reap_orphans (map (\<lambda>(i, c). container_of i c) cs) (live_attempts t d) =
    map fst (filter (\<lambda>(i, c). \<not> (\<exists>j \<in> set (jobs d). holds (c_id c) (c_attempt c) j
                                     \<and> sql_gt (j_lease_expires_at j) t)) cs)"
proof -
  have "not_alive (live_attempts t d) (container_of i c) \<longleftrightarrow>
      \<not> (\<exists>j \<in> set (jobs d). holds (c_id c) (c_attempt c) j \<and> sql_gt (j_lease_expires_at j) t)"
    if "(i, c) \<in> set cs" for i c
    using assms that live_attempts_iff by (fastforce simp: not_alive_def container_of_def show_int_def)
  then show ?thesis
    unfolding reap_orphans_def
    by (auto simp: filter_map comp_def case_prod_unfold container_of_def intro!: map_cong filter_cong)
qed

definition demo_claim :: "int \<Rightarrow> claimed_job" where
  "demo_claim i = \<lparr>c_id = i, c_attempt = 1, c_name = ''a'', c_payload = JNull, c_lease_expires_at = 30,
                   c_policy = DEFAULT_POLICY\<rparr>"

theorem orphans_exact_witness:
  "reap_orphans [container_of ''x'' (demo_claim 7)] (live_attempts 0 empty_db) = [''x'']"
  using orphans_exact [of "[(''x'', demo_claim 7)]" 0 empty_db] by (simp add: demo_claim_def empty_db_def)

end
