(* ===== verification/Fleet_Worker.thy ===== *)
theory Fleet_Worker
  imports Fleet_Connections Fleet_Execution
begin

text \<open>
  The fleet worker, \<^verbatim>\<open>fleet/worker.py\<close>: claim a job, run it while its lease is extended, publish what
  came of it, repeat. A worker's state is its counters and its view of the fleet: every store call
  first lets the other processes take any steps (\<open>env\<close>), then makes the call, or gives up on it with
  an error when its connection stays away. A call repeated by \<open>ride_through\<close> after a commit whose
  answer was lost is one of those steps and then the call. How long calls take in each
  kind (\<^verbatim>\<open>CallStats\<close>) is measurement and is not part of the state.
\<close>

section \<open>State and calls\<close>

record worker =
  w_time :: time
  w_db :: db
  w_calls :: nat
  w_reaped_at :: "seconds option"
  w_published :: nat
  w_rejected :: nat
  w_lost :: nat
  w_released :: nat
  w_cancelled :: nat
  w_stopped :: "string list"

record worker_config =
  worker_id :: string
  lease_seconds :: seconds
  reap_every_seconds :: seconds
  retry_with :: retry_policy
  min_poll_seconds :: seconds
  max_poll_seconds :: seconds
  in_containers :: bool

text \<open>The constructor's check on the heartbeat, a third of the lease unless it is given.\<close>

definition heartbeat_seconds :: "seconds \<Rightarrow> seconds option \<Rightarrow> store_error + seconds" where
  "heartbeat_seconds lease given =
     (let beat = (case given of None \<Rightarrow> lease / 3 | Some h \<Rightarrow> h)
      in if 0 < beat \<and> beat < lease then Inr beat
         else Inl (Value_error ''a heartbeat has to come sooner than the lease runs out''))"

text \<open>
  What surrounds the worker at its \<open>k\<close>-th call: the other processes, the clock readings of the
  statement after its start, the time it takes, whether it is given up, the rows locked by others,
  the readings rows are tested with, the worker's own clock, the containers the daemon lists; and of each attempt, how many heartbeats
  pass before its run ends and what it ends with.
\<close>

record surroundings =
  env :: "nat \<Rightarrow> fleet \<Rightarrow> fleet"
  reading :: "nat \<Rightarrow> nat \<Rightarrow> time"
  took :: "nat \<Rightarrow> time"
  gives_up :: "nat \<Rightarrow> exn option"
  locked_rows :: "nat \<Rightarrow> int set"
  scanned :: "nat \<Rightarrow> int \<Rightarrow> time"
  monotonic :: "nat \<Rightarrow> seconds"
  containers_listed :: "nat \<Rightarrow> container list"
  rounds :: "int \<Rightarrow> int \<Rightarrow> nat"
  ends_with :: "int \<Rightarrow> int \<Rightarrow> exn + attempted"

type_synonym 'a act = "worker \<Rightarrow> (exn + 'a) \<times> worker"

definition ret :: "'a \<Rightarrow> 'a act" where
  "ret a w = (Inr a, w)"

definition and_then :: "'a act \<Rightarrow> ('a \<Rightarrow> 'b act) \<Rightarrow> 'b act" where
  "and_then m f w = (case m w of (Inl e, w') \<Rightarrow> (Inl e, w') | (Inr a, w') \<Rightarrow> f a w')"

definition tally :: "(worker \<Rightarrow> worker) \<Rightarrow> unit act" where
  "tally f w = (Inr (), f w)"

definition db_call :: "surroundings \<Rightarrow> (nat \<Rightarrow> (nat \<Rightarrow> time) \<Rightarrow> db \<Rightarrow> 'a \<times> db) \<Rightarrow> 'a act" where
  "db_call E f w =
     (let k = w_calls w;
          (t, d) = env E k (w_time w, w_db w);
          (a, d') = f k (\<lambda>i. t + reading E k i) d
      in case gives_up E k of
           Some e \<Rightarrow> (Inl e, w\<lparr>w_time := t, w_db := d, w_calls := k + 1\<rparr>)
         | None \<Rightarrow> (Inr a, w\<lparr>w_time := t + took E k, w_db := d', w_calls := k + 1\<rparr>))"

section \<open>The worker's operations\<close>

definition add_published :: "worker \<Rightarrow> worker" where
  "add_published w = w\<lparr>w_published := w_published w + 1\<rparr>"

definition add_rejected :: "worker \<Rightarrow> worker" where
  "add_rejected w = w\<lparr>w_rejected := w_rejected w + 1\<rparr>"

definition add_lost :: "worker \<Rightarrow> worker" where
  "add_lost w = w\<lparr>w_lost := w_lost w + 1\<rparr>"

definition add_released :: "worker \<Rightarrow> worker" where
  "add_released w = w\<lparr>w_released := w_released w + 1\<rparr>"

definition add_cancelled :: "worker \<Rightarrow> worker" where
  "add_cancelled w = w\<lparr>w_cancelled := w_cancelled w + 1\<rparr>"

text \<open>
  Reaping, and on the timer also stopping the containers of attempts without a live lease: they are
  listed before the live attempts are read.
\<close>

definition stop_orphans :: "surroundings \<Rightarrow> worker_config \<Rightarrow> unit act" where
  "stop_orphans E C w =
     (if in_containers C
      then let listed = containers_listed E (w_calls w)
           in and_then (db_call E (\<lambda>k clk d. (live_attempts (clk 0) d, d)))
                (\<lambda>alive. tally (\<lambda>w. w\<lparr>w_stopped := w_stopped w @ reap_orphans listed alive\<rparr>)) w
      else ret () w)"

definition note_reaped :: "surroundings \<Rightarrow> unit act" where
  "note_reaped E w = tally (\<lambda>w. w\<lparr>w_reaped_at := Some (monotonic E (w_calls w))\<rparr>) w"

definition reap_lapsed :: "surroundings \<Rightarrow> worker_config \<Rightarrow> bool \<Rightarrow> unit act" where
  "reap_lapsed E C orphans =
     and_then (db_call E (\<lambda>k clk. reap (locked_rows E k) clk (retry_with C)))
       (\<lambda>_. if orphans then and_then (note_reaped E) (\<lambda>_. stop_orphans E C) else ret ())"

definition claim_job :: "surroundings \<Rightarrow> worker_config \<Rightarrow> claimed_job option act" where
  "claim_job E C =
     db_call E (\<lambda>k clk. claim (locked_rows E k) (scanned E k) clk (worker_id C) (lease_seconds C))"

text \<open>The end of a job whose cancel was requested; whether it was this worker's to end.\<close>

definition cancel_job :: "surroundings \<Rightarrow> claimed_job \<Rightarrow> bool act" where
  "cancel_job E c =
     and_then (db_call E (\<lambda>k clk. finish_cancelled clk (c_id c) (c_attempt c)))
       (\<lambda>ok. if ok then and_then (tally add_cancelled) (\<lambda>_. ret True) else ret False)"

definition release_job :: "surroundings \<Rightarrow> worker_config \<Rightarrow> claimed_job \<Rightarrow> string \<Rightarrow> unit act" where
  "release_job E C c error =
     and_then (db_call E (\<lambda>k clk. release clk (c_id c) (c_attempt c) error (retry_with C)))
       (\<lambda>state. if state = None then tally add_lost else tally add_released)"

text \<open>Running a job while its lease is extended: a lost lease or a requested cancel stops the run.\<close>

datatype run_answer = Lease_lost | Stopped_cancelled | Finished attempted

fun run_rounds :: "surroundings \<Rightarrow> worker_config \<Rightarrow> claimed_job \<Rightarrow> nat \<Rightarrow> run_answer act" where
  "run_rounds E C c 0 =
     (case ends_with E (c_id c) (c_attempt c) of
        Inl e \<Rightarrow> (\<lambda>w. (Inl e, w))
      | Inr a \<Rightarrow> ret (Finished a))"
| "run_rounds E C c (Suc left) =
     and_then (db_call E (\<lambda>k clk. heartbeat clk (c_id c) (c_attempt c) (lease_seconds C)))
       (\<lambda>b. case b of
              None \<Rightarrow> ret Lease_lost
            | Some b \<Rightarrow> if beat_cancel_requested b then ret Stopped_cancelled else run_rounds E C c left)"

definition run_claimed :: "surroundings \<Rightarrow> worker_config \<Rightarrow> claimed_job \<Rightarrow> run_answer act" where
  "run_claimed E C c = run_rounds E C c (rounds E (c_id c) (c_attempt c))"

definition publish_job :: "surroundings \<Rightarrow> worker_config \<Rightarrow> claimed_job \<Rightarrow> runner_outcome \<Rightarrow> unit act" where
  "publish_job E C c v =
     and_then (db_call E (\<lambda>k clk. publish clk (c_id c) (c_attempt c) (worker_id C) (ro_outcome v) (ro_body v)))
       (\<lambda>accepted.
          if accepted then tally add_published
          else and_then (db_call E (\<lambda>k clk d. (job_status (c_id c) d, d)))
                 (\<lambda>status. case status of
                      Some j \<Rightarrow> if j_state j = Cancelled then tally add_cancelled else tally add_rejected
                    | None \<Rightarrow> tally add_rejected))"

definition finish_run :: "surroundings \<Rightarrow> worker_config \<Rightarrow> claimed_job \<Rightarrow> run_answer \<Rightarrow> unit act" where
  "finish_run E C c answer =
     (case answer of
        Stopped_cancelled \<Rightarrow> and_then (cancel_job E c) (\<lambda>ok. if ok then ret () else tally add_lost)
      | Lease_lost \<Rightarrow> tally add_lost
      | Finished a \<Rightarrow>
          and_then
            (case at_execution a of
               None \<Rightarrow> ret ()
             | Some x \<Rightarrow> db_call E (\<lambda>k clk d. ((), record_execution (c_id c) (c_attempt c) x (at_logs a) d)))
            (\<lambda>_. case at_result a of
                   RunnerError e \<Rightarrow> release_job E C c e
                 | Runner_outcome v \<Rightarrow> publish_job E C c v))"

text \<open>One step of the worker; False when there was nothing to claim, even after reaping.\<close>

definition reap_due :: "surroundings \<Rightarrow> worker_config \<Rightarrow> worker \<Rightarrow> bool" where
  "reap_due E C w \<longleftrightarrow>
     (case w_reaped_at w of None \<Rightarrow> True
      | Some t \<Rightarrow> reap_every_seconds C \<le> monotonic E (w_calls w) - t)"

definition claim_after_reaping :: "surroundings \<Rightarrow> worker_config \<Rightarrow> claimed_job option act" where
  "claim_after_reaping E C =
     and_then (claim_job E C)
       (\<lambda>c. case c of
              Some j \<Rightarrow> ret (Some j)
            | None \<Rightarrow> and_then (reap_lapsed E C False) (\<lambda>_. claim_job E C))"

definition work_on :: "surroundings \<Rightarrow> worker_config \<Rightarrow> claimed_job \<Rightarrow> unit act" where
  "work_on E C c =
     and_then (db_call E (\<lambda>k clk. start clk (c_id c) (c_attempt c)))
       (\<lambda>started.
          if \<not> started then and_then (cancel_job E c) (\<lambda>ok. if ok then ret () else tally add_lost)
          else and_then (run_claimed E C c) (finish_run E C c))"

definition worker_step :: "surroundings \<Rightarrow> worker_config \<Rightarrow> bool act" where
  "worker_step E C w =
     and_then (if reap_due E C w then reap_lapsed E C True else ret ())
       (\<lambda>_. and_then (claim_after_reaping E C)
         (\<lambda>c. case c of
                None \<Rightarrow> ret False
              | Some j \<Rightarrow> and_then (work_on E C j) (\<lambda>_. ret True))) w"

text \<open>
  Working until stopped: \<open>stop k\<close> says whether a stop was asked for by turn \<open>k\<close>. The delays between
  idle polls double up to the cap. The fuel bounds the turns.
\<close>

fun worker_run ::
  "nat \<Rightarrow> surroundings \<Rightarrow> worker_config \<Rightarrow> bool \<Rightarrow> (nat \<Rightarrow> bool) \<Rightarrow> nat \<Rightarrow> seconds \<Rightarrow> worker
   \<Rightarrow> ((exn + nat) \<times> worker) option" where
  "worker_run 0 E C exit_when_idle stop k delay w = None"
| "worker_run (Suc fuel) E C exit_when_idle stop k delay w =
     (if stop k then Some (Inr (w_published w), w)
      else (case worker_step E C w of
              (Inl e, w') \<Rightarrow> Some (Inl e, w')
            | (Inr True, w') \<Rightarrow> worker_run fuel E C exit_when_idle stop (Suc k) (min_poll_seconds C) w'
            | (Inr False, w') \<Rightarrow>
                if exit_when_idle
                then (case db_call E (\<lambda>k clk d. (unfinished_jobs d, d)) w' of
                        (Inl e, w'') \<Rightarrow> Some (Inl e, w'')
                      | (Inr n, w'') \<Rightarrow>
                          if n = 0 then Some (Inr (w_published w''), w'')
                          else worker_run fuel E C exit_when_idle stop (Suc k)
                                 (min (delay * 2) (max_poll_seconds C)) w'')
                else worker_run fuel E C exit_when_idle stop (Suc k) (min (delay * 2) (max_poll_seconds C)) w'))"

section \<open>Claimants keep their attempts\<close>

definition attempts_kept :: "db \<Rightarrow> db \<Rightarrow> bool" where
  "attempts_kept d d' \<longleftrightarrow>
     (\<forall>a \<in> set (attempts d').
        (\<exists>b \<in> set (attempts d). a_job_id b = a_job_id a \<and> a_attempt b = a_attempt a \<and> a_worker_id b = a_worker_id a)
        \<or> (\<forall>j \<in> set (jobs d). j_id j = a_job_id a \<longrightarrow> j_attempt j < a_attempt a))"

lemma attempts_kept_map:
  assumes "attempts d' = map h (attempts d)"
    and "\<And>a. a_job_id (h a) = a_job_id a \<and> a_attempt (h a) = a_attempt a \<and> a_worker_id (h a) = a_worker_id a"
  shows "attempts_kept d d'"
  using assms by (force simp: attempts_kept_def)

lemma attempts_kept_same: "attempts d' = attempts d \<Longrightarrow> attempts_kept d d'"
  by (auto simp: attempts_kept_def)

lemma attempts_kept_update:
  assumes "\<And>a. a_job_id (g a) = a_job_id a \<and> a_attempt (g a) = a_attempt a \<and> a_worker_id (g a) = a_worker_id a"
    and "attempts e = attempts d"
  shows "attempts_kept d (update_attempt i n g e)"
  using assms
  by (intro attempts_kept_map [where h = "\<lambda>a. if a_job_id a = i \<and> a_attempt a = n then g a else a"])
     (auto simp: update_attempt_def)

lemma end_attempts_attempts_kept: "attempts_kept d (snd (end_attempts chosen e t err retry d))"
  unfolding end_attempts_def Let_def
  by (rule attempts_kept_map [where h = "\<lambda>a. if find (\<lambda>m. j_id m = a_job_id a \<and> j_attempt m = a_attempt a)
        (map (end_job t err retry) (filter chosen (jobs d))) \<noteq> None
      then a\<lparr>a_ended_at := Some t, a_ended_by := Some e, a_error := Some err\<rparr> else a"]) simp_all

lemma finish_cancelled_sql_attempts_kept: "attempts_kept d (snd (finish_cancelled_sql t i n d))"
  by (auto simp: finish_cancelled_sql_def attempts_kept_same intro!: attempts_kept_update split: option.splits)

lemma claim_attempts_kept:
  assumes "tables_ok d"
  shows "attempts_kept d (snd (claim locked scan clk w lease d))"
proof (cases "oldest_claimable locked scan d")
  case (Some j)
  have "attempts (snd (claim locked scan clk w lease d)) = attempts d @ [new_attempt clk w lease j]"
    by (simp add: claim_def Some Let_def)
  moreover have "k = j" if "k \<in> set (jobs d)" "j_id k = j_id j" for k
    using job_unique [OF assms that(1) oldest_claimable_Some(1) [OF Some] that(2)] .
  ultimately show ?thesis by (auto simp: attempts_kept_def new_attempt_def)
qed (simp add: claim_def attempts_kept_same)

lemma submit_attempts_kept: "attempts_kept d (snd (submit_batch sha t label js key m policy d))"
  by (rule attempts_kept_same) (simp add: submit_batch_def Let_def split: option.splits)

lemma publish_attempts_kept: "attempts_kept d (snd (publish clk i n w v body d))"
  using finish_cancelled_sql_attempts_kept [of d "clk 0" i n]
  by (auto simp: publish_def Let_def attempts_kept_same intro!: attempts_kept_update split: option.splits)

lemma step_attempts_kept:
  assumes "fleet_step sha (now, d) (now', d')" and "tables_ok d"
  shows "attempts_kept d d'"
  using assms(1)
proof (cases rule: fleet_step.cases)
  case (step_finish_cancelled clk i n)
  then show ?thesis
    using finish_cancelled_sql_attempts_kept [of d "clk 0" i n]
    by (auto simp: finish_cancelled_def split: prod.splits bool.splits)
next
  case (step_release clk i n error retry)
  then show ?thesis
    using end_attempts_attempts_kept [of d "\<lambda>j. holds i n j \<and> sql_gt (j_lease_expires_at j) (clk 0)" Released "clk 0" error retry]
    by (auto simp: release_def split: prod.splits list.splits)
next
  case (step_reap clk locked retry)
  then show ?thesis
    using end_attempts_attempts_kept [of d "\<lambda>j. leased j \<and> sql_le (j_lease_expires_at j) (clk 0) \<and> j_id j \<notin> locked"
        Lease_expired "clk 0" LEASE_EXPIRED retry]
    by (auto simp: reap_def split: prod.splits)
next
  case step_heartbeat
  then show ?thesis
    by (auto simp: heartbeat_def Let_def attempts_kept_same intro!: attempts_kept_update split: option.splits)
next
  case step_record
  then show ?thesis by (simp add: record_execution_def attempts_kept_update)
qed (simp_all add: attempts_kept_same submit_attempts_kept claim_attempts_kept [OF assms(2)] publish_attempts_kept
      start_def cancel_def split: option.splits)

text \<open>An attempt belongs to the worker that claimed it, and always will.\<close>

definition owned :: "int \<Rightarrow> int \<Rightarrow> string \<Rightarrow> fleet \<Rightarrow> bool" where
  "owned i n w s \<longleftrightarrow> claimed_by i n w (snd s) \<and> (\<exists>j \<in> set (jobs (snd s)). j_id j = i \<and> n \<le> j_attempt j)"

lemma owned_step:
  assumes "fleet_step sha s t" and "fleet_inv s" and "owned i n w s"
  shows "owned i n w t"
proof -
  have kept: "attempts_kept (snd s) (snd t)"
    using step_attempts_kept assms(1,2) by (cases s; cases t) (auto simp: db_inv_def)
  obtain j where j: "j \<in> set (jobs (snd s))" "j_id j = i" "n \<le> j_attempt j"
    using assms(3) by (auto simp: owned_def)
  have "a_worker_id a = w" if at: "a \<in> set (attempts (snd t))" "a_job_id a = i" "a_attempt a = n" for a
  proof -
    have "\<not> (\<forall>j \<in> set (jobs (snd s)). j_id j = a_job_id a \<longrightarrow> j_attempt j < a_attempt a)"
      using j at by force
    then obtain b where "b \<in> set (attempts (snd s))" "a_job_id b = a_job_id a" "a_attempt b = a_attempt a"
      "a_worker_id b = a_worker_id a"
      using bspec [OF kept [unfolded attempts_kept_def] at(1)] by auto
    then have "b \<in> set (attempts (snd s))" "a_job_id b = i" "a_attempt b = n" "a_worker_id b = a_worker_id a"
      using at by simp_all
    then show ?thesis using assms(3) by (simp add: owned_def claimed_by_def)
  qed
  moreover obtain k where "k \<in> set (jobs (snd t))" "outgrows j k"
    using step_grown [OF assms(1,2)] j(1) by (auto simp: grown_def)
  moreover from this have "j_id k = i \<and> n \<le> j_attempt k"
    using j by (simp add: outgrows_def same_request_def)
  ultimately show ?thesis unfolding owned_def claimed_by_def by blast
qed

lemma owned_run:
  assumes "(fleet_step sha)\<^sup>*\<^sup>* s t" and "fleet_reachable sha s" and "owned i n w s"
  shows "owned i n w t"
  using assms(1)
proof (induction rule: rtranclp_induct)
  case (step t u)
  have "fleet_inv t" using store_runs.inv_reach [OF store_runs.reach_steps [OF step(1) assms(2)]] .
  then show ?case using owned_step step by blast
qed (rule assms)

section \<open>A worker's calls are steps of the fleet\<close>

abbreviation fleet_of :: "worker \<Rightarrow> fleet" where
  "fleet_of w \<equiv> (w_time w, w_db w)"

text \<open>The other processes take steps of the fleet, and a call's readings fall within its time.\<close>

definition well_behaved :: "(json \<Rightarrow> string) \<Rightarrow> surroundings \<Rightarrow> bool" where
  "well_behaved sha E \<longleftrightarrow>
     (\<forall>k s. (fleet_step sha)\<^sup>*\<^sup>* s (env E k s)) \<and> (\<forall>k i. 0 \<le> reading E k i \<and> reading E k i \<le> took E k)"

definition runs :: "(json \<Rightarrow> string) \<Rightarrow> 'a act \<Rightarrow> (fleet \<Rightarrow> bool) \<Rightarrow> ('a \<Rightarrow> fleet \<Rightarrow> bool) \<Rightarrow> bool" where
  "runs sha m P Q \<longleftrightarrow>
     (\<forall>w r w'. fleet_reachable sha (fleet_of w) \<longrightarrow> P (fleet_of w) \<longrightarrow> m w = (r, w') \<longrightarrow>
        (fleet_step sha)\<^sup>*\<^sup>* (fleet_of w) (fleet_of w') \<and> (\<forall>a. r = Inr a \<longrightarrow> Q a (fleet_of w')))"

lemma runsI:
  assumes "\<And>w r w'. fleet_reachable sha (fleet_of w) \<Longrightarrow> P (fleet_of w) \<Longrightarrow> m w = (r, w') \<Longrightarrow>
     (fleet_step sha)\<^sup>*\<^sup>* (fleet_of w) (fleet_of w') \<and> (\<forall>a. r = Inr a \<longrightarrow> Q a (fleet_of w'))"
  shows "runs sha m P Q"
  using assms by (simp add: runs_def)

lemma runs_ret: "(\<And>s. P s \<Longrightarrow> Q a s) \<Longrightarrow> runs sha (ret a) P Q"
  by (auto simp: runs_def ret_def)

lemma runs_count:
  assumes "\<And>w. w_time (f w) = w_time w \<and> w_db (f w) = w_db w" and "\<And>s. P s \<Longrightarrow> Q () s"
  shows "runs sha (tally f) P Q"
  using assms by (auto simp: runs_def tally_def)

lemma runs_and_then:
  assumes "runs sha m P Q" and "\<And>a. runs sha (f a) (Q a) R"
  shows "runs sha (and_then m f) P R"
proof (rule runsI)
  fix w r w'
  assume reach: "fleet_reachable sha (fleet_of w)" and P: "P (fleet_of w)" and m: "and_then m f w = (r, w')"
  obtain x u where x: "m w = (x, u)" by (cases "m w")
  have u: "(fleet_step sha)\<^sup>*\<^sup>* (fleet_of w) (fleet_of u)" "\<forall>a. x = Inr a \<longrightarrow> Q a (fleet_of u)"
    using assms(1) reach P x unfolding runs_def by blast+
  show "(fleet_step sha)\<^sup>*\<^sup>* (fleet_of w) (fleet_of w') \<and> (\<forall>a. r = Inr a \<longrightarrow> R a (fleet_of w'))"
  proof (cases x)
    case (Inl e)
    then show ?thesis using m x u by (auto simp: and_then_def)
  next
    case (Inr a)
    then have "f a u = (r, w')" using m x by (simp add: and_then_def)
    then have "(fleet_step sha)\<^sup>*\<^sup>* (fleet_of u) (fleet_of w') \<and> (\<forall>a. r = Inr a \<longrightarrow> R a (fleet_of w'))"
      using assms(2) [of a] store_runs.reach_steps [OF u(1) reach] u(2) Inr unfolding runs_def by blast
    then show ?thesis using u(1) by auto
  qed
qed

lemma runs_weaken:
  assumes "runs sha m P Q" and "\<And>s. P' s \<Longrightarrow> P s" and "\<And>a s. Q a s \<Longrightarrow> Q' a s"
  shows "runs sha m P' Q'"
  using assms unfolding runs_def by blast

text \<open>A store call is a step; what it needs of the fleet has to survive the steps of the others.\<close>

lemma runs_db_call:
  assumes E: "well_behaved sha E"
    and stable: "\<And>s t. fleet_reachable sha s \<Longrightarrow> P s \<Longrightarrow> (fleet_step sha)\<^sup>*\<^sup>* s t \<Longrightarrow> P t"
    and call: "\<And>k t t' d clk. fleet_reachable sha (t, d) \<Longrightarrow> P (t, d) \<Longrightarrow> during t t' clk \<Longrightarrow>
      (fleet_step sha)\<^sup>*\<^sup>* (t, d) (t', snd (f k clk d)) \<and> Q (fst (f k clk d)) (t', snd (f k clk d))"
  shows "runs sha (db_call E f) P Q"
proof (rule runsI)
  fix w r w'
  assume reach: "fleet_reachable sha (fleet_of w)" and P: "P (fleet_of w)" and m: "db_call E f w = (r, w')"
  obtain t d where e: "env E (w_calls w) (fleet_of w) = (t, d)" by (cases "env E (w_calls w) (fleet_of w)")
  have steps: "(fleet_step sha)\<^sup>*\<^sup>* (fleet_of w) (t, d)" using E e unfolding well_behaved_def by metis
  have reach': "fleet_reachable sha (t, d)" using store_runs.reach_steps [OF steps reach] .
  have dur: "during t (t + took E (w_calls w)) (\<lambda>i. t + reading E (w_calls w) i)"
    using E by (auto simp: during_def well_behaved_def intro: order_trans [of 0 "reading E (w_calls w) 0"])
  note c = call [OF reach' stable [OF reach P steps] dur, of "w_calls w"]
  show "(fleet_step sha)\<^sup>*\<^sup>* (fleet_of w) (fleet_of w') \<and> (\<forall>a. r = Inr a \<longrightarrow> Q a (fleet_of w'))"
    using m e steps c by (auto simp: db_call_def Let_def split: option.splits prod.splits)
qed

section \<open>A worker's step is a run of the fleet\<close>

lemma runs_call:
  assumes "well_behaved sha E"
    and "\<And>k t t' d clk. during t t' clk \<Longrightarrow> (fleet_step sha)\<^sup>*\<^sup>* (t, d) (t', snd (f k clk d))"
  shows "runs sha (db_call E f) (\<lambda>_. True) (\<lambda>_ _. True)"
  by (rule runs_db_call [OF assms(1)]) (use assms(2) in auto)

lemma runs_owned:
  assumes "well_behaved sha E"
    and "\<And>k t t' d clk. during t t' clk \<Longrightarrow> claimed_by i n w d \<Longrightarrow> (fleet_step sha)\<^sup>*\<^sup>* (t, d) (t', snd (f k clk d))"
  shows "runs sha (db_call E f) (owned i n w) (\<lambda>_. owned i n w)"
proof (rule runs_db_call [OF assms(1)])
  show "owned i n w t" if "fleet_reachable sha s" "owned i n w s" "(fleet_step sha)\<^sup>*\<^sup>* s t" for s t
    using owned_run that by blast
  show "(fleet_step sha)\<^sup>*\<^sup>* (t, d) (t', snd (f k clk d)) \<and> owned i n w (t', snd (f k clk d))"
    if "fleet_reachable sha (t, d)" "owned i n w (t, d)" "during t t' clk" for k t t' d clk
  proof -
    have "(fleet_step sha)\<^sup>*\<^sup>* (t, d) (t', snd (f k clk d))"
      using assms(2) [OF that(3)] that(2) by (simp add: owned_def)
    then show ?thesis using owned_run that by blast
  qed
qed

lemma step_read: "during t t' clk \<Longrightarrow> (fleet_step sha)\<^sup>*\<^sup>* (t, d) (t', d)"
  by (rule r_into_rtranclp) (rule step_tick, simp add: during_def)

lemma claim_owned:
  assumes "fleet_reachable sha (t, d)" and "claim locked scan clk w lease d = (Some c, d')"
  shows "owned (c_id c) (c_attempt c) w (t', d')"
proof -
  note inv = reachable_inv [OF assms(1)]
  obtain j where old: "oldest_claimable locked scan d = Some j"
    using assms(2) by (auto simp: claim_def split: option.splits)
  have j: "j \<in> set (jobs d)" using oldest_claimable_Some [OF old] by simp
  have c: "c_id c = j_id j" "c_attempt c = j_attempt j + 1"
    and d': "attempts d' = attempts d @ [new_attempt clk w lease j]"
      "jobs d' = jobs (update_job (j_id j) (claim_row clk w lease) d)"
    using assms(2) by (auto simp: claim_def old Let_def)
  have "a_attempt a \<le> j_attempt j" if "a \<in> set (attempts d)" "a_job_id a = j_id j" for a
  proof -
    have "a_attempt a \<in> set (map a_attempt (log_of (j_id j) d))" using that by (simp add: log_of_def)
    moreover have "map a_attempt (log_of (j_id j) d) = [1..j_attempt j]"
      using inv_job [OF inv j] by (simp add: job_ok_def)
    ultimately show ?thesis by simp
  qed
  then have "claimed_by (c_id c) (c_attempt c) w d'"
    by (force simp: claimed_by_def c d' new_attempt_def)
  moreover have "claim_row clk w lease j \<in> set (jobs d')" using j by (auto simp: d' update_job_def)
  then have "\<exists>k \<in> set (jobs d'). j_id k = c_id c \<and> c_attempt c \<le> j_attempt k"
    by (rule bexI [rotated]) (simp add: c claim_row_def)
  ultimately show ?thesis by (simp add: owned_def)
qed

definition claim_kept :: "string \<Rightarrow> claimed_job option \<Rightarrow> fleet \<Rightarrow> bool" where
  "claim_kept w c s \<longleftrightarrow> (case c of None \<Rightarrow> True | Some c \<Rightarrow> owned (c_id c) (c_attempt c) w s)"

lemma runs_claim_job:
  assumes "well_behaved sha E"
  shows "runs sha (claim_job E C) (\<lambda>_. True) (claim_kept (worker_id C))"
  unfolding claim_job_def
proof (rule runs_db_call [OF assms])
  fix k t t' d clk
  assume r: "fleet_reachable sha (t, d)" and dur: "during t t' clk"
  let ?c = "claim (locked_rows E k) (scanned E k) clk (worker_id C) (lease_seconds C) d"
  have "fleet_step sha (t, d) (t', snd ?c)" using dur by (rule step_claim)
  moreover have "claim_kept (worker_id C) (fst ?c) (t', snd ?c)"
    using claim_owned [OF r, of "locked_rows E k" "scanned E k" clk "worker_id C" "lease_seconds C"]
    by (cases "fst ?c") (auto simp: claim_kept_def prod_eq_iff)
  ultimately show "(fleet_step sha)\<^sup>*\<^sup>* (t, d) (t', snd ?c) \<and> claim_kept (worker_id C) (fst ?c) (t', snd ?c)"
    by blast
qed simp_all

lemma runs_reap_lapsed:
  assumes E: "well_behaved sha E"
  shows "runs sha (reap_lapsed E C orphans) (\<lambda>_. True) (\<lambda>_ _. True)"
proof -
  have reap: "runs sha (db_call E (\<lambda>k clk. reap (locked_rows E k) clk (retry_with C))) (\<lambda>_. True) (\<lambda>_ _. True)"
    by (rule runs_call [OF E]) (blast intro: step_reap)
  have live: "runs sha (db_call E (\<lambda>k clk d. (live_attempts (clk 0) d, d))) (\<lambda>_. True) (\<lambda>_ _. True)"
    by (rule runs_call [OF E]) (simp add: step_read)
  have noted: "runs sha (note_reaped E) (\<lambda>_. True) (\<lambda>_ _. True)"
    by (auto simp: runs_def note_reaped_def tally_def)
  have "runs sha (and_then (db_call E (\<lambda>k clk d. (live_attempts (clk 0) d, d)))
      (\<lambda>alive. tally (\<lambda>w. w\<lparr>w_stopped := w_stopped w @ reap_orphans listed alive\<rparr>))) (\<lambda>_. True) (\<lambda>_ _. True)" for listed
    by (rule runs_and_then [OF live]) (rule runs_count, simp_all)
  then have stop: "runs sha (stop_orphans E C) (\<lambda>_. True) (\<lambda>_ _. True)"
    by (auto simp: runs_def stop_orphans_def Let_def ret_def)
  show ?thesis
    unfolding reap_lapsed_def
    by (rule runs_and_then [OF reap]) (simp add: runs_ret runs_and_then [OF noted stop])
qed

lemma runs_claim_after_reaping:
  assumes E: "well_behaved sha E"
  shows "runs sha (claim_after_reaping E C) (\<lambda>_. True) (claim_kept (worker_id C))"
  unfolding claim_after_reaping_def
proof (rule runs_and_then [OF runs_claim_job [OF E]])
  fix c
  have "runs sha (and_then (reap_lapsed E C False) (\<lambda>_. claim_job E C)) (\<lambda>_. True) (claim_kept (worker_id C))"
    by (rule runs_and_then [OF runs_reap_lapsed [OF E]]) (rule runs_claim_job [OF E])
  then show "runs sha (case c of None \<Rightarrow> and_then (reap_lapsed E C False) (\<lambda>_. claim_job E C) | Some j \<Rightarrow> ret (Some j))
      (claim_kept (worker_id C) c) (claim_kept (worker_id C))"
    by (cases c) (auto intro: runs_weaken runs_ret)
qed

text \<open>What a worker does with a job it claimed: the attempt stays its own throughout.\<close>

lemma runs_cancel_job:
  assumes E: "well_behaved sha E"
  shows "runs sha (cancel_job E c) (owned (c_id c) (c_attempt c) w) (\<lambda>_. owned (c_id c) (c_attempt c) w)"
  unfolding cancel_job_def
proof (rule runs_and_then)
  show "runs sha (db_call E (\<lambda>k clk. finish_cancelled clk (c_id c) (c_attempt c)))
      (owned (c_id c) (c_attempt c) w) (\<lambda>_. owned (c_id c) (c_attempt c) w)"
    by (rule runs_owned [OF E]) (blast intro: step_finish_cancelled)
  show "runs sha (if ok then and_then (tally add_cancelled) (\<lambda>_. ret True) else ret False)
      (owned (c_id c) (c_attempt c) w) (\<lambda>_. owned (c_id c) (c_attempt c) w)" for ok
    by (auto simp: add_cancelled_def intro!: runs_ret runs_and_then
        [where Q = "\<lambda>_. owned (c_id c) (c_attempt c) w"] runs_count)
qed

lemma runs_release_job:
  assumes E: "well_behaved sha E"
  shows "runs sha (release_job E C c err) (owned (c_id c) (c_attempt c) w) (\<lambda>_ _. True)"
  unfolding release_job_def
proof (rule runs_and_then)
  show "runs sha (db_call E (\<lambda>k clk. release clk (c_id c) (c_attempt c) err (retry_with C)))
      (owned (c_id c) (c_attempt c) w) (\<lambda>_. owned (c_id c) (c_attempt c) w)"
    by (rule runs_owned [OF E]) (blast intro: step_release)
  show "runs sha (if s = None then tally add_lost else tally add_released)
      (owned (c_id c) (c_attempt c) w) (\<lambda>_ _. True)" for s
    by (auto simp: add_lost_def add_released_def intro!: runs_count)
qed

lemma runs_run_rounds:
  assumes E: "well_behaved sha E"
  shows "runs sha (run_rounds E C c left) (owned (c_id c) (c_attempt c) w) (\<lambda>_. owned (c_id c) (c_attempt c) w)"
proof (induction left)
  case 0
  show ?case by (cases "ends_with E (c_id c) (c_attempt c)") (auto simp: runs_def ret_def)
next
  case (Suc left)
  show ?case
    unfolding run_rounds.simps
  proof (rule runs_and_then)
    show "runs sha (db_call E (\<lambda>k clk. heartbeat clk (c_id c) (c_attempt c) (lease_seconds C)))
        (owned (c_id c) (c_attempt c) w) (\<lambda>_. owned (c_id c) (c_attempt c) w)"
      by (rule runs_owned [OF E]) (blast intro: step_heartbeat)
    show "runs sha (case b of None \<Rightarrow> ret Lease_lost
          | Some b \<Rightarrow> if beat_cancel_requested b then ret Stopped_cancelled else run_rounds E C c left)
        (owned (c_id c) (c_attempt c) w) (\<lambda>_. owned (c_id c) (c_attempt c) w)" for b
      using Suc.IH by (cases b) (auto intro: runs_ret)
  qed
qed

lemma runs_publish_job:
  assumes E: "well_behaved sha E"
  shows "runs sha (publish_job E C c v) (owned (c_id c) (c_attempt c) (worker_id C)) (\<lambda>_ _. True)"
  unfolding publish_job_def
proof (rule runs_and_then)
  show "runs sha (db_call E (\<lambda>k clk. publish clk (c_id c) (c_attempt c) (worker_id C) (ro_outcome v) (ro_body v)))
      (owned (c_id c) (c_attempt c) (worker_id C)) (\<lambda>_. owned (c_id c) (c_attempt c) (worker_id C))"
    by (rule runs_owned [OF E]) (blast intro: step_publish)
  have status: "runs sha (db_call E (\<lambda>k clk d. (job_status (c_id c) d, d))) (\<lambda>_. True) (\<lambda>_ _. True)"
    by (rule runs_call [OF E]) (simp add: step_read)
  have counts: "runs sha (case s of Some j \<Rightarrow> if j_state j = Cancelled then tally add_cancelled else tally add_rejected
      | None \<Rightarrow> tally add_rejected) (\<lambda>_. True) (\<lambda>_ _. True)" for s
    by (auto simp: add_cancelled_def add_rejected_def intro!: runs_count split: option.splits)
  have "runs sha (and_then (db_call E (\<lambda>k clk d. (job_status (c_id c) d, d)))
      (\<lambda>s. case s of Some j \<Rightarrow> if j_state j = Cancelled then tally add_cancelled else tally add_rejected
           | None \<Rightarrow> tally add_rejected)) (\<lambda>_. True) (\<lambda>_ _. True)"
    by (rule runs_and_then [OF status counts])
  then show "runs sha (if accepted then tally add_published
      else and_then (db_call E (\<lambda>k clk d. (job_status (c_id c) d, d)))
        (\<lambda>s. case s of Some j \<Rightarrow> if j_state j = Cancelled then tally add_cancelled else tally add_rejected
             | None \<Rightarrow> tally add_rejected)) (owned (c_id c) (c_attempt c) (worker_id C)) (\<lambda>_ _. True)" for accepted
    by (auto simp: add_published_def intro!: runs_count intro: runs_weaken)
qed

lemma runs_finish_run:
  assumes E: "well_behaved sha E"
  shows "runs sha (finish_run E C c answer) (owned (c_id c) (c_attempt c) (worker_id C)) (\<lambda>_ _. True)"
proof (cases answer)
  case Lease_lost
  then show ?thesis by (auto simp: finish_run_def add_lost_def intro!: runs_count)
next
  case Stopped_cancelled
  then show ?thesis
    unfolding finish_run_def Stopped_cancelled run_answer.case
    by (intro runs_and_then [OF runs_cancel_job [OF E]])
       (auto simp: add_lost_def intro!: runs_count runs_ret)
next
  case (Finished a)
  let ?own = "owned (c_id c) (c_attempt c) (worker_id C)"
  have "runs sha (db_call E (\<lambda>k clk d. ((), record_execution (c_id c) (c_attempt c) x (at_logs a) d))) ?own (\<lambda>_. ?own)" for x
    by (rule runs_owned [OF E]) (auto simp: during_def intro!: step_record)
  then have "runs sha (case at_execution a of None \<Rightarrow> ret ()
      | Some x \<Rightarrow> db_call E (\<lambda>k clk d. ((), record_execution (c_id c) (c_attempt c) x (at_logs a) d))) ?own (\<lambda>_. ?own)"
    by (auto intro: runs_ret split: option.splits)
  moreover have "runs sha (case at_result a of RunnerError e \<Rightarrow> release_job E C c e
      | Runner_outcome v \<Rightarrow> publish_job E C c v) ?own (\<lambda>_ _. True)"
    using runs_release_job [OF E] runs_publish_job [OF E] by (cases "at_result a") simp_all
  ultimately show ?thesis unfolding finish_run_def Finished run_answer.case by (rule runs_and_then)
qed

lemma runs_work_on:
  assumes E: "well_behaved sha E"
  shows "runs sha (work_on E C c) (owned (c_id c) (c_attempt c) (worker_id C)) (\<lambda>_ _. True)"
  unfolding work_on_def
proof (rule runs_and_then)
  let ?own = "owned (c_id c) (c_attempt c) (worker_id C)"
  show "runs sha (db_call E (\<lambda>k clk. start clk (c_id c) (c_attempt c))) ?own (\<lambda>_. ?own)"
    by (rule runs_owned [OF E]) (blast intro: step_start)
  have "runs sha (and_then (cancel_job E c) (\<lambda>ok. if ok then ret () else tally add_lost)) ?own (\<lambda>_ _. True)"
    by (intro runs_and_then [OF runs_cancel_job [OF E]]) (auto simp: add_lost_def intro!: runs_count runs_ret)
  moreover have "runs sha (and_then (run_claimed E C c) (finish_run E C c)) ?own (\<lambda>_ _. True)"
    unfolding run_claimed_def by (rule runs_and_then [OF runs_run_rounds [OF E] runs_finish_run [OF E]])
  ultimately show "runs sha (if \<not> started then and_then (cancel_job E c) (\<lambda>ok. if ok then ret () else tally add_lost)
      else and_then (run_claimed E C c) (finish_run E C c)) ?own (\<lambda>_ _. True)" for started
    by simp
qed

text \<open>
  C13. Whatever the other processes do and wherever a call is given up, a step of the worker is a run
  of the fleet from the database it found: it publishes only under the id it claimed with, so
  every invariant of the store's runs covers real workers.
\<close>

theorem worker_step_is_fleet_run:
  assumes "well_behaved sha E" and "fleet_reachable sha (w_time w, w_db w)"
    and "worker_step E C w = (r, w')"
  shows "(fleet_step sha)\<^sup>*\<^sup>* (w_time w, w_db w) (w_time w', w_db w')"
proof -
  let ?work = "\<lambda>c. case c of None \<Rightarrow> ret False | Some j \<Rightarrow> and_then (work_on E C j) (\<lambda>_. ret True)"
  have "runs sha (?work c) (claim_kept (worker_id C) c) (\<lambda>_ _. True)" for c
  proof (cases c)
    case (Some j)
    have "claim_kept (worker_id C) (Some j) = owned (c_id j) (c_attempt j) (worker_id C)"
      by (rule ext) (simp add: claim_kept_def)
    then show ?thesis
      unfolding Some option.case
      by (simp only:) (rule runs_and_then [OF runs_work_on [OF assms(1)]], rule runs_ret, rule TrueI)
  qed (simp add: runs_ret)
  then have rest: "runs sha (and_then (claim_after_reaping E C) ?work) (\<lambda>_. True) (\<lambda>_ _. True)"
    by (rule runs_and_then [OF runs_claim_after_reaping [OF assms(1)]])
  have "runs sha (if due then reap_lapsed E C True else ret ()) (\<lambda>_. True) (\<lambda>_ _. True)" for due
    using runs_reap_lapsed [OF assms(1)] by (auto intro: runs_ret)
  from runs_and_then [OF this rest]
  have "runs sha (and_then (if reap_due E C w then reap_lapsed E C True else ret ())
      (\<lambda>_. and_then (claim_after_reaping E C) ?work)) (\<lambda>_. True) (\<lambda>_ _. True)" .
  then show ?thesis using assms(2,3) unfolding runs_def worker_step_def by blast
qed

section \<open>Every claimed job is accounted for\<close>

definition total :: "worker \<Rightarrow> nat" where
  "total w = w_published w + w_rejected w + w_lost w + w_released w + w_cancelled w"

lemmas counter_defs = add_published_def add_rejected_def add_lost_def add_released_def add_cancelled_def

definition adds :: "'a act \<Rightarrow> ('a \<Rightarrow> nat) \<Rightarrow> bool" where
  "adds m n \<longleftrightarrow>
     (\<forall>w r w'. m w = (r, w') \<longrightarrow> total w' = total w + (case r of Inl _ \<Rightarrow> 0 | Inr a \<Rightarrow> n a))"

lemma adds_db_call [intro!]: "adds (db_call E f) (\<lambda>_. 0)"
  by (auto simp: adds_def db_call_def Let_def total_def split: prod.splits option.splits)

lemma adds_ret: "n a = 0 \<Longrightarrow> adds (ret a) n"
  by (simp add: adds_def ret_def)

lemma adds_count: "(\<And>w. total (f w) = Suc (total w)) \<Longrightarrow> n () = Suc 0 \<Longrightarrow> adds (tally f) n"
  by (simp add: adds_def tally_def)

lemma adds_and_then: "adds m (\<lambda>_. 0) \<Longrightarrow> (\<And>a. adds (f a) n) \<Longrightarrow> adds (and_then m f) n"
  unfolding adds_def and_then_def
  by (auto split: prod.splits sum.splits)

lemma adds_cancel_job: "adds (cancel_job E c) (\<lambda>ok. if ok then Suc 0 else 0)"
proof -
  have "adds (and_then (tally add_cancelled) (\<lambda>_. ret True)) (\<lambda>ok. if ok then Suc 0 else 0)"
    by (simp add: adds_def and_then_def tally_def ret_def total_def add_cancelled_def)
  then show ?thesis unfolding cancel_job_def by (intro adds_and_then) (auto intro: adds_ret)
qed

lemma adds_cancel_or_lose:
  "adds (and_then (cancel_job E c) (\<lambda>ok. if ok then ret () else tally add_lost)) (\<lambda>_. Suc 0)"
  using adds_cancel_job [of E c]
  by (fastforce simp: adds_def and_then_def ret_def tally_def total_def add_lost_def
      split: prod.splits sum.splits if_splits)

lemma adds_run_rounds: "adds (run_rounds E C c left) (\<lambda>_. 0)"
proof (induction left)
  case 0
  show ?case by (cases "ends_with E (c_id c) (c_attempt c)") (auto simp: adds_def ret_def)
next
  case (Suc left)
  then show ?case
    unfolding run_rounds.simps by (intro adds_and_then) (auto intro: adds_ret split: option.splits)
qed

lemma total_counters [simp]:
  "total (add_published w) = Suc (total w)" "total (add_rejected w) = Suc (total w)"
  "total (add_lost w) = Suc (total w)" "total (add_released w) = Suc (total w)"
  "total (add_cancelled w) = Suc (total w)"
  by (simp_all add: counter_defs total_def)

lemma adds_finish_run: "adds (finish_run E C c answer) (\<lambda>_. Suc 0)"
proof (cases answer)
  case Lease_lost
  then show ?thesis by (simp add: finish_run_def adds_count)
next
  case Stopped_cancelled
  then show ?thesis by (simp add: finish_run_def adds_cancel_or_lose)
next
  case (Finished a)
  have "adds (release_job E C c e) (\<lambda>_. Suc 0)" for e
    unfolding release_job_def by (intro adds_and_then) (auto intro: adds_count)
  moreover have "adds (publish_job E C c v) (\<lambda>_. Suc 0)" for v
    unfolding publish_job_def
    by (intro adds_and_then) (auto intro!: adds_count adds_and_then split: option.splits)
  ultimately show ?thesis
    unfolding finish_run_def Finished run_answer.case
    by (intro adds_and_then) (auto intro: adds_ret split: option.splits runner_result.splits)
qed

lemma adds_reap_lapsed: "adds (reap_lapsed E C orphans) (\<lambda>_. 0)"
proof -
  have "adds (note_reaped E) (\<lambda>_. 0)"
    by (simp add: adds_def note_reaped_def tally_def total_def)
  moreover have "adds (and_then (db_call E (\<lambda>k clk d. (live_attempts (clk 0) d, d)))
      (\<lambda>alive. tally (\<lambda>w. w\<lparr>w_stopped := w_stopped w @ reap_orphans listed alive\<rparr>))) (\<lambda>_. 0)" for listed
    by (rule adds_and_then [OF adds_db_call]) (auto simp: adds_def tally_def total_def)
  then have "adds (stop_orphans E C) (\<lambda>_. 0)"
    unfolding adds_def stop_orphans_def Let_def by (auto simp: ret_def)
  ultimately show ?thesis
    unfolding reap_lapsed_def by (intro adds_and_then) (auto intro: adds_and_then adds_ret)
qed

text \<open>
  Every job a worker claims ends in exactly one of its counters: a step that found a job adds
  one to the published, rejected, lost, released and cancelled jobs together, and a step that found
  none, or that an error ended, adds nothing.
\<close>

theorem worker_step_counts_once:
  assumes "worker_step E C w = (r, w')"
  shows "total w' = total w + (if r = Inr True then 1 else 0)"
proof -
  have work: "adds (work_on E C j) (\<lambda>_. Suc 0)" for j
    unfolding work_on_def run_claimed_def
    by (intro adds_and_then) (auto intro!: adds_cancel_or_lose adds_and_then adds_run_rounds adds_finish_run)
  have "adds (and_then (work_on E C j) (\<lambda>_. ret True)) (\<lambda>ok. if ok then Suc 0 else 0)" for j
    using work [of j] by (fastforce simp: adds_def and_then_def ret_def split: prod.splits sum.splits)
  then have "adds (and_then (claim_after_reaping E C)
      (\<lambda>c. case c of None \<Rightarrow> ret False | Some j \<Rightarrow> and_then (work_on E C j) (\<lambda>_. ret True)))
      (\<lambda>ok. if ok then Suc 0 else 0)"
    unfolding claim_after_reaping_def claim_job_def
    by (intro adds_and_then)
       (auto intro!: adds_ret adds_and_then adds_reap_lapsed split: option.splits)
  then have "adds (and_then (if due then reap_lapsed E C True else ret ())
      (\<lambda>_. and_then (claim_after_reaping E C)
        (\<lambda>c. case c of None \<Rightarrow> ret False | Some j \<Rightarrow> and_then (work_on E C j) (\<lambda>_. ret True))))
      (\<lambda>ok. if ok then Suc 0 else 0)" for due
    by (rule adds_and_then [rotated]) (auto intro: adds_ret adds_reap_lapsed)
  then have "total w' = total w + (case r of Inl _ \<Rightarrow> 0 | Inr ok \<Rightarrow> if ok then Suc 0 else 0)"
    using assms unfolding adds_def worker_step_def by blast
  then show ?thesis by (auto split: sum.splits)
qed

text \<open>
  A worker told to exit when idle leaves nothing behind: unless a stop was asked for, it returns
  only once no job anywhere is unfinished, and what it returns is its count of published results.
\<close>

theorem worker_run_exits_idle:
  assumes "worker_run fuel E C exit_when_idle stop k delay w = Some (Inr n, w')"
  shows "n = w_published w' \<and> ((\<exists>i\<ge>k. stop i) \<or> exit_when_idle \<and> unfinished_jobs (w_db w') = 0)"
  using assms
proof (induction fuel arbitrary: k delay w)
  case (Suc fuel)
  have later: "n = w_published w' \<and> ((\<exists>i\<ge>k. stop i) \<or> exit_when_idle \<and> unfinished_jobs (w_db w') = 0)"
    if "worker_run fuel E C exit_when_idle stop (Suc k) delay' u = Some (Inr n, w')" for delay' u
    using Suc.IH [OF that] Suc_leD by blast
  have idle: "m = unfinished_jobs (w_db u')" if "db_call E (\<lambda>k clk d. (unfinished_jobs d, d)) u = (Inr m, u')" for m u u'
    using that by (auto simp: db_call_def Let_def split: prod.splits option.splits)
  show ?case
  proof (cases "stop k")
    case True
    then show ?thesis using Suc.prems by auto
  next
    case False
    obtain r u where step: "worker_step E C w = (r, u)" by (cases "worker_step E C w")
    show ?thesis
    proof (cases "r = Inr False \<and> exit_when_idle")
      case True
      then show ?thesis
        using Suc.prems False step later idle
        by (auto split: prod.splits sum.splits if_splits)
    next
      case other: False
      then show ?thesis
        using Suc.prems False step later by (auto split: sum.splits bool.splits if_splits)
    qed
  qed
qed simp

section \<open>A worker on a concrete database\<close>

definition quiet :: surroundings where
  "quiet = \<lparr>env = (\<lambda>_ s. s), reading = (\<lambda>_ _. 0), took = (\<lambda>_. 1), gives_up = (\<lambda>_. None),
            locked_rows = (\<lambda>_. {}), scanned = (\<lambda>_ _. 60000000), monotonic = of_nat,
            containers_listed = (\<lambda>_. []), rounds = (\<lambda>_ _. 1),
            ends_with = (\<lambda>_ _. Inr \<lparr>at_result = Runner_outcome \<lparr>ro_outcome = Outcome_succeeded, ro_body = JObj []\<rparr>,
                                     at_execution = None, at_logs = None\<rparr>)\<rparr>"

definition demo_config :: worker_config where
  "demo_config = \<lparr>worker_id = ''w1'', lease_seconds = 30, reap_every_seconds = 5, retry_with = DEFAULT_RETRY,
                  min_poll_seconds = 1 / 20, max_poll_seconds = 1 / 2, in_containers = False\<rparr>"

definition demo_worker :: worker where
  "demo_worker = \<lparr>w_time = 60000000, w_db = demo_submitted, w_calls = 0, w_reaped_at = None, w_published = 0,
                  w_rejected = 0, w_lost = 0, w_released = 0, w_cancelled = 0, w_stopped = []\<rparr>"

lemma quiet_well_behaved: "well_behaved sha quiet"
  by (simp add: well_behaved_def quiet_def)

theorem worker_step_is_fleet_run_witness:
  "(fleet_step demo_sha)\<^sup>*\<^sup>* (60000000, demo_submitted) (fleet_of (snd (worker_step quiet demo_config demo_worker)))"
proof -
  have "fleet_reachable demo_sha (60000000, demo_submitted)"
    by (rule reach_step [OF demo_submitted_reachable]) (rule step_tick, simp)
  then show ?thesis
    using worker_step_is_fleet_run [OF quiet_well_behaved, of demo_sha demo_worker demo_config]
    by (cases "worker_step quiet demo_config demo_worker") (simp add: demo_worker_def)
qed

theorem worker_step_counts_once_witness:
  "total (snd (worker_step quiet demo_config demo_worker)) = 1 \<and> w_published (snd (worker_step quiet demo_config demo_worker)) = 1"
proof
  have "fst (worker_step quiet demo_config demo_worker) = Inr True" by code_simp
  moreover have "total demo_worker = 0" by (simp add: total_def demo_worker_def)
  ultimately show "total (snd (worker_step quiet demo_config demo_worker)) = 1"
    using worker_step_counts_once [of quiet demo_config demo_worker]
    by (cases "worker_step quiet demo_config demo_worker") simp
  show "w_published (snd (worker_step quiet demo_config demo_worker)) = 1" by code_simp
qed

theorem worker_run_exits_idle_witness:
  "\<exists>w'. worker_run 4 quiet demo_config True (\<lambda>_. False) 0 (1 / 20) demo_worker = Some (Inr 2, w')
     \<and> unfinished_jobs (w_db w') = 0"
proof -
  have "map_option fst (worker_run 4 quiet demo_config True (\<lambda>_. False) 0 (1 / 20) demo_worker) = Some (Inr 2)"
    by code_simp
  then obtain w' where w: "worker_run 4 quiet demo_config True (\<lambda>_. False) 0 (1 / 20) demo_worker = Some (Inr 2, w')"
    by auto
  then show ?thesis using worker_run_exits_idle [OF w] by auto
qed

end
