(* ===== verification/Fleet_Liveness.thy ===== *)
theory Fleet_Liveness
  imports Fleet_Worker
begin

text \<open>
  A worker that has the fleet to itself gets its work done: on a reachable database where nothing is leased
  and every queued job may be claimed, it publishes each queued job and returns. \<open>succeeds\<close> is the total
  judgement the proof composes (the call returns, and what it returns is as said); \<open>alone\<close> says what
  the worker's surroundings have to allow, and \<open>in_hand\<close> follows one job from its claim to its result, with the
  time its lease has left counted in calls.
\<close>

section \<open>Surroundings that leave a worker alone\<close>

text \<open>
  Nobody else acts, no call is given up, no row is locked, every attempt ends with an outcome, and a lease
  outlives four calls.
\<close>

definition alone :: "surroundings \<Rightarrow> worker_config \<Rightarrow> bool" where
  "alone E C \<longleftrightarrow>
     (\<forall>k s. env E k s = s) \<and> (\<forall>k. gives_up E k = None) \<and> (\<forall>k. locked_rows E k = {})
     \<and> (\<forall>k i. 0 \<le> reading E k i \<and> reading E k i \<le> took E k)
     \<and> (\<forall>k. 4 * took E k < make_interval (lease_seconds C))
     \<and> (\<forall>i n. \<exists>a v. ends_with E i n = Inr a \<and> at_result a = Runner_outcome v)"

text \<open>The most a call may take.\<close>

definition slot :: "worker_config \<Rightarrow> time" where
  "slot C = (make_interval (lease_seconds C) - 1) div 4"

lemma took_slot: "alone E C \<Longrightarrow> took E k \<le> slot C"
  unfolding alone_def slot_def by (metis add1_zle_eq le_diff_eq mult.commute nonzero_mult_div_cancel_right zdiv_mono1 zero_less_numeral zero_neq_numeral)

lemma lease_slots: "4 * slot C < make_interval (lease_seconds C)"
  unfolding slot_def by (simp add: minus_mod_eq_mult_div [symmetric] algebra_simps)

definition succeeds :: "'a act \<Rightarrow> worker \<Rightarrow> ('a \<Rightarrow> worker \<Rightarrow> bool) \<Rightarrow> bool" where
  "succeeds m w Q \<longleftrightarrow> (\<exists>a w'. m w = (Inr a, w') \<and> Q a w')"

lemma slot_nonneg: "alone E C \<Longrightarrow> 0 \<le> slot C"
  using took_slot [of E C 0] unfolding alone_def by (meson order_trans)

lemma succeeds_ret [simp]: "succeeds (ret a) w Q \<longleftrightarrow> Q a w"
  by (simp add: succeeds_def ret_def)

lemma succeeds_tally [simp]: "succeeds (tally f) w Q \<longleftrightarrow> Q () (f w)"
  by (simp add: succeeds_def tally_def)

lemma succeeds_and_then:
  "succeeds m w P \<Longrightarrow> (\<And>a u. P a u \<Longrightarrow> succeeds (f a) u Q) \<Longrightarrow> succeeds (and_then m f) w Q"
  by (fastforce simp: succeeds_def and_then_def)

lemma succeeds_mono: "succeeds m w P \<Longrightarrow> (\<And>a u. P a u \<Longrightarrow> Q a u) \<Longrightarrow> succeeds m w Q"
  by (fastforce simp: succeeds_def)

lemma succeeds_db_call:
  assumes "alone E C"
    and "\<And>k clk. (\<And>i. w_time w \<le> clk i \<and> clk i \<le> w_time w + slot C) \<Longrightarrow>
      (\<And>w'. w' = w\<lparr>w_time := w_time w', w_db := snd (f k clk (w_db w)), w_calls := w_calls w'\<rparr> \<Longrightarrow>
        w_time w \<le> w_time w' \<Longrightarrow> w_time w' \<le> w_time w + slot C \<Longrightarrow> k = w_calls w \<Longrightarrow> Q (fst (f k clk (w_db w))) w')"
  shows "succeeds (db_call E f) w Q"
proof -
  let ?k = "w_calls w"
  let ?clk = "\<lambda>i. w_time w + reading E ?k i"
  have e: "env E ?k s = s" "gives_up E ?k = None" for s using assms(1) unfolding alone_def by blast+
  have t: "0 \<le> reading E ?k i" "reading E ?k i \<le> took E ?k" for i using assms(1) unfolding alone_def by blast+
  note m = took_slot [OF assms(1), of ?k]
  let ?w = "w\<lparr>w_time := w_time w + took E ?k, w_db := snd (f ?k ?clk (w_db w)), w_calls := ?k + 1\<rparr>"
  have "Q (fst (f ?k ?clk (w_db w))) ?w"
  proof (rule assms(2))
    show "w_time w \<le> ?clk i \<and> ?clk i \<le> w_time w + slot C" for i using t [of i] m by linarith
    show "w_time w \<le> w_time ?w" "w_time ?w \<le> w_time w + slot C" using t [of 0] m by simp_all
  qed simp_all
  then show ?thesis
    by (cases "f ?k ?clk (w_db w)") (simp add: succeeds_def db_call_def Let_def e)
qed

section \<open>One job\<close>

definition others :: "int \<Rightarrow> db \<Rightarrow> job_row list" where
  "others i d = filter (\<lambda>j. j_id j \<noteq> i) (jobs d)"

definition ids_distinct :: "db \<Rightarrow> bool" where
  "ids_distinct d \<longleftrightarrow> distinct (map j_id (jobs d))"

lemma jobs_update_job: "jobs (update_job i f d) = map (\<lambda>j. if j_id j = i then f j else j) (jobs d)"
  by (simp add: update_job_def)

lemma others_update [simp]: "(\<And>j. j_id (f j) = j_id j) \<Longrightarrow> others i (update_job i f d) = others i d"
  unfolding others_def jobs_update_job by (rule filter_map_other) auto

lemma ids_distinct_update [simp]: "(\<And>j. j_id (f j) = j_id j) \<Longrightarrow> ids_distinct (update_job i f d) \<longleftrightarrow> ids_distinct d"
proof -
  assume f: "\<And>j. j_id (f j) = j_id j"
  have "map j_id (jobs (update_job i f d)) = map j_id (jobs d)"
    unfolding jobs_update_job map_map by (rule map_cong) (auto simp: f)
  then show ?thesis by (simp add: ids_distinct_def)
qed

lemma attempt_side [simp]:
  "others i (update_attempt j n g d) = others i d" "ids_distinct (update_attempt j n g d) = ids_distinct d"
  "jobs (update_attempt j n g d) = jobs d" "attempts (update_job i f d) = attempts d"
  by (simp_all add: others_def ids_distinct_def update_attempt_def update_job_def)

lemma the_job:
  assumes "ids_distinct d" and "j \<in> set (jobs d)" and "P j" and "\<And>k. P k \<Longrightarrow> j_id k = j_id j"
  shows "find P (jobs d) = Some j"
proof (rule find_unique [where P = P, OF assms(2,3)])
  fix k
  assume "k \<in> set (jobs d)" "P k"
  with assms(1,2,4) show "k = j" unfolding ids_distinct_def distinct_map by (metis inj_onD)
qed

definition tried :: "int \<Rightarrow> int \<Rightarrow> db \<Rightarrow> bool" where
  "tried i n d \<longleftrightarrow> (\<exists>a \<in> set (attempts d). a_job_id a = i \<and> a_attempt a = n)"

lemma attempts_update_attempt:
  "attempts (update_attempt j m g d) = map (\<lambda>a. if a_job_id a = j \<and> a_attempt a = m then g a else a) (attempts d)"
  by (simp add: update_attempt_def)

lemma tried_update_attempt [simp]:
  "(\<And>a. a_job_id (g a) = a_job_id a \<and> a_attempt (g a) = a_attempt a) \<Longrightarrow>
     tried i n (update_attempt j m g d) \<longleftrightarrow> tried i n d"
proof -
  assume g: "\<And>a. a_job_id (g a) = a_job_id a \<and> a_attempt (g a) = a_attempt a"
  have "tried i n (update_attempt j m g d) \<longleftrightarrow>
      (\<exists>a \<in> set (attempts d). (\<lambda>b. a_job_id b = i \<and> a_attempt b = n) (if a_job_id a = j \<and> a_attempt a = m then g a else a))"
    unfolding tried_def attempts_update_attempt set_map bex_simps ..
  also have "\<dots> \<longleftrightarrow> tried i n d" unfolding tried_def by (rule bex_cong) (auto simp: g)
  finally show ?thesis .
qed

lemma tried_update_job [simp]: "tried i n (update_job j f d) \<longleftrightarrow> tried i n d"
  by (simp add: tried_def update_job_def)

text \<open>
  The worker's job \<open>i\<close> is in state \<open>s\<close> under its attempt \<open>n\<close>, nobody asked to cancel it, the other jobs are those
  of \<open>d0\<close>, and the lease lasts for \<open>left\<close> more calls; the worker has published \<open>p\<close> results.
\<close>

definition live_row :: "time \<Rightarrow> int \<Rightarrow> int \<Rightarrow> job_state \<Rightarrow> job_row \<Rightarrow> bool" where
  "live_row t i n s j \<longleftrightarrow> j_id j = i \<and> j_attempt j = n \<and> j_state j = s \<and> j_cancel_requested_at j = None
     \<and> sql_gt (j_lease_expires_at j) t"

definition in_hand :: "worker_config \<Rightarrow> db \<Rightarrow> nat \<Rightarrow> int \<Rightarrow> int \<Rightarrow> job_state \<Rightarrow> int \<Rightarrow> worker \<Rightarrow> bool" where
  "in_hand C d0 p i n s left w \<longleftrightarrow>
     ids_distinct (w_db w) \<and> others i (w_db w) = others i d0 \<and> tried i n (w_db w) \<and> w_published w = p
     \<and> (\<exists>j \<in> set (jobs (w_db w)). live_row (w_time w + left * slot C) i n s j)"

lemma in_handI:
  assumes "ids_distinct (w_db w)" and "others i (w_db w) = others i d0" and "tried i n (w_db w)" and "w_published w = p"
    and "j \<in> set (jobs (w_db w))" and "live_row (w_time w + left * slot C) i n s j"
  shows "in_hand C d0 p i n s left w"
  using assms by (auto simp: in_hand_def)

lemma in_handE:
  assumes "in_hand C d0 p i n s left w"
  obtains j where "ids_distinct (w_db w)" and "others i (w_db w) = others i d0" and "tried i n (w_db w)"
    and "w_published w = p" and "j \<in> set (jobs (w_db w))" and "live_row (w_time w + left * slot C) i n s j"
  using assms by (auto simp: in_hand_def)

lemma live_row_sooner: "live_row t i n s j \<Longrightarrow> u \<le> t \<Longrightarrow> live_row u i n s j"
  by (auto simp: live_row_def sql_gt_iff)

lemma in_hand_sooner:
  assumes "in_hand C d0 p i n s left w" and "l \<le> left" and "0 \<le> slot C"
  shows "in_hand C d0 p i n s l w"
proof -
  have "w_time w + l * slot C \<le> w_time w + left * slot C" using assms(2,3) by (simp add: mult_right_mono)
  with assms(1) show ?thesis unfolding in_hand_def using live_row_sooner by blast
qed

lemma updated_row: "j \<in> set (jobs d) \<Longrightarrow> j_id j = i \<Longrightarrow> f j \<in> set (jobs (update_job i f d))"
  by (auto simp: jobs_update_job)

lemma slot_mult: "u \<le> t + slot C \<Longrightarrow> u + left * slot C \<le> t + (left + 1) * slot C"
  by (simp add: algebra_simps)

lemma started_in_hand:
  assumes "alone E C" and "in_hand C d0 p i n Claimed (left + 1) w" and "0 \<le> left"
  shows "succeeds (db_call E (\<lambda>k clk. start clk i n)) w (\<lambda>ok u. ok \<and> in_hand C d0 p i n Running left u)"
proof (rule succeeds_db_call [OF assms(1)])
  fix k clk w'
  assume clk: "\<And>i. w_time w \<le> clk i \<and> clk i \<le> w_time w + slot C"
    and w': "w' = w\<lparr>w_time := w_time w', w_db := snd (start clk i n (w_db w)), w_calls := w_calls w'\<rparr>"
    and t: "w_time w' \<le> w_time w + slot C"
  obtain j where h: "ids_distinct (w_db w)" "others i (w_db w) = others i d0" "tried i n (w_db w)" "w_published w = p"
    and j: "j \<in> set (jobs (w_db w))" "live_row (w_time w + (left + 1) * slot C) i n Claimed j"
    using assms(2) by (rule in_handE)
  have pos: "0 \<le> slot C" using clk [of 0] by linarith
  then have "0 \<le> left * slot C" using assms(3) by simp
  then have "clk 0 \<le> w_time w + (left + 1) * slot C" using clk [of 0] by (simp add: algebra_simps)
  then have ok: "start_ok (clk 0) i n Claimed j" using live_row_sooner [OF j(2)] by (simp add: live_row_def start_ok_def)
  define f :: "job_row \<Rightarrow> job_row" where "f = (\<lambda>j. j\<lparr>j_state := Running, j_started_at := Some (clk 1), j_updated_at := clk 2\<rparr>)"
  have s: "start clk i n (w_db w) = (True, update_job i f (w_db w))" using ok j(1) by (auto simp: start_def f_def)
  have f: "j_id (f x) = j_id x" for x by (simp add: f_def)
  have db: "w_db w' = update_job i f (w_db w)" "w_published w' = p" by (subst w', simp add: s h)+
  have "in_hand C d0 p i n Running left w'"
  proof (rule in_handI [where j = "f j"])
    show "live_row (w_time w' + left * slot C) i n Running (f j)"
      using live_row_sooner [OF j(2) slot_mult [OF t, of left]] by (simp add: live_row_def f_def)
  qed (use h j f db in \<open>simp_all add: updated_row live_row_def\<close>)
  then show "fst (start clk i n (w_db w)) \<and> in_hand C d0 p i n Running left w'" by (simp add: s)
qed

lemma held_row:
  assumes "ids_distinct d" and "j \<in> set (jobs d)" and "live_row t i n Running j"
  shows "find (holds i n) (jobs d) = Some j"
    and "u \<le> t \<Longrightarrow> find (\<lambda>j. holds i n j \<and> sql_gt (j_lease_expires_at j) u) (jobs d) = Some j"
proof -
  have h: "holds i n j" using assms(3) by (simp add: live_row_def holds_def leased_states_def)
  then show "find (holds i n) (jobs d) = Some j"
    using assms(1,2) by (intro the_job) (auto simp: holds_def)
  assume "u \<le> t"
  then have "sql_gt (j_lease_expires_at j) u" using live_row_sooner [OF assms(3)] by (simp add: live_row_def)
  with h assms(1,2) show "find (\<lambda>j. holds i n j \<and> sql_gt (j_lease_expires_at j) u) (jobs d) = Some j"
    by (intro the_job) (auto simp: holds_def)
qed

lemma beaten_in_hand:
  assumes "alone E C" and "in_hand C d0 p i n Running 1 w"
  shows "succeeds (db_call E (\<lambda>k clk. heartbeat clk i n (lease_seconds C))) w
    (\<lambda>b u. (\<exists>x. b = Some x \<and> \<not> beat_cancel_requested x) \<and> in_hand C d0 p i n Running 3 u)"
proof (rule succeeds_db_call [OF assms(1)])
  fix k clk w'
  let ?b = "heartbeat clk i n (lease_seconds C) (w_db w)"
  assume clk: "\<And>i. w_time w \<le> clk i \<and> clk i \<le> w_time w + slot C"
    and w': "w' = w\<lparr>w_time := w_time w', w_db := snd ?b, w_calls := w_calls w'\<rparr>"
    and t: "w_time w' \<le> w_time w + slot C"
  obtain j where h: "ids_distinct (w_db w)" "others i (w_db w) = others i d0" "tried i n (w_db w)" "w_published w = p"
    and j: "j \<in> set (jobs (w_db w))" "live_row (w_time w + 1 * slot C) i n Running j"
    using assms(2) by (rule in_handE)
  have "clk 0 \<le> w_time w + 1 * slot C" using clk [of 0] by simp
  note found = held_row(2) [OF h(1) j this]
  define until where "until = clk 1 + make_interval (lease_seconds C)"
  define f :: "job_row \<Rightarrow> job_row" where "f = (\<lambda>j. j\<lparr>j_lease_expires_at := Some until, j_updated_at := clk 2\<rparr>)"
  define g :: "attempt_row \<Rightarrow> attempt_row" where "g = (\<lambda>a. a\<lparr>a_lease_expires_at := until\<rparr>)"
  have c: "j_cancel_requested_at j = None" using j(2) by (simp add: live_row_def)
  have b: "?b = (Some \<lparr>beat_lease_expires_at = until, beat_cancel_requested = False\<rparr>,
      update_attempt i n g (update_job i f (w_db w)))"
    using h(3) c by (simp add: heartbeat_def found tried_def f_def g_def until_def Let_def)
  have f: "j_id (f x) = j_id x" for x by (simp add: f_def)
  have g: "a_job_id (g a) = a_job_id a \<and> a_attempt (g a) = a_attempt a" for a by (simp add: g_def)
  have db: "w_db w' = update_attempt i n g (update_job i f (w_db w))" "w_published w' = p" by (subst w', simp add: b h)+
  have "in_hand C d0 p i n Running 3 w'"
  proof (rule in_handI [where j = "f j"])
    have "w_time w' + 3 * slot C < until" using t clk [of 1] lease_slots [of C] by (simp add: until_def)
    then show "live_row (w_time w' + 3 * slot C) i n Running (f j)" using j(2) by (simp add: live_row_def f_def)
  qed (use h j f g db in \<open>simp_all add: updated_row live_row_def\<close>)
  then show "(\<exists>x. fst ?b = Some x \<and> \<not> beat_cancel_requested x) \<and> in_hand C d0 p i n Running 3 w'"
    by (simp add: b)
qed

lemma recorded_in_hand:
  assumes "alone E C" and "in_hand C d0 p i n Running (left + 1) w"
  shows "succeeds (db_call E (\<lambda>k clk d. ((), record_execution i n x l d))) w (\<lambda>_. in_hand C d0 p i n Running left)"
proof (rule succeeds_db_call [OF assms(1)])
  fix k clk w'
  assume w': "w' = w\<lparr>w_time := w_time w', w_db := snd ((), record_execution i n x l (w_db w)), w_calls := w_calls w'\<rparr>"
    and t: "w_time w' \<le> w_time w + slot C"
  obtain j where h: "ids_distinct (w_db w)" "others i (w_db w) = others i d0" "tried i n (w_db w)" "w_published w = p"
    and j: "j \<in> set (jobs (w_db w))" "live_row (w_time w + (left + 1) * slot C) i n Running j"
    using assms(2) by (rule in_handE)
  have db: "w_db w' = record_execution i n x l (w_db w)" "w_published w' = p" by (subst w', simp add: h)+
  show "in_hand C d0 p i n Running left w'"
  proof (rule in_handI [where j = j])
    show "live_row (w_time w' + left * slot C) i n Running j"
      by (rule live_row_sooner [OF j(2) slot_mult [OF t]])
  qed (use h j db in \<open>simp_all add: record_execution_def\<close>)
qed

text \<open>The job is settled: it is final, and the others are as they were.\<close>

definition settled :: "db \<Rightarrow> nat \<Rightarrow> int \<Rightarrow> worker \<Rightarrow> bool" where
  "settled d0 p i w \<longleftrightarrow> ids_distinct (w_db w) \<and> others i (w_db w) = others i d0 \<and> w_published w = p
     \<and> (\<exists>j \<in> set (jobs (w_db w)). j_id j = i \<and> j_state j \<in> set result_states)"

lemma published_settled:
  assumes "alone E C" and "in_hand C d0 p i n Running 1 w"
  shows "succeeds (db_call E (\<lambda>k clk. publish clk i n who v body)) w (\<lambda>ok u. ok \<and> settled d0 p i u)"
proof (rule succeeds_db_call [OF assms(1)])
  fix k clk w'
  let ?b = "publish clk i n who v body (w_db w)"
  assume clk: "\<And>i. w_time w \<le> clk i \<and> clk i \<le> w_time w + slot C"
    and w': "w' = w\<lparr>w_time := w_time w', w_db := snd ?b, w_calls := w_calls w'\<rparr>"
  obtain j where h: "ids_distinct (w_db w)" "others i (w_db w) = others i d0" "w_published w = p"
    and j: "j \<in> set (jobs (w_db w))" "live_row (w_time w + 1 * slot C) i n Running j"
    using assms(2) by (rule in_handE)
  note found = held_row(1) [OF h(1) j]
  have "clk 1 \<le> w_time w + 1 * slot C" using clk [of 1] by simp
  from live_row_sooner [OF j(2) this]
  have live: "j_cancel_requested_at j = None" "sql_gt (j_lease_expires_at j) (clk 1)" unfolding live_row_def by blast+
  note live = live [unfolded One_nat_def]
  define f :: "job_row \<Rightarrow> job_row" where
    "f = (\<lambda>j. j\<lparr>j_state := outcome_state v, j_result_id := Some (next_result_id (w_db w)), j_lease_expires_at := None,
                 j_finished_at := Some (clk 1), j_updated_at := clk 1\<rparr>)"
  have f: "j_id (f x) = j_id x" for x by (simp add: f_def)
  have ok: "fst ?b" by (simp add: publish_def found live Let_def)
  have js: "jobs (snd ?b) = jobs (update_job i f (w_db w))"
    by (simp add: publish_def found live Let_def f_def update_job_def update_attempt_def)
  have same: "others i (snd ?b) = others i (w_db w)" "ids_distinct (snd ?b)"
    using others_update [of f i "w_db w"] ids_distinct_update [of f i "w_db w"] f h(1)
    by (simp_all add: others_def ids_distinct_def js)
  have db: "w_db w' = snd ?b" "w_published w' = p" by (subst w', simp add: h)+
  have "f j \<in> set (jobs (w_db w'))" using updated_row [OF j(1), of i f] j(2) by (simp add: db js live_row_def)
  then have "settled d0 p i w'"
    unfolding settled_def using same h db j(2) by (intro conjI bexI [of _ "f j"]) (simp_all add: f_def live_row_def)
  with ok show "fst ?b \<and> settled d0 p i w'" by simp
qed

section \<open>From a claim to its result\<close>

lemma run_in_hand:
  assumes "alone E C"
  shows "in_hand C d0 p (c_id c) (c_attempt c) Running 2 w \<Longrightarrow>
    succeeds (run_rounds E C c left) w
      (\<lambda>answer u. (\<exists>a v. answer = Finished a \<and> at_result a = Runner_outcome v)
         \<and> in_hand C d0 p (c_id c) (c_attempt c) Running 2 u)"
proof (induction left arbitrary: w)
  case 0
  from assms obtain a v where "ends_with E (c_id c) (c_attempt c) = Inr a" "at_result a = Runner_outcome v"
    unfolding alone_def by blast
  with 0 show ?case by simp
next
  case (Suc left)
  have one_left: "in_hand C d0 p (c_id c) (c_attempt c) Running 1 w"
    by (rule in_hand_sooner [OF Suc.prems _ slot_nonneg [OF assms]]) simp
  show ?case
    unfolding run_rounds.simps
  proof (rule succeeds_and_then [OF beaten_in_hand [OF assms one_left]])
    fix b u
    assume b: "(\<exists>x. b = Some x \<and> \<not> beat_cancel_requested x) \<and> in_hand C d0 p (c_id c) (c_attempt c) Running 3 u"
    then have "in_hand C d0 p (c_id c) (c_attempt c) Running 2 u"
      using in_hand_sooner [OF _ _ slot_nonneg [OF assms], where left = 3 and l = 2] by simp
    from Suc.IH [OF this] b show "succeeds (case b of None \<Rightarrow> ret Lease_lost
        | Some b \<Rightarrow> if beat_cancel_requested b then ret Stopped_cancelled else run_rounds E C c left) u
      (\<lambda>answer u. (\<exists>a v. answer = Finished a \<and> at_result a = Runner_outcome v)
         \<and> in_hand C d0 p (c_id c) (c_attempt c) Running 2 u)" by auto
  qed
qed

lemma finish_settles:
  assumes "alone E C" and "in_hand C d0 p (c_id c) (c_attempt c) Running 2 w" and "at_result a = Runner_outcome v"
  shows "succeeds (finish_run E C c (Finished a)) w (\<lambda>_. settled d0 (Suc p) (c_id c))"
proof -
  have one_left: "in_hand C d0 p (c_id c) (c_attempt c) Running 1 w"
    by (rule in_hand_sooner [OF assms(2) _ slot_nonneg [OF assms(1)]]) simp
  have recorded: "succeeds (case at_execution a of None \<Rightarrow> ret ()
      | Some x \<Rightarrow> db_call E (\<lambda>k clk d. ((), record_execution (c_id c) (c_attempt c) x (at_logs a) d))) w
      (\<lambda>_. in_hand C d0 p (c_id c) (c_attempt c) Running 1)"
    using recorded_in_hand [OF assms(1), where left = 1] assms(2) one_left by (cases "at_execution a") simp_all
  have published: "succeeds (publish_job E C c v) u (\<lambda>_. settled d0 (Suc p) (c_id c))"
    if "in_hand C d0 p (c_id c) (c_attempt c) Running 1 u" for u
    unfolding publish_job_def
    by (rule succeeds_and_then [OF published_settled [OF assms(1) that]]) (auto simp: settled_def add_published_def)
  show ?thesis
    unfolding finish_run_def run_answer.case
    by (rule succeeds_and_then [OF recorded]) (simp add: assms(3) published)
qed

lemma work_settles:
  assumes "alone E C" and "in_hand C d0 p (c_id c) (c_attempt c) Claimed 3 w"
  shows "succeeds (work_on E C c) w (\<lambda>_. settled d0 (Suc p) (c_id c))"
proof -
  have st: "succeeds (db_call E (\<lambda>k clk. start clk (c_id c) (c_attempt c))) w
      (\<lambda>ok u. ok \<and> in_hand C d0 p (c_id c) (c_attempt c) Running 2 u)"
    using started_in_hand [OF assms(1), where left = 2] assms(2) by simp
  have "succeeds (and_then (run_claimed E C c) (finish_run E C c)) u (\<lambda>_. settled d0 (Suc p) (c_id c))"
    if h: "in_hand C d0 p (c_id c) (c_attempt c) Running 2 u" for u
    unfolding run_claimed_def
    by (rule succeeds_and_then [OF run_in_hand [OF assms(1) h]]) (auto intro: finish_settles [OF assms(1)])
  then show ?thesis unfolding work_on_def by (intro succeeds_and_then [OF st]) auto
qed

text \<open>A database at rest: nothing leased, and every queued job uncancelled and ready to claim.\<close>

definition at_rest :: "surroundings \<Rightarrow> db \<Rightarrow> bool" where
  "at_rest E d \<longleftrightarrow> ids_distinct d
     \<and> list_all (\<lambda>j. \<not> leased j \<and> (j_state j = Queued \<longrightarrow> j_cancel_requested_at j = None
          \<and> (\<forall>k. j_available_at j \<le> scanned E k (j_id j)))) (jobs d)"

lemma reap_at_rest: "at_rest E d \<Longrightarrow> snd (reap locked clk retry d) = d"
proof -
  assume r: "at_rest E d"
  have none: "filter (\<lambda>j. leased j \<and> sql_le (j_lease_expires_at j) (clk 0) \<and> j_id j \<notin> locked) (jobs d) = []"
    using r by (auto simp: at_rest_def list_all_iff filter_empty_conv)
  have "map (\<lambda>j. if leased j \<and> sql_le (j_lease_expires_at j) (clk 0) \<and> j_id j \<notin> locked
      then end_job (clk 0) LEASE_EXPIRED retry j else j) (jobs d) = jobs d"
    by (rule map_idI) (use r in \<open>auto simp: at_rest_def list_all_iff\<close>)
  then show ?thesis by (simp add: reap_def end_attempts_def none Let_def)
qed

lemma unfinished_at_rest: "at_rest E d \<Longrightarrow> unfinished_jobs d = length (filter (\<lambda>j. j_state j = Queued) (jobs d))"
  unfolding unfinished_jobs_def at_rest_def
  by (intro arg_cong [of _ _ length] filter_cong) (auto simp: list_all_iff state_list_defs)

lemma oldest_found:
  assumes "filter (claimable locked scan) (jobs d) \<noteq> []"
  shows "\<exists>j. oldest_claimable locked scan d = Some j"
proof (cases "sort_key j_id (filter (claimable locked scan) (jobs d))")
  case Nil
  with assms show ?thesis by (metis length_0_conv length_sort)
qed (simp add: oldest_claimable_def)

lemma claimed_in_hand:
  assumes "alone E C" and "at_rest E (w_db w)" and "unfinished_jobs (w_db w) \<noteq> 0"
  shows "succeeds (claim_job E C) w
    (\<lambda>c u. \<exists>x j. c = Some x \<and> j \<in> set (jobs (w_db w)) \<and> j_id j = c_id x \<and> j_state j = Queued
       \<and> in_hand C (w_db w) (w_published w) (c_id x) (c_attempt x) Claimed 3 u)"
  unfolding claim_job_def
proof (rule succeeds_db_call [OF assms(1)])
  fix k clk w'
  let ?c = "claim (locked_rows E k) (scanned E k) clk (worker_id C) (lease_seconds C) (w_db w)"
  assume clk: "\<And>i. w_time w \<le> clk i \<and> clk i \<le> w_time w + slot C"
    and w': "w' = w\<lparr>w_time := w_time w', w_db := snd ?c, w_calls := w_calls w'\<rparr>"
    and t: "w_time w' \<le> w_time w + slot C"
  have unlocked: "locked_rows E k = {}" using assms(1) by (simp add: alone_def)
  have "filter (claimable {} (scanned E k)) (jobs (w_db w)) = filter (\<lambda>j. j_state j = Queued) (jobs (w_db w))"
    using assms(2) by (intro filter_cong) (auto simp: at_rest_def list_all_iff claimable_def)
  then have "filter (claimable (locked_rows E k) (scanned E k)) (jobs (w_db w)) \<noteq> []"
    using assms(3) unfinished_at_rest [OF assms(2)] unlocked by auto
  then obtain j where old: "oldest_claimable (locked_rows E k) (scanned E k) (w_db w) = Some j"
    using oldest_found by blast
  have j: "j \<in> set (jobs (w_db w))" "j_state j = Queued"
    using oldest_claimable_Some [OF old] by (auto simp: claimable_def)
  with assms(2) have free: "j_cancel_requested_at j = None" and dist: "ids_distinct (w_db w)"
    by (auto simp: at_rest_def list_all_iff)
  define f where "f = claim_row clk (worker_id C) (lease_seconds C)"
  define x where "x = \<lparr>c_id = j_id j, c_attempt = j_attempt j + 1, c_name = j_name j, c_payload = j_payload j,
    c_lease_expires_at = clk 1 + make_interval (lease_seconds C), c_policy = j_policy j\<rparr>"
  have f: "j_id (f y) = j_id y" for y by (simp add: f_def claim_row_def)
  have c: "fst ?c = Some x" "jobs (snd ?c) = jobs (update_job (j_id j) f (w_db w))"
    "attempts (snd ?c) = attempts (w_db w) @ [new_attempt clk (worker_id C) (lease_seconds C) j]"
    by (simp_all add: claim_def old x_def f_def Let_def)
  have same: "others (j_id j) (snd ?c) = others (j_id j) (w_db w)" "ids_distinct (snd ?c)"
    using others_update [of f "j_id j" "w_db w"] ids_distinct_update [of f "j_id j" "w_db w"] f dist
    by (simp_all add: others_def ids_distinct_def c(2))
  have db: "w_db w' = snd ?c" "w_published w' = w_published w" by (subst w', simp)+
  have "in_hand C (w_db w) (w_published w) (c_id x) (c_attempt x) Claimed 3 w'"
  proof (rule in_handI [where j = "f j"])
    have "w_time w' + 3 * slot C < clk 1 + make_interval (lease_seconds C)" using t clk [of 1] lease_slots [of C] by simp
    then show "live_row (w_time w' + 3 * slot C) (c_id x) (c_attempt x) Claimed (f j)"
      using free by (simp add: live_row_def f_def claim_row_def x_def)
    show "tried (c_id x) (c_attempt x) (w_db w')" by (simp add: tried_def db c(3) x_def new_attempt_def)
    show "f j \<in> set (jobs (w_db w'))" using updated_row [OF j(1) refl, of f] by (simp add: db c(2))
  qed (use same db in \<open>simp_all add: x_def\<close>)
  moreover have "j_id j = c_id x" by (simp add: x_def)
  ultimately show "\<exists>x j. fst ?c = Some x \<and> j \<in> set (jobs (w_db w)) \<and> j_id j = c_id x \<and> j_state j = Queued
      \<and> in_hand C (w_db w) (w_published w) (c_id x) (c_attempt x) Claimed 3 w'"
    using c(1) j by blast
qed

section \<open>The whole queue\<close>

definition unchanged :: "worker \<Rightarrow> worker \<Rightarrow> bool" where
  "unchanged w u \<longleftrightarrow> w_db u = w_db w \<and> w_published u = w_published w"

lemma unchanged_trans: "unchanged w u \<Longrightarrow> unchanged u v \<Longrightarrow> unchanged w v"
  by (simp add: unchanged_def)

lemma looked:
  assumes "alone E C" and "\<And>k clk. snd (f k clk (w_db w)) = w_db w"
  shows "succeeds (db_call E f) w (\<lambda>a u. unchanged w u \<and> (\<exists>k clk. a = fst (f k clk (w_db w))))"
proof (rule succeeds_db_call [OF assms(1)])
  fix k clk w'
  assume "w' = w\<lparr>w_time := w_time w', w_db := snd (f k clk (w_db w)), w_calls := w_calls w'\<rparr>"
  then have "w_db w' = w_db w" "w_published w' = w_published w" by (metis assms(2) worker.select_convs(2) worker.surjective worker.update_convs(1,2,3), metis worker.select_convs(5) worker.surjective worker.update_convs(1,2,3))
  then show "unchanged w w' \<and> (\<exists>k' clk'. fst (f k clk (w_db w)) = fst (f k' clk' (w_db w)))"
    by (auto simp: unchanged_def)
qed

lemma reaped_unchanged:
  assumes "alone E C" and "at_rest E (w_db w)"
  shows "succeeds (reap_lapsed E C orphans) w (\<lambda>_. unchanged w)"
proof -
  have reap: "succeeds (db_call E (\<lambda>k clk. reap (locked_rows E k) clk (retry_with C))) w (\<lambda>_. unchanged w)"
    by (rule succeeds_mono [OF looked [OF assms(1)]]) (simp_all add: reap_at_rest [OF assms(2)])
  have stop: "succeeds (stop_orphans E C) u (\<lambda>_. unchanged u)" for u
  proof -
    have "succeeds (and_then (db_call E (\<lambda>k clk d. (live_attempts (clk 0) d, d)))
        (\<lambda>alive. tally (\<lambda>w. w\<lparr>w_stopped := w_stopped w @ reap_orphans listed alive\<rparr>))) u (\<lambda>_. unchanged u)" for listed
      by (rule succeeds_and_then [OF looked [OF assms(1)]]) (auto simp: unchanged_def)
    then show ?thesis by (simp add: succeeds_def stop_orphans_def Let_def ret_def unchanged_def)
  qed
  have noted: "succeeds (note_reaped E) u (\<lambda>_. unchanged u)" for u
    by (simp add: succeeds_def note_reaped_def tally_def unchanged_def)
  have "succeeds (and_then (note_reaped E) (\<lambda>_. stop_orphans E C)) u (\<lambda>_. unchanged u)" for u
    by (rule succeeds_and_then [OF noted]) (rule succeeds_mono [OF stop], erule (1) unchanged_trans)
  then show ?thesis
    unfolding reap_lapsed_def
    by (intro succeeds_and_then [OF reap]) (auto intro: succeeds_mono unchanged_trans)
qed

lemma nothing_claimed:
  assumes "alone E C" and "at_rest E (w_db w)" and "unfinished_jobs (w_db w) = 0"
  shows "succeeds (claim_job E C) w (\<lambda>c u. c = None \<and> unchanged w u)"
proof -
  have "filter (claimable locked scan) (jobs (w_db w)) = []" for locked scan
    using assms(3) unfolding unfinished_at_rest [OF assms(2)] by (auto simp: filter_empty_conv claimable_def)
  then have none: "claim locked scan clk who lease (w_db w) = (None, w_db w)" for locked scan clk who lease
    by (simp add: claim_def oldest_claimable_def)
  show ?thesis unfolding claim_job_def by (rule succeeds_mono [OF looked [OF assms(1)]]) (auto simp: none)
qed

lemma count_split:
  assumes "distinct (map j_id js)" and "j \<in> set js"
  shows "length (filter P js) = length (filter P (filter (\<lambda>x. j_id x \<noteq> j_id j) js)) + (if P j then 1 else 0)"
  using assms
proof (induction js)
  case (Cons x js)
  show ?case
  proof (cases "x = j")
    case True
    then have "filter (\<lambda>x. j_id x \<noteq> j_id j) js = js" using Cons.prems(1) by (auto simp: filter_id_conv rev_image_eqI)
    with True show ?thesis by simp
  next
    case False
    with Cons.prems have "j \<in> set js" "j_id x \<noteq> j_id j" by auto
    with Cons show ?thesis by auto
  qed
qed simp

lemma settled_rest:
  assumes "at_rest E d0" and "settled d0 p i u" and "j \<in> set (jobs d0)" and "j_id j = i" and "j_state j = Queued"
  shows "at_rest E (w_db u)" and "Suc (unfinished_jobs (w_db u)) = unfinished_jobs d0"
proof -
  let ?unf = "\<lambda>j. j_state j \<in> set UNFINISHED_STATES"
  obtain k where k: "k \<in> set (jobs (w_db u))" "j_id k = i" "j_state k \<in> set result_states"
    using assms(2) by (auto simp: settled_def)
  have d: "ids_distinct (w_db u)" "ids_distinct d0" and same: "others i (w_db u) = others i d0"
    using assms(1,2) by (auto simp: settled_def at_rest_def)
  have kept: "x = k \<or> x \<in> set (jobs d0)" if x: "x \<in> set (jobs (w_db u))" for x
  proof (cases "j_id x = i")
    case True
    then show ?thesis using d(1) k x unfolding ids_distinct_def distinct_map by (metis inj_onD)
  next
    case False
    then have "x \<in> set (others i (w_db u))" using x by (simp add: others_def)
    then show ?thesis unfolding same by (simp add: others_def)
  qed
  have final: "j_state k \<noteq> Queued" "\<not> leased k" "\<not> ?unf k" using k(3) by (auto simp: state_list_defs)
  show "at_rest E (w_db u)"
    using kept assms(1) d(1) final unfolding at_rest_def list_all_iff by metis
  show "Suc (unfinished_jobs (w_db u)) = unfinished_jobs d0"
  proof -
    have "unfinished_jobs (w_db u) = length (filter ?unf (others i (w_db u)))"
      using count_split [of "jobs (w_db u)" k ?unf] d(1) k final(3)
      by (simp add: unfinished_jobs_def ids_distinct_def others_def del: filter_filter)
    moreover have "unfinished_jobs d0 = Suc (length (filter ?unf (others i d0)))"
      using count_split [of "jobs d0" j ?unf] d(2) assms(3-5)
      by (simp add: unfinished_jobs_def ids_distinct_def others_def UNFINISHED_STATES_def del: filter_filter)
    ultimately show ?thesis by (simp add: same)
  qed
qed

lemma step_at_rest:
  assumes "alone E C" and "at_rest E (w_db w)"
  shows "succeeds (worker_step E C) w (\<lambda>found u.
    if unfinished_jobs (w_db w) = 0 then \<not> found \<and> unchanged w u
    else found \<and> at_rest E (w_db u) \<and> Suc (unfinished_jobs (w_db u)) = unfinished_jobs (w_db w)
      \<and> w_published u = Suc (w_published w))"
proof -
  let ?Q = "\<lambda>w found u. if unfinished_jobs (w_db w) = 0 then \<not> found \<and> unchanged w u
    else found \<and> at_rest E (w_db u) \<and> Suc (unfinished_jobs (w_db u)) = unfinished_jobs (w_db w)
      \<and> w_published u = Suc (w_published w)"
  let ?rest = "and_then (claim_after_reaping E C)
    (\<lambda>c. case c of None \<Rightarrow> ret False | Some j \<Rightarrow> and_then (work_on E C j) (\<lambda>_. ret True))"
  have rest: "succeeds ?rest v (?Q v)" if v: "at_rest E (w_db v)" for v
  proof (cases "unfinished_jobs (w_db v) = 0")
    case True
    have again: "succeeds (claim_job E C) u (\<lambda>c x. c = None \<and> unchanged v x)" if "unchanged v u" for u
      using nothing_claimed [OF assms(1), of u] that v True
      by (intro succeeds_mono [OF nothing_claimed [OF assms(1), of u]]) (auto simp: unchanged_def)
    have reaped: "succeeds (and_then (reap_lapsed E C False) (\<lambda>_. claim_job E C)) u (\<lambda>c x. c = None \<and> unchanged v x)"
      if u: "unchanged v u" for u
    proof -
      have "at_rest E (w_db u)" using u v by (simp add: unchanged_def)
      then show ?thesis
        by (intro succeeds_and_then [OF reaped_unchanged [OF assms(1)]]) (auto intro: again unchanged_trans [OF u])
    qed
    have "succeeds (claim_after_reaping E C) v (\<lambda>c x. c = None \<and> unchanged v x)"
      unfolding claim_after_reaping_def
      by (rule succeeds_and_then [OF nothing_claimed [OF assms(1) v True]]) (auto intro: reaped)
    then show ?thesis by (rule succeeds_and_then) (auto simp: True)
  next
    case False
    have claimed: "succeeds (claim_after_reaping E C) v (\<lambda>c u. \<exists>x j. c = Some x \<and> j \<in> set (jobs (w_db v))
        \<and> j_id j = c_id x \<and> j_state j = Queued
        \<and> in_hand C (w_db v) (w_published v) (c_id x) (c_attempt x) Claimed 3 u)"
      unfolding claim_after_reaping_def by (rule succeeds_and_then [OF claimed_in_hand [OF assms(1) v False]]) auto
    show ?thesis
    proof (rule succeeds_and_then [OF claimed])
      fix c :: "claimed_job option" and u :: worker
      assume "\<exists>x j. c = Some x \<and> j \<in> set (jobs (w_db v)) \<and> j_id j = c_id x \<and> j_state j = Queued
        \<and> in_hand C (w_db v) (w_published v) (c_id x) (c_attempt x) Claimed 3 u"
      then obtain x j where c: "c = Some x" and j: "j \<in> set (jobs (w_db v))" "j_id j = c_id x" "j_state j = Queued"
        and h: "in_hand C (w_db v) (w_published v) (c_id x) (c_attempt x) Claimed 3 u" by blast
      have "succeeds (and_then (work_on E C x) (\<lambda>_. ret True)) u (?Q v)"
      proof (rule succeeds_and_then [OF work_settles [OF assms(1) h]])
        fix a and u' :: worker
        assume st: "settled (w_db v) (Suc (w_published v)) (c_id x) u'"
        from settled_rest [OF v st j] st False show "succeeds (ret True) u' (?Q v)" by (simp add: settled_def)
      qed
      then show "succeeds (case c of None \<Rightarrow> ret False | Some j \<Rightarrow> and_then (work_on E C j) (\<lambda>_. ret True)) u (?Q v)"
        by (simp add: c)
    qed
  qed
  have first: "succeeds (if due then reap_lapsed E C True else ret ()) w (\<lambda>_. unchanged w)" for due
    using reaped_unchanged [OF assms] by (simp add: unchanged_def)
  have "succeeds (and_then (if due then reap_lapsed E C True else ret ()) (\<lambda>_. ?rest)) w (?Q w)" for due
  proof (rule succeeds_and_then [OF first])
    fix u assume u: "unchanged w u"
    then have "?Q u = ?Q w" by (simp add: unchanged_def)
    then show "succeeds ?rest u (?Q w)" using rest [of u] u assms(2) by (simp add: unchanged_def)
  qed
  from this [of "reap_due E C w"] show ?thesis by (simp only: succeeds_def worker_step_def)
qed

lemma worker_run_at_rest:
  assumes "alone E C"
  shows "at_rest E (w_db w) \<Longrightarrow> unfinished_jobs (w_db w) < fuel \<Longrightarrow>
    \<exists>w'. worker_run fuel E C True (\<lambda>_. False) k delay w = Some (Inr (w_published w + unfinished_jobs (w_db w)), w')
      \<and> unfinished_jobs (w_db w') = 0"
proof (induction fuel arbitrary: k delay w)
  case (Suc fuel)
  obtain found u where step: "worker_step E C w = (Inr found, u)"
    and after: "if unfinished_jobs (w_db w) = 0 then \<not> found \<and> unchanged w u
      else found \<and> at_rest E (w_db u) \<and> Suc (unfinished_jobs (w_db u)) = unfinished_jobs (w_db w)
        \<and> w_published u = Suc (w_published w)"
    using step_at_rest [OF assms Suc.prems(1)] by (auto simp: succeeds_def)
  show ?case
  proof (cases "unfinished_jobs (w_db w) = 0")
    case True
    with after have u: "\<not> found" "unchanged w u" by simp_all
    obtain n v where n: "db_call E (\<lambda>k clk d. (unfinished_jobs d, d)) u = (Inr n, v)" "unchanged u v"
        "n = unfinished_jobs (w_db u)"
      using looked [OF assms, of "\<lambda>k clk d. (unfinished_jobs d, d)" u] by (auto simp: succeeds_def)
    with True u step show ?thesis by (simp add: unchanged_def)
  next
    case False
    with after have u: "found" "at_rest E (w_db u)" "Suc (unfinished_jobs (w_db u)) = unfinished_jobs (w_db w)"
      "w_published u = Suc (w_published w)" by simp_all
    then have "unfinished_jobs (w_db u) < fuel" using Suc.prems(2) by simp
    from Suc.IH [OF u(2) this, of "Suc k" "min_poll_seconds C"] u step show ?thesis
      by (simp flip: u(3))
  qed
qed simp

lemma reachable_at_rest:
  assumes "fleet_reachable sha (now, d)"
    and "list_all (\<lambda>j. \<not> leased j \<and> (j_state j = Queued \<longrightarrow> (\<forall>k. j_available_at j \<le> scanned E k (j_id j)))) (jobs d)"
  shows "at_rest E d"
proof -
  note inv = reachable_inv [OF assms(1)]
  have "ids_distinct d" using inv_tables [OF inv] by (simp add: tables_ok_def ids_distinct_def)
  moreover have "j_cancel_requested_at j = None" if "j \<in> set (jobs d)" "j_state j = Queued" for j
    using inv_job [OF inv that(1)] that(2) by (auto simp: job_ok_def state_ok_def)
  ultimately show ?thesis using assms(2) by (auto simp: at_rest_def list_all_iff)
qed

text \<open>
  C5. A worker that has the fleet to itself drains the queue: from any reachable database where no job is leased
  and every queued job may be claimed, when each attempt ends with an outcome after any number of heartbeats
  and a lease outlives four calls, the worker returns within one turn per job and one more, having published
  a result for every job that was unfinished and leaving none.
\<close>

theorem worker_drains_queue:
  assumes "alone E C" and "fleet_reachable sha (w_time w, w_db w)"
    and "list_all (\<lambda>j. \<not> leased j \<and> (j_state j = Queued \<longrightarrow> (\<forall>k. j_available_at j \<le> scanned E k (j_id j)))) (jobs (w_db w))"
    and "unfinished_jobs (w_db w) < fuel"
  shows "\<exists>w'. worker_run fuel E C True (\<lambda>_. False) k delay w = Some (Inr (w_published w + unfinished_jobs (w_db w)), w')
    \<and> unfinished_jobs (w_db w') = 0"
  by (rule worker_run_at_rest [OF assms(1) reachable_at_rest [OF assms(2,3)] assms(4)])

lemma quiet_alone: "alone quiet demo_config"
  by (simp add: alone_def quiet_def demo_config_def make_interval_def)

theorem worker_drains_queue_witness:
  "\<exists>w'. worker_run 3 quiet demo_config True (\<lambda>_. False) 0 (1 / 20) demo_worker = Some (Inr 2, w')
     \<and> unfinished_jobs (w_db w') = 0"
proof -
  have reach: "fleet_reachable demo_sha (w_time demo_worker, w_db demo_worker)"
    unfolding demo_worker_def worker.select_convs by (rule reach_step [OF demo_submitted_reachable]) (rule step_tick, simp)
  have two: "unfinished_jobs (w_db demo_worker) = 2" "w_published demo_worker = 0" by code_simp+
  have ready: "list_all (\<lambda>j. \<not> leased j \<and> j_available_at j \<le> 60000000) (jobs (w_db demo_worker))" by code_simp
  have "scanned quiet k i = 60000000" for k i by (simp add: quiet_def)
  with ready have "list_all (\<lambda>j. \<not> leased j \<and> (j_state j = Queued \<longrightarrow> (\<forall>k. j_available_at j \<le> scanned quiet k (j_id j))))
      (jobs (w_db demo_worker))" by (auto simp: list_all_iff)
  from worker_drains_queue [OF quiet_alone reach this, of 3 0 "1 / 20"] two show ?thesis by (simp add: numeral_2_eq_2)
qed

end
