(* ===== verification/Fleet_Containers.thy ===== *)
theory Fleet_Containers
  imports Fleet_Execution
begin

text \<open>
  What a task's container gets (\<^verbatim>\<open>fleet/containers.py\<close>) and the proxy that is its only way out
  (\<^verbatim>\<open>fleet/egress.py\<close>). A configuration is the JSON object handed to the daemon; the text of the
  seccomp profile is the parameter \<open>seccomp\<close>. The head of a request is its bytes, which Latin-1
  decodes one to one.
\<close>

section \<open>Configurations\<close>

definition TASK_UID :: int where
  "TASK_UID = 10001"

definition DEADLINE_GRACE_SECONDS :: int where
  "DEADLINE_GRACE_SECONDS = 30"

definition MANAGED :: string where
  "MANAGED = ''fleet.managed''"

definition TOKEN_VARIABLE :: string where
  "TOKEN_VARIABLE = ''FLEET_ATTEMPT_TOKEN''"

definition labels :: "int \<Rightarrow> int \<Rightarrow> string \<Rightarrow> json" where
  "labels job attempt worker = JObj
     [(MANAGED, JStr ''1''), (''fleet.job'', JStr (show_int job)),
      (''fleet.attempt'', JStr (show_int attempt)), (''fleet.worker'', JStr worker)]"

definition locked_down :: "string \<Rightarrow> execution_policy \<Rightarrow> (string \<times> json) list" where
  "locked_down seccomp p =
     [(''NanoCpus'', JInt \<lfloor>cpus p * 1000000000\<rfloor>),
      (''Memory'', JInt (memory_mb p * 1024 * 1024)),
      (''MemorySwap'', JInt (memory_mb p * 1024 * 1024)),
      (''PidsLimit'', JInt (pids p)),
      (''ReadonlyRootfs'', JBool True),
      (''CapDrop'', JList [JStr ''ALL'']),
      (''SecurityOpt'', JList [JStr ''no-new-privileges'', JStr (''seccomp='' @ seccomp)]),
      (''Init'', JBool False),
      (''LogConfig'', JObj [(''Type'', JStr ''json-file''),
                          (''Config'', JObj [(''max-size'', JStr ''8m''), (''max-file'', JStr ''1'')])])]"

definition task_env :: "string \<Rightarrow> string option \<Rightarrow> (string \<times> string) list" where
  "task_env token proxy =
     [(''HOME'', ''/tmp''), (''TMPDIR'', ''/tmp''), (''PYTHONDONTWRITEBYTECODE'', ''1''),
      (''SANDBOX_REQUIRE_ISOLATION'', ''1''), (TOKEN_VARIABLE, token)]
     @ (case proxy of
          None \<Rightarrow> []
        | Some url \<Rightarrow> [(''HTTPS_PROXY'', url), (''HTTP_PROXY'', url), (''https_proxy'', url), (''http_proxy'', url)])"

definition user :: string where
  "user = show_int TASK_UID @ '':'' @ show_int TASK_UID"

definition task_config ::
  "string \<Rightarrow> string \<Rightarrow> string \<Rightarrow> execution_policy \<Rightarrow> string \<Rightarrow> string \<Rightarrow> string option \<Rightarrow> string option \<Rightarrow> json \<Rightarrow> json" where
  "task_config seccomp img runner p input_dir token network proxy tags = JObj
     [(''Image'', JStr img),
      (''Cmd'', JList (map JStr
         [''python'', ''-m'', ''fleet.task'', ''--runner'', runner, ''--deadline-seconds'',
          show_int (\<lfloor>timeout_seconds p\<rfloor> + DEADLINE_GRACE_SECONDS)])),
      (''User'', JStr user), (''WorkingDir'', JStr ''/tmp''),
      (''Env'', JList (map (\<lambda>(k, v). JStr (k @ ''='' @ v)) (task_env token proxy))),
      (''Labels'', tags),
      (''HostConfig'', JObj (locked_down seccomp p @
         [(''Tmpfs'', JObj [(''/tmp'', JStr (''rw,nosuid,nodev,exec,size='' @ show_int (tmp_mb p) @ ''m''))]),
          (''Binds'', JList [JStr (input_dir @ '':/in:ro'')]),
          (''NetworkMode'', JStr (case network of None \<Rightarrow> ''none'' | Some n \<Rightarrow> if n = [] then ''none'' else n))]))]"

definition PROXY_POLICY :: execution_policy where
  "PROXY_POLICY = \<lparr>cpus = 1 / 2, memory_mb = 128, pids = 64, tmp_mb = 512, timeout_seconds = 600, egress = []\<rparr>"

definition proxy_args :: "string list \<Rightarrow> string list" where
  "proxy_args granted =
     [''python'', ''-m'', ''fleet.egress'', ''--port'', ''3128'']
     @ concat (map (\<lambda>d. [''--allow'', d]) granted)"

definition proxy_config :: "string \<Rightarrow> string \<Rightarrow> string list \<Rightarrow> string \<Rightarrow> json \<Rightarrow> json" where
  "proxy_config seccomp img granted network tags = JObj
     [(''Image'', JStr img), (''Cmd'', JList (map JStr (proxy_args granted))), (''User'', JStr user),
      (''Labels'', tags),
      (''HostConfig'', JObj (locked_down seccomp PROXY_POLICY @ [(''NetworkMode'', JStr network)]))]"

section \<open>The egress proxy\<close>

text \<open>The values of \<^verbatim>\<open>--allow\<close> among the arguments, in lower case, as \<^verbatim>\<open>main\<close> passes them on.\<close>

fun allowed_args :: "string list \<Rightarrow> string list" where
  "allowed_args (flag # v # rest) =
     (if flag = ''--allow'' then lower v # allowed_args rest else allowed_args (v # rest))"
| "allowed_args _ = []"

datatype proxy_action =
    Closed
  | Refuse nat
  | Connect string nat
  | Crashed

text \<open>\<^verbatim>\<open>str.split()\<close> on decoded Latin-1, where 0x85 and 0xA0 are white space too.\<close>

definition latin1_words :: "string \<Rightarrow> string list" where
  "latin1_words s = split_ws (map (\<lambda>c. if code c = 133 \<or> code c = 160 then CHR '' '' else c) s)"

fun first_line :: "string \<Rightarrow> string" where
  "first_line [] = []"
| "first_line [c] = [c]"
| "first_line (c # d # s) = (if code c = 13 \<and> code d = 10 then [] else c # first_line (d # s))"

text \<open>
  \<^verbatim>\<open>handle\<close> up to the connection: \<open>head\<close> is the request's head, or nothing when it did not come in
  time, whole and within the limit. Connecting may still fail, which answers 502.
\<close>

definition handle :: "string option \<Rightarrow> string list \<Rightarrow> proxy_action" where
  "handle head allowed =
     (case head of
        None \<Rightarrow> Closed
      | Some h \<Rightarrow>
          (case latin1_words (first_line h) of
             [verb, t, version] \<Rightarrow>
               if verb \<noteq> ''CONNECT'' then Refuse 405
               else let target = lower t
                    in if target \<notin> set allowed then Refuse 403
                       else let (host, port) = rpartition_on (CHR '':'') target
                            in if isdigit port then Connect host (read_nat port) else Crashed
           | _ \<Rightarrow> Refuse 405))"

definition answer :: "proxy_action \<Rightarrow> bool \<Rightarrow> nat option" where
  "answer a reached =
     (case a of
        Closed \<Rightarrow> None
      | Refuse status \<Rightarrow> Some status
      | Connect _ _ \<Rightarrow> Some (if reached then 200 else 502)
      | Crashed \<Rightarrow> None)"

section \<open>A task reaches what was granted\<close>

lemma allowed_args_granted: "allowed_args (concat (map (\<lambda>d. [''--allow'', d]) ds)) = map lower ds"
  by (induction ds) simp_all

lemma allowed_proxy_args: "allowed_args (proxy_args ds) = map lower ds"
  by (cases ds) (simp_all add: proxy_args_def allowed_args_granted)

lemma destination_port_colon: "destination_port v = Some p \<Longrightarrow> CHR '':'' \<in> set v"
  by (auto simp: destination_port_def Let_def split: if_splits)

lemma lower_set: "c \<in> set (lower s) \<Longrightarrow> \<not> is_upper c"
  by (auto simp: lower_def)

text \<open>
  C17. A task's way out is what its batch was granted: a proxy started with the arguments of its
  configuration connects a request only to a destination of the policy, and when the operator's
  limits admitted that policy, only to one the operator allows to be granted.
\<close>

theorem egress_only_granted:
  assumes "check_policy limits policy = Inr ()" and "\<forall>d \<in> set (egress policy). lower d = d"
    and "handle head (allowed_args (proxy_args (egress policy))) = Connect host port"
  shows "\<exists>target digits. target \<in> set (egress policy) \<and> target \<in> set (grantable_egress limits)
    \<and> rpartition_on (CHR '':'') target = (host, digits) \<and> isdigit digits \<and> port = read_nat digits"
proof -
  have "map lower (egress policy) = egress policy" using assms(2) by (simp add: map_idI)
  then have "handle head (egress policy) = Connect host port"
    using assms(3) by (simp add: allowed_proxy_args)
  then obtain target digits where "target \<in> set (egress policy)"
    "rpartition_on (CHR '':'') target = (host, digits)" "isdigit digits" "port = read_nat digits"
    by (auto simp: handle_def Let_def split: option.splits list.splits if_splits prod.splits)
  moreover have "set (egress policy) \<subseteq> set (grantable_egress limits)"
    using assms(1) by (auto simp: check_policy_def Let_def over_limits_Nil_iff split: if_splits)
  ultimately show ?thesis by blast
qed

definition granted_policy :: execution_policy where
  "granted_policy = DEFAULT_POLICY\<lparr>egress := [''api.host:443'']\<rparr>"

definition granting_limits :: OperatorLimits where
  "granting_limits = DEFAULT_LIMITS\<lparr>grantable_egress := [''api.host:443'', ''other.host:80'']\<rparr>"

theorem egress_only_granted_witness:
  "handle (Some ''CONNECT API.host:443 HTTP/1.1'') (allowed_args (proxy_args (egress granted_policy))) = Connect ''api.host'' 443
   \<and> handle (Some ''CONNECT other.host:80 HTTP/1.1'') (allowed_args (proxy_args (egress granted_policy))) = Refuse 403
   \<and> ''api.host:443'' \<in> set (grantable_egress granting_limits)"
proof -
  have c: "handle (Some ''CONNECT API.host:443 HTTP/1.1'') (allowed_args (proxy_args (egress granted_policy))) = Connect ''api.host'' 443"
    and r: "handle (Some ''CONNECT other.host:80 HTTP/1.1'') (allowed_args (proxy_args (egress granted_policy))) = Refuse 403"
    and ok: "check_policy granting_limits granted_policy = Inr ()" and low: "\<forall>d \<in> set (egress granted_policy). lower d = d"
    by code_simp+
  have "\<exists>target. target \<in> set (egress granted_policy) \<and> target \<in> set (grantable_egress granting_limits)"
    using egress_only_granted [OF ok low c] by blast
  then have "''api.host:443'' \<in> set (grantable_egress granting_limits)" by (simp add: granted_policy_def)
  with c r show ?thesis by blast
qed

end
