(* ===== verification/Fleet_Failpoints.thy ===== *)
theory Fleet_Failpoints
  imports Pystr
begin

text \<open>
  The fault injection points, \<^verbatim>\<open>fleet/failpoints.py\<close>: the text that arms them, and what an
  arrival at a point does. An armed point is a row of a dictionary keyed by the point's name; what it
  fires is the effect the process meets, and a line is logged before it.
\<close>

section \<open>Arming\<close>

definition ACTIONS :: "string list" where
  "ACTIONS = [''kill'', ''stop'', ''drop'']"

definition POINTS :: "string list" where
  "POINTS = [''api.submit.after_commit'', ''claim.before'', ''claim.before_commit'', ''claim.after_commit'',
     ''start.after_commit'', ''heartbeat.before'', ''publish.before'', ''publish.before_commit'',
     ''publish.after_commit'', ''release.before_commit'', ''release.after_commit'', ''reap.before_commit'',
     ''cancel.before_commit'', ''cancel.after_commit'']"

datatype failpoint_error =
    No_point string
  | No_action string string
  | Bad_hit string

record armed =
  action :: string
  hit :: nat
  seen :: nat

definition arm_item :: "string \<Rightarrow> failpoint_error + string \<times> armed" where
  "arm_item item =
     (let (point, rest) = partition_on (CHR ''='') item; (act, h) = partition_on (CHR ''@'') rest
      in if point \<notin> set POINTS then Inl (No_point point)
         else if act \<notin> set ACTIONS then Inl (No_action point act)
         else if \<not> isdigit h \<or> read_nat h < 1 then Inl (Bad_hit point)
         else Inr (point, \<lparr>action = act, hit = read_nat h, seen = 0\<rparr>))"

fun arm_items :: "string list \<Rightarrow> (string \<times> armed) list \<Rightarrow> failpoint_error + (string \<times> armed) list" where
  "arm_items [] d = Inr d"
| "arm_items (item # items) d =
     (case arm_item item of Inl e \<Rightarrow> Inl e | Inr (p, a) \<Rightarrow> arm_items items (dict_put d p a))"

definition parse :: "string \<Rightarrow> failpoint_error + (string \<times> armed) list" where
  "parse spec = arm_items (filter (\<lambda>s. s \<noteq> []) (map strip (split_on (CHR '','') spec))) []"

section \<open>Arriving at a point\<close>

datatype effect = Nothing | Killed | Stopped | Connection_terminated | Connection_reset

record points =
  armed_points :: "(string \<times> armed) list"
  fired :: "(string \<times> string) list"

definition remove :: "'k \<Rightarrow> ('k \<times> 'a) list \<Rightarrow> ('k \<times> 'a) list" where
  "remove k d = filter (\<lambda>(k', _). k' \<noteq> k) d"

definition failpoint :: "string \<Rightarrow> bool \<Rightarrow> points \<Rightarrow> effect \<times> points" where
  "failpoint point in_transaction s =
     (case dict_get (armed_points s) point of
        None \<Rightarrow> (Nothing, s)
      | Some a \<Rightarrow>
          let n = seen a + 1
          in if n \<noteq> hit a
             then (Nothing, s\<lparr>armed_points := dict_put (armed_points s) point (a\<lparr>seen := n\<rparr>)\<rparr>)
             else (if action a = ''kill'' then Killed else if action a = ''stop'' then Stopped
                   else if in_transaction then Connection_terminated else Connection_reset,
                   s\<lparr>armed_points := remove point (armed_points s), fired := fired s @ [(point, action a)]\<rparr>))"

text \<open>A process arriving at points in turn, each inside a transaction or not.\<close>

fun arrivals :: "(string \<times> bool) list \<Rightarrow> points \<Rightarrow> effect list \<times> points" where
  "arrivals [] s = ([], s)"
| "arrivals ((p, t) # ps) s =
     (let (e, s') = failpoint p t s; (es, s'') = arrivals ps s' in (e # es, s''))"

section \<open>Each armed point fires once\<close>

lemma dict_get_remove: "dict_get (remove k d) k' = (if k' = k then None else dict_get d k')"
  by (induction d) (auto simp: remove_def)

lemma failpoint_get:
  "dict_get (armed_points (snd (failpoint p t s))) q =
     (if q \<noteq> p then dict_get (armed_points s) q
      else (case dict_get (armed_points s) p of
              None \<Rightarrow> None
            | Some a \<Rightarrow> if seen a + 1 = hit a then None else Some (a\<lparr>seen := seen a + 1\<rparr>)))"
  by (auto simp: failpoint_def Let_def dict_get_remove split: option.splits)

definition fires :: "string \<Rightarrow> points \<Rightarrow> string list" where
  "fires p s = map snd (filter (\<lambda>(q, _). q = p) (fired s))"

lemma failpoint_fires:
  "fires q (snd (failpoint p t s)) =
     fires q s @ (case dict_get (armed_points s) p of
                    Some a \<Rightarrow> if q = p \<and> seen a + 1 = hit a then [action a] else []
                  | None \<Rightarrow> [])"
  by (auto simp: failpoint_def fires_def Let_def split: option.splits)

lemma snd_arrivals: "snd (arrivals (x # ps) s) = snd (arrivals ps (snd (failpoint (fst x) (snd x) s)))"
  by (cases x) (simp add: Let_def split: prod.splits)

lemma arrivals_unarmed:
  "dict_get (armed_points s) p = None \<Longrightarrow> fires p (snd (arrivals ps s)) = fires p s"
proof (induction ps arbitrary: s)
  case (Cons x ps)
  then have "dict_get (armed_points (snd (failpoint (fst x) (snd x) s))) p = None"
    and "fires p (snd (failpoint (fst x) (snd x) s)) = fires p s"
    by (auto simp: failpoint_get failpoint_fires split: option.splits)
  with Cons.IH show ?case by (simp add: snd_arrivals del: arrivals.simps)
qed simp

lemma fires_on_its_hit:
  assumes "dict_get (armed_points s) p = Some a" and "seen a = 0" and "1 \<le> hit a" and "fires p s = []"
  shows "fires p (snd (arrivals ps s)) =
     (if hit a \<le> length (filter (\<lambda>(q, _). q = p) ps) then [action a] else [])"
proof -
  have "fires p (snd (arrivals ps s)) =
      (if hit a \<le> seen a + length (filter (\<lambda>(q, _). q = p) ps) then [action a] else [])"
    if "dict_get (armed_points s) p = Some a" "seen a < hit a" "fires p s = []" for a s
    using that
  proof (induction ps arbitrary: a s)
    case (Cons x ps)
    let ?q = "fst x" and ?s = "snd (failpoint (fst x) (snd x) s)"
    show ?case
    proof (cases "?q = p \<and> seen a + 1 = hit a")
      case True
      then have "dict_get (armed_points ?s) p = None" "fires p ?s = [action a]"
        using Cons.prems by (simp_all add: failpoint_get failpoint_fires)
      then show ?thesis
        using True by (cases x) (simp add: snd_arrivals arrivals_unarmed del: arrivals.simps)
    next
      case False
      let ?a = "if ?q = p then a\<lparr>seen := seen a + 1\<rparr> else a"
      have "dict_get (armed_points ?s) p = Some ?a" "seen ?a < hit ?a" "fires p ?s = []"
        using Cons.prems False by (auto simp: failpoint_get failpoint_fires split: option.splits)
      from Cons.IH [OF this] show ?thesis
        by (cases x; cases "?q = p") (simp_all add: snd_arrivals del: arrivals.simps)
    qed
  qed simp
  from this [OF assms(1) _ assms(4)] show ?thesis using assms(2,3) by simp
qed

text \<open>
  C18. An armed point fires exactly once, at the arrival it was armed for: after any arrivals at any
  points, a point armed at its \<open>n\<close>-th hit has fired its action once when it was reached \<open>n\<close> times
  or more, and not at all before.
\<close>

theorem failpoint_fires_once:
  assumes "dict_get (armed_points s) p = Some a" and "seen a = 0" and "1 \<le> hit a" and "fires p s = []"
  shows "fires p (snd (arrivals ps s)) =
     (if hit a \<le> length (filter (\<lambda>(q, _). q = p) ps) then [action a] else [])"
  by (rule fires_on_its_hit [OF assms])

theorem failpoint_fires_once_witness:
  "fires ''claim.before'' (snd (arrivals (replicate 5 (''claim.before'', False))
     \<lparr>armed_points = [(''claim.before'', \<lparr>action = ''kill'', hit = 3, seen = 0\<rparr>)], fired = []\<rparr>)) = [''kill'']"
  using failpoint_fires_once [of "\<lparr>armed_points = [(''claim.before'', \<lparr>action = ''kill'', hit = 3, seen = 0\<rparr>)], fired = []\<rparr>"
      "''claim.before''" "\<lparr>action = ''kill'', hit = 3, seen = 0\<rparr>" "replicate 5 (''claim.before'', False)"]
  by (simp add: fires_def)

section \<open>The text that arms them\<close>

definition item_text :: "string \<Rightarrow> string \<Rightarrow> nat \<Rightarrow> string" where
  "item_text p act n = p @ ''='' @ act @ ''@'' @ show_nat n"

lemma partition_on_append:
  "sep \<notin> set a \<Longrightarrow> partition_on sep (a @ sep # b) = (a, b)"
  by (induction a) (auto simp: partition_on_def)

lemma show_nat_no: "\<not> is_digit c \<Longrightarrow> c \<notin> set (show_nat n)"
  using show_nat_digits [of n] by (auto simp: list_all_iff)

lemma arm_item_text:
  assumes "p \<in> set POINTS" and "act \<in> set ACTIONS" and "1 \<le> n"
  shows "arm_item (item_text p act n) = Inr (p, \<lparr>action = act, hit = n, seen = 0\<rparr>)"
proof -
  have "CHR ''='' \<notin> set p" using assms(1) by (auto simp: POINTS_def)
  moreover have "CHR ''@'' \<notin> set act" using assms(2) by (auto simp: ACTIONS_def)
  ultimately show ?thesis
    using assms by (simp add: arm_item_def item_text_def partition_on_append)
qed

lemma split_on_join:
  assumes "ws \<noteq> []" and "\<forall>w \<in> set ws. sep \<notin> set w"
  shows "split_on sep (join [sep] ws) = ws"
proof -
  have one: "sep \<notin> set w \<Longrightarrow> split_on sep w = [w]" for w by (induction w) auto
  have more: "sep \<notin> set w \<Longrightarrow> split_on sep (w @ sep # s) = w # split_on sep s" for w s
    by (induction w) auto
  show ?thesis using assms
  proof (induction ws rule: induct_list012)
    case (3 x y zs)
    then show ?case by (simp add: more)
  qed (simp_all add: one)
qed

lemma strip_id: "s \<noteq> [] \<Longrightarrow> \<not> is_space (hd s) \<Longrightarrow> \<not> is_space (last s) \<Longrightarrow> strip s = s"
proof -
  assume s: "s \<noteq> []" "\<not> is_space (hd s)" "\<not> is_space (last s)"
  then have "dropWhile is_space s = s" by (cases s) auto
  moreover have "dropWhile is_space (rev s) = rev s" using s by (cases s rule: rev_cases) auto
  ultimately show ?thesis by (simp add: strip_def)
qed

lemma item_text_strip:
  assumes "p \<in> set POINTS"
  shows "strip (item_text p act n) = item_text p act n" and "item_text p act n \<noteq> []"
proof -
  have "p \<noteq> []" "\<not> is_space (hd p)" using assms by (auto simp: POINTS_def is_space_def code_def)
  moreover have "last (item_text p act n) = last (show_nat n)" by (simp add: item_text_def)
  moreover have "is_digit (last (show_nat n))"
    using show_nat_digits [of n] by (simp add: list_all_iff)
  then have "\<not> is_space (last (show_nat n))" by (auto simp: is_digit_def is_space_def)
  ultimately show "strip (item_text p act n) = item_text p act n" and "item_text p act n \<noteq> []"
    by (intro strip_id) (auto simp: item_text_def)
qed

lemma parse_items:
  assumes "ps \<noteq> []" and "\<forall>(p, act, n) \<in> set ps. p \<in> set POINTS \<and> act \<in> set ACTIONS \<and> 1 \<le> n"
  shows "parse (join [CHR '',''] (map (\<lambda>(p, act, n). item_text p act n) ps)) =
    Inr (dict_of (map (\<lambda>(p, act, n). (p, \<lparr>action = act, hit = n, seen = 0\<rparr>)) ps))"
proof -
  let ?items = "map (\<lambda>(p, act, n). item_text p act n) ps"
  have comma: "CHR '','' \<notin> set (item_text p act n)" if "p \<in> set POINTS" "act \<in> set ACTIONS" for p act n
  proof -
    have "CHR '','' \<notin> set p" "CHR '','' \<notin> set act" using that by (auto simp: POINTS_def ACTIONS_def)
    moreover have "CHR '','' \<notin> set (show_nat n)" by (rule show_nat_no) (simp add: is_digit_def code_def)
    ultimately show ?thesis by (simp add: item_text_def)
  qed
  have "split_on (CHR '','') (join [CHR '',''] ?items) = ?items"
    using assms comma by (intro split_on_join) auto
  moreover have "filter (\<lambda>s. s \<noteq> []) (map strip ?items) = ?items"
    using assms(2) item_text_strip by (induction ps) auto
  moreover have "arm_items ?items d = Inr (fold (\<lambda>(k, v) d. dict_put d k v)
      (map (\<lambda>(p, act, n). (p, \<lparr>action = act, hit = n, seen = 0\<rparr>)) ps) d)" for d
    using assms(2)
  proof (induction ps arbitrary: d)
    case (Cons x ps)
    then show ?case by (cases x) (simp add: arm_item_text)
  qed simp
  ultimately show ?thesis by (simp add: parse_def dict_of_def)
qed

text \<open>
  What arms points is read back as written: for known points and actions and hits from 1, the
  pairs written \<^verbatim>\<open>point=action@hit\<close> with commas between them arm exactly those points, the
  last pair winning for a point named twice.
\<close>

theorem parse_armed_text:
  assumes "ps \<noteq> []" and "\<forall>(p, act, n) \<in> set ps. p \<in> set POINTS \<and> act \<in> set ACTIONS \<and> 1 \<le> n"
  shows "parse (join [CHR '',''] (map (\<lambda>(p, act, n). item_text p act n) ps)) =
    Inr (dict_of (map (\<lambda>(p, act, n). (p, \<lparr>action = act, hit = n, seen = 0\<rparr>)) ps))"
  by (rule parse_items [OF assms])

theorem parse_armed_text_witness:
  "parse ''claim.before=kill@3,reap.before_commit=drop@12'' =
     Inr [(''claim.before'', \<lparr>action = ''kill'', hit = 3, seen = 0\<rparr>),
          (''reap.before_commit'', \<lparr>action = ''drop'', hit = 12, seen = 0\<rparr>)]"
proof -
  let ?ps = "[(''claim.before'', ''kill'', 3), (''reap.before_commit'', ''drop'', 12)] :: (string \<times> string \<times> nat) list"
  have written: "join [CHR '',''] (map (\<lambda>(p, act, n). item_text p act n) ?ps) =
      ''claim.before=kill@3,reap.before_commit=drop@12''" by code_simp
  have "parse (join [CHR '',''] (map (\<lambda>(p, act, n). item_text p act n) ?ps)) =
      Inr (dict_of (map (\<lambda>(p, act, n). (p, \<lparr>action = act, hit = n, seen = 0\<rparr>)) ?ps))"
    by (rule parse_armed_text) (simp_all add: POINTS_def ACTIONS_def)
  then show ?thesis unfolding written by (simp add: dict_of_def)
qed

end
