(* ===== verification/Fleet_Api.thy ===== *)
theory Fleet_Api
  imports Fleet_Queue
begin

text \<open>
  The control plane, \<^verbatim>\<open>fleet/api.py\<close>, and its client, \<^verbatim>\<open>fleet/client.py\<close>. A handler answers a status
  code and, when that is a success, a value; a request the framework refuses to decode answers 422. The
  client's submit sends a keyed batch again while the api is unreachable or failing.
\<close>

section \<open>The handlers\<close>

record batch_request =
  br_label :: string
  br_idempotency_key :: "string option"
  br_max_attempts :: int
  br_policy :: execution_policy
  br_jobs :: "new_job list"

definition valid_request :: "batch_request \<Rightarrow> bool" where
  "valid_request b \<longleftrightarrow>
     br_label b \<noteq> [] \<and> 1 \<le> br_max_attempts b \<and> br_jobs b \<noteq> []
     \<and> list_all (\<lambda>j. n_name j \<noteq> [] \<and> is_obj (n_payload j)) (br_jobs b)"

type_synonym 'a response = "nat \<times> 'a option"

definition api_submit ::
  "(json \<Rightarrow> string) \<Rightarrow> OperatorLimits \<Rightarrow> time \<Rightarrow> batch_request \<Rightarrow> db \<Rightarrow> submission response \<times> db" where
  "api_submit sha ceilings now b d =
     (if \<not> valid_request b then ((422, None), d)
      else (case check_policy ceilings (br_policy b) of
              Inl _ \<Rightarrow> ((403, None), d)
            | Inr _ \<Rightarrow>
                (case submit_batch sha now (br_label b) (br_jobs b) (br_idempotency_key b)
                        (br_max_attempts b) (br_policy b) d of
                   (Inl (Idempotency_conflict _), d') \<Rightarrow> ((409, None), d')
                 | (Inl (Value_error _), d') \<Rightarrow> ((500, None), d')
                 | (Inr s, d') \<Rightarrow> ((if s_created s then 201 else 200, Some s), d'))))"

definition found :: "'a option \<Rightarrow> 'a response" where
  "found x = (case x of None \<Rightarrow> (404, None) | Some v \<Rightarrow> (200, Some v))"

definition api_get_batch :: "int \<Rightarrow> db \<Rightarrow> batch_status_row response" where
  "api_get_batch b d = found (batch_status b d)"

definition api_get_job :: "int \<Rightarrow> db \<Rightarrow> job_row response" where
  "api_get_job i d = found (job_status i d)"

definition api_get_result :: "int \<Rightarrow> db \<Rightarrow> result_row response" where
  "api_get_result i d = found (job_result i d)"

definition api_cancel :: "(nat \<Rightarrow> time) \<Rightarrow> int \<Rightarrow> db \<Rightarrow> job_state response \<times> db" where
  "api_cancel clk i d =
     (case cancel clk i d of
        (None, d') \<Rightarrow> ((404, None), d')
      | (Some s, d') \<Rightarrow>
          (if s \<in> set leased_states then ((202, Some s), d')
           else if s \<noteq> Cancelled then ((409, None), d') else ((200, Some s), d')))"

section \<open>The client\<close>

text \<open>What comes back from one send: an answer with its status, or nothing at all.\<close>

datatype 'a http = Answer nat "'a option" | Transport_error

definition is_success :: "nat \<Rightarrow> bool" where
  "is_success status \<longleftrightarrow> 200 \<le> status \<and> status < 300"

definition server_side :: "'a http \<Rightarrow> bool" where
  "server_side r = (case r of Transport_error \<Rightarrow> True | Answer status _ \<Rightarrow> 500 \<le> status)"

text \<open>
  \<^verbatim>\<open>FleetClient.submit\<close>: \<open>send k s\<close> sends the request for the \<open>k\<close>-th time, \<open>clock k\<close> is the reading taken
  when it failed. The result is the last answer, with the number of times the request was sent.
\<close>

fun submit_loop ::
  "nat \<Rightarrow> (nat \<Rightarrow> 's \<Rightarrow> 'a http \<times> 's) \<Rightarrow> bool \<Rightarrow> (nat \<Rightarrow> seconds) \<Rightarrow> seconds \<Rightarrow> seconds \<Rightarrow> nat \<Rightarrow> 's
   \<Rightarrow> ('a http \<times> nat \<times> 's) option" where
  "submit_loop 0 send keyed clock deadline delay k s = None"
| "submit_loop (Suc fuel) send keyed clock deadline delay k s =
     (let (r, s') = send k s
      in case r of
           Answer status v \<Rightarrow>
             if is_success status then Some (r, Suc k, s')
             else if \<not> server_side r \<or> \<not> keyed \<or> deadline < clock k then Some (r, Suc k, s')
             else submit_loop fuel send keyed clock deadline (min (delay * 2) 1) (Suc k) s'
         | Transport_error \<Rightarrow>
             if \<not> keyed \<or> deadline < clock k then Some (r, Suc k, s')
             else submit_loop fuel send keyed clock deadline (min (delay * 2) 1) (Suc k) s')"

definition client_submit ::
  "nat \<Rightarrow> (nat \<Rightarrow> 's \<Rightarrow> 'a http \<times> 's) \<Rightarrow> string option \<Rightarrow> (nat \<Rightarrow> seconds) \<Rightarrow> seconds \<Rightarrow> seconds \<Rightarrow> 's
   \<Rightarrow> ('a http \<times> nat \<times> 's) option" where
  "client_submit fuel send key clock started retry_seconds s =
     submit_loop fuel send (key \<noteq> None) clock (started + retry_seconds) (1 / 20) 0 s"

fun wait_until_done ::
  "nat \<Rightarrow> (nat \<Rightarrow> batch_status_row) \<Rightarrow> (nat \<Rightarrow> seconds) \<Rightarrow> seconds \<Rightarrow> nat \<Rightarrow> batch_status_row option option" where
  "wait_until_done 0 status clock deadline k = None"
| "wait_until_done (Suc fuel) status clock deadline k =
     (if bs_done (status k) then Some (Some (status k))
      else if deadline < clock k then Some None
      else wait_until_done fuel status clock deadline (Suc k))"

section \<open>What the api lets in\<close>

definition admitted :: "OperatorLimits \<Rightarrow> db \<Rightarrow> bool" where
  "admitted l d \<longleftrightarrow> (\<forall>j \<in> set (jobs d). check_policy l (j_policy j) = Inr ())"

lemma new_rows_policy: "j \<in> set (new_rows sha t b m p i js) \<Longrightarrow> j_policy j = p"
  by (auto simp: new_rows_def new_row_def)

lemma submit_batch_jobs:
  "submit_batch sha t label js key m p d = (r, d') \<Longrightarrow>
     jobs d' = jobs d \<or> (\<exists>s. r = Inr s \<and> s_created s
       \<and> jobs d' = jobs d @ new_rows sha t (next_batch_id d) m p (next_job_id d) js)"
  by (auto simp: submit_batch_def Let_def split: if_splits option.splits)


definition demo_request :: batch_request where
  "demo_request = \<lparr>br_label = ''demo'', br_idempotency_key = Some ''k'', br_max_attempts = 2,
                   br_policy = DEFAULT_POLICY, br_jobs = [demo_job ''a'']\<rparr>"


section \<open>Cancelling through the api\<close>

text \<open>
  A cancel's status says what became of the job: 404 exactly for an unknown job, 200 with the job
  cancelled, 202 while the worker that holds its lease is asked to stop, and 409, with nothing
  changed, for a job that finished otherwise.
\<close>

theorem api_cancel_status:
  assumes "fleet_reachable sha (now, d)" and "api_cancel clk i d = ((status, v), d')"
  shows "case get_job i d of
      None \<Rightarrow> status = 404 \<and> d' = d
    | Some j \<Rightarrow>
        (case get_job i d' of
           None \<Rightarrow> False
         | Some k \<Rightarrow>
             (if j_state j \<in> set UNFINISHED_STATES then j_cancel_requested_at k \<noteq> None else d' = d)
             \<and> (status, v) =
                 (if leased k then (202, Some (j_state k))
                  else if j_state k = Cancelled then (200, Some Cancelled) else (409, None)))"
proof -
  note tab = inv_tables [OF reachable_inv [OF assms(1)]]
  show ?thesis
  proof (cases "find (\<lambda>j. j_id j = i \<and> j_state j \<in> set UNFINISHED_STATES) (jobs d)")
    case None
    then have fin: "j_state j \<notin> set UNFINISHED_STATES" if "get_job i d = Some j" for j
      using get_job_Some [OF that] by (auto simp: find_None_iff)
    then have "\<not> leased j" if "get_job i d = Some j" for j
      using fin [OF that] by (auto simp: state_list_defs)
    then show ?thesis
      using assms(2) fin by (auto simp: api_cancel_def cancel_def None split: option.splits if_splits)
  next
    case (Some j)
    then have j: "j \<in> set (jobs d)" "j_id j = i" "j_state j \<in> set UNFINISHED_STATES"
      by (auto dest: find_Some_mem)
    then have g: "get_job i d = Some j" using get_job_mem [OF tab j(1)] by simp
    have uniq: "k = cancel_row clk j" if k: "k \<in> set (jobs (update_job i (cancel_row clk) d))" "j_id k = i" for k
    proof -
      obtain l where l: "l \<in> set (jobs d)" "k = (if j_id l = i then cancel_row clk l else l)"
        using k(1) by (auto simp: update_job_def)
      then have "j_id l = i" using k(2) by (auto simp: cancel_row_def split: if_splits)
      then show ?thesis using job_unique [OF tab l(1) j(1)] l(2) j(2) by simp
    qed
    have mem: "cancel_row clk j \<in> set (jobs (update_job i (cancel_row clk) d))"
      using j by (auto simp: update_job_def)
    have cid: "j_id (cancel_row clk j) = i" using j(2) by (simp add: cancel_row_def)
    have g': "get_job i (update_job i (cancel_row clk) d) = Some (cancel_row clk j)"
      unfolding get_job_def by (rule find_unique [OF mem]) (use cid uniq in blast)+
    have c: "cancel clk i d = (Some (j_state (cancel_row clk j)), update_job i (cancel_row clk) d)"
      by (simp add: cancel_def Some)
    have d': "d' = update_job i (cancel_row clk) d"
      and "(status, v) = (if leased (cancel_row clk j) then (202, Some (j_state (cancel_row clk j)))
         else if j_state (cancel_row clk j) = Cancelled then (200, Some Cancelled) else (409, None))"
      using assms(2) unfolding api_cancel_def c by (auto split: if_splits)
    moreover have "j_cancel_requested_at (cancel_row clk j) \<noteq> None"
      by (simp add: cancel_row_def split: option.splits)
    ultimately show ?thesis using j(3) by (simp add: g g' d')
  qed
qed

theorem api_cancel_status_witness:
  "fst (api_cancel (\<lambda>_. 99) 1 demo_submitted) = (200, Some Cancelled)"
proof -
  obtain st v d' where r: "api_cancel (\<lambda>_. 99) 1 demo_submitted = ((st, v), d')" by (metis prod.exhaust)
  have g: "map_option j_state (get_job 1 demo_submitted) = Some Queued"
    "map_option j_state (get_job 1 (snd (api_cancel (\<lambda>_. 99) 1 demo_submitted))) = Some Cancelled" by code_simp+
  then show ?thesis
    using api_cancel_status [OF demo_submitted_reachable r] r
    by (auto simp: leased_states_def split: option.splits)
qed

section \<open>Sending again\<close>

lemma submit_loop_last:
  "submit_loop fuel send keyed clock deadline delay k s = Some (r, n, t) \<Longrightarrow>
     k < n \<and> (\<not> keyed \<longrightarrow> n = Suc k)
     \<and> (case r of Answer status _ \<Rightarrow> is_success status \<or> \<not> server_side r \<or> \<not> keyed \<or> deadline < clock (n - 1)
        | Transport_error \<Rightarrow> \<not> keyed \<or> deadline < clock (n - 1))"
proof (induction fuel arbitrary: delay k s)
  case (Suc fuel)
  obtain x s' where x: "send k s = (x, s')" by fastforce
  show ?case
    using Suc.prems Suc.IH [of "min (delay * 2) 1" "Suc k" s']
    by (cases x) (auto simp: x split: if_splits)
qed simp

text \<open>
  A batch without a key is never sent twice, and what the client returns is a success, a refusal
  that is the client's own fault, or, for a keyed batch, the last failure after its time ran out.
\<close>

theorem client_submit_retries:
  assumes "client_submit fuel send key clock started seconds s = Some (r, n, t)"
  shows "1 \<le> n \<and> (key = None \<longrightarrow> n = 1)
    \<and> (case r of
         Answer status _ \<Rightarrow> is_success status \<or> status < 500 \<or> key = None \<or> started + seconds < clock (n - 1)
       | Transport_error \<Rightarrow> key = None \<or> started + seconds < clock (n - 1))"
  using submit_loop_last [of fuel send "key \<noteq> None" clock "started + seconds" "1 / 20" 0 s r n t] assms
  by (auto simp: client_submit_def server_side_def split: http.splits)

theorem client_submit_retries_witness:
  "client_submit 5 (\<lambda>k s. if k < 2 then (Transport_error, s) else (Answer 201 (Some k), s)) (Some ''k'') of_nat 0 60 ()
     = Some (Answer 201 (Some (2 :: nat)), 3, ())
   \<and> client_submit 5 (\<lambda>k s. (Transport_error, s)) None of_nat 0 60 () = Some (Transport_error :: unit http, 1, ())"
proof
  show "client_submit 5 (\<lambda>k s. if k < 2 then (Transport_error, s) else (Answer 201 (Some k), s)) (Some ''k'') of_nat 0 60 ()
     = Some (Answer 201 (Some (2 :: nat)), 3, ())"
    by (simp add: client_submit_def numeral_eq_Suc is_success_def server_side_def)
  obtain r n where c: "client_submit 5 (\<lambda>k s. (Transport_error, s)) None of_nat 0 60 () = Some (r :: unit http, n, ())"
    by (simp add: client_submit_def numeral_eq_Suc)
  have "n = 1" using client_submit_retries [OF c] by simp
  then show "client_submit 5 (\<lambda>k s. (Transport_error, s)) None of_nat 0 60 () = Some (Transport_error :: unit http, 1, ())"
    using c by (simp add: client_submit_def numeral_eq_Suc)
qed

end
