(* ===== verification/Agent_Loop.thy ===== *)
theory Agent_Loop
  imports Agent_Protocol
begin

text \<open>
  The agent's loop, \<^verbatim>\<open>app/agent/loop.py\<close> and \<^verbatim>\<open>app/agent/types.py\<close>: \<open>agent_run\<close> is
  \<^verbatim>\<open>Agent.run\<close>, \<open>iteration\<close> the body of its loop, and the loop's local variables are the record
  \<open>loop_state\<close>. The language model and the sandbox are the parameters of \<open>outside\<close>, over a state
  \<open>'w\<close> of their own; an exception is the left of a sum. The callback \<^verbatim>\<open>on_step\<close>, which sees each step as
  it is recorded, is not modelled. \<open>loop_inv\<close> is the invariant of the loop: what the steps say about
  its counters and flags.
\<close>

section \<open>Configurations, steps and runs\<close>

datatype termination_reason = FINISHED | MAX_ITERATIONS | MALFORMED_LIMIT | PROVIDER_ERROR | ESCALATED

fun reason_value :: "termination_reason \<Rightarrow> string" where
  "reason_value FINISHED = ''finished''"
| "reason_value MAX_ITERATIONS = ''max_iterations''"
| "reason_value MALFORMED_LIMIT = ''malformed_limit''"
| "reason_value PROVIDER_ERROR = ''provider_error''"
| "reason_value ESCALATED = ''escalated''"

record agent_config =
  ac_max_iterations :: int
  ac_max_consecutive_malformed :: int
  ac_temperature :: rat
  ac_max_tokens :: int
  ac_include_initial_listing :: bool
  ac_require_verified_finish :: bool
  ac_allow_escalation :: bool
  ac_extra_rules :: "string list"

definition DEFAULT_AGENT :: agent_config where
  "DEFAULT_AGENT = \<lparr>ac_max_iterations = 15, ac_max_consecutive_malformed = 3, ac_temperature = 0,
     ac_max_tokens = 1024, ac_include_initial_listing = True, ac_require_verified_finish = False,
     ac_allow_escalation = False, ac_extra_rules = []\<rparr>"

record agent_step =
  as_index :: nat
  as_thought :: string
  as_raw_response :: string
  as_tool_call :: "tool_call option"
  as_tool_result :: "tool_result option"
  as_observation :: string
  as_malformed :: bool
  as_prompt_tokens :: int
  as_completion_tokens :: int

record agent_run =
  ar_steps :: "agent_step list"
  ar_reason :: termination_reason
  ar_final_answer :: string
  ar_prompt_tokens :: int
  ar_completion_tokens :: int
  ar_escalation_reason :: string

definition iterations :: "agent_run \<Rightarrow> nat" where
  "iterations r = length (ar_steps r)"

definition total_tokens :: "agent_run \<Rightarrow> int" where
  "total_tokens r = ar_prompt_tokens r + ar_completion_tokens r"

definition finished_cleanly :: "agent_run \<Rightarrow> bool" where
  "finished_cleanly r \<longleftrightarrow> ar_reason r = FINISHED"

definition escalated :: "agent_run \<Rightarrow> bool" where
  "escalated r \<longleftrightarrow> ar_reason r = ESCALATED"

definition count_tool :: "agent_step \<Rightarrow> (string \<times> nat) list \<Rightarrow> (string \<times> nat) list" where
  "count_tool s counts =
     (case as_tool_call s of
        None \<Rightarrow> counts
      | Some c \<Rightarrow>
          let key = tool_value (tc_name c)
          in dict_put counts key (Suc (case dict_get counts key of None \<Rightarrow> 0 | Some n \<Rightarrow> n)))"

definition tool_counts :: "agent_run \<Rightarrow> (string \<times> nat) list" where
  "tool_counts r = fold count_tool (ar_steps r) []"

section \<open>What the loop calls\<close>

record 'w outside =
  llm_complete :: "chat_message list \<Rightarrow> rat \<Rightarrow> int \<Rightarrow> 'w \<Rightarrow> (string + completion) \<times> 'w"
  sandbox_execute :: "tool_call \<Rightarrow> 'w \<Rightarrow> (string + tool_result) \<times> 'w"
  out_loads :: "string \<Rightarrow> string + json"
  out_rep :: "json \<Rightarrow> string"

text \<open>\<^verbatim>\<open>_execute\<close>: a sandbox that fails is an observation, not a crash.\<close>

definition execute_call :: "'w outside \<Rightarrow> tool_call \<Rightarrow> 'w \<Rightarrow> tool_result \<times> 'w" where
  "execute_call env call w =
     (case sandbox_execute env call w of
        (Inl e, w') \<Rightarrow> (plain_result (''sandbox error: '' @ e) False, w')
      | (Inr r, w') \<Rightarrow> (r, w'))"

text \<open>\<^verbatim>\<open>str(call.arguments.get(key, ""))\<close>.\<close>

definition argument_text :: "(json \<Rightarrow> string) \<Rightarrow> tool_call \<Rightarrow> string \<Rightarrow> string" where
  "argument_text rep call key =
     py_str rep (case dict_get (tc_arguments call) key of None \<Rightarrow> JStr [] | Some v \<Rightarrow> v)"

definition counts_as_verification :: "(json \<Rightarrow> string) \<Rightarrow> tool_call \<Rightarrow> tool_result \<Rightarrow> bool" where
  "counts_as_verification rep call r \<longleftrightarrow>
     tr_exit_code r = Some 0 \<and> \<not> tr_timed_out r \<and>
     (tc_name call = RUN_TESTS
      \<or> tc_name call = RUN_COMMAND \<and> contains_sub ''pytest'' (argument_text rep call ''command''))"

section \<open>The loop\<close>

record loop_state =
  ls_messages :: "chat_message list"
  ls_steps :: "agent_step list"
  ls_prompt_tokens :: int
  ls_completion_tokens :: int
  ls_malformed :: int
  ls_verified :: bool

definition say :: "role \<Rightarrow> string \<Rightarrow> loop_state \<Rightarrow> loop_state" where
  "say who what st = st\<lparr>ls_messages := ls_messages st @ [(who, what)]\<rparr>"

definition record_step :: "agent_step \<Rightarrow> loop_state \<Rightarrow> loop_state" where
  "record_step s st = st\<lparr>ls_steps := ls_steps st @ [s]\<rparr>"

definition error_step :: "nat \<Rightarrow> string \<Rightarrow> agent_step" where
  "error_step index observation =
     \<lparr>as_index = index, as_thought = [], as_raw_response = [], as_tool_call = None, as_tool_result = None,
      as_observation = observation, as_malformed = False, as_prompt_tokens = 0, as_completion_tokens = 0\<rparr>"

definition malformed_step :: "nat \<Rightarrow> string \<Rightarrow> completion \<Rightarrow> agent_step" where
  "malformed_step index observation c =
     \<lparr>as_index = index, as_thought = [], as_raw_response = cp_content c, as_tool_call = None,
      as_tool_result = None, as_observation = observation, as_malformed = True,
      as_prompt_tokens = cp_prompt_tokens c, as_completion_tokens = cp_completion_tokens c\<rparr>"

definition called_step ::
  "nat \<Rightarrow> string \<Rightarrow> tool_call \<Rightarrow> tool_result option \<Rightarrow> string \<Rightarrow> completion \<Rightarrow> agent_step" where
  "called_step index thought call r observation c =
     \<lparr>as_index = index, as_thought = thought, as_raw_response = cp_content c, as_tool_call = Some call,
      as_tool_result = r, as_observation = observation, as_malformed = False,
      as_prompt_tokens = cp_prompt_tokens c, as_completion_tokens = cp_completion_tokens c\<rparr>"

text \<open>Whether the loop goes on, ends with a reason, an answer and an escalation, or raises.\<close>

datatype loop_end = Going | Ended termination_reason string string | Raises string

definition parse_complaint :: "string \<Rightarrow> string" where
  "parse_complaint e =
     ''Your last response could not be parsed: '' @ e @ ''. Respond with a single ''
     @ ''JSON object: {\"thought\": \"...\", \"tool\": \"...\", \"arguments\": {...}}.''"

definition unverified_complaint :: string where
  "unverified_complaint =
     ''You cannot finish yet: write your own test file and run it with the ''
     @ ''run_tests tool until the tests pass. A result of '' @ [CHR 0x27] @ ''no tests ran'' @ [CHR 0x27]
     @ '' (exit code 5) does not count as verification.''"

definition malformed_turn ::
  "agent_config \<Rightarrow> nat \<Rightarrow> string \<Rightarrow> completion \<Rightarrow> loop_state \<Rightarrow> loop_end \<times> loop_state" where
  "malformed_turn config index e c st =
     (let st = st\<lparr>ls_malformed := ls_malformed st + 1\<rparr>;
          st = say USER (parse_complaint e) (record_step (malformed_step index (parse_complaint e) c) st)
      in (if ac_max_consecutive_malformed config \<le> ls_malformed st then Ended MALFORMED_LIMIT [] [] else Going,
          st))"

definition escalate_turn ::
  "(json \<Rightarrow> string) \<Rightarrow> nat \<Rightarrow> string \<Rightarrow> tool_call \<Rightarrow> completion \<Rightarrow> loop_state \<Rightarrow> loop_end \<times> loop_state" where
  "escalate_turn rep index thought call c st =
     (Ended ESCALATED [] (argument_text rep call ''reason''),
      record_step (called_step index thought call None ''ticket escalated to a human by the agent'' c) st)"

definition finish_turn ::
  "(json \<Rightarrow> string) \<Rightarrow> agent_config \<Rightarrow> nat \<Rightarrow> string \<Rightarrow> tool_call \<Rightarrow> completion \<Rightarrow> loop_state
   \<Rightarrow> loop_end \<times> loop_state" where
  "finish_turn rep config index thought call c st =
     (if ac_require_verified_finish config \<and> \<not> ls_verified st
      then (Going, say USER unverified_complaint
              (record_step (called_step index thought call None unverified_complaint c) st))
      else (Ended FINISHED (argument_text rep call ''answer'') [],
            record_step (called_step index thought call None ''task finished by agent'' c) st))"

definition act_turn ::
  "'w outside \<Rightarrow> nat \<Rightarrow> string \<Rightarrow> tool_call \<Rightarrow> completion \<Rightarrow> loop_state \<Rightarrow> 'w
   \<Rightarrow> loop_end \<times> loop_state \<times> 'w" where
  "act_turn env index thought call c st w =
     (case execute_call env call w of
        (r, w') \<Rightarrow>
          (let observation = format_observation r;
               st = (if counts_as_verification (out_rep env) call r then st\<lparr>ls_verified := True\<rparr> else st);
               st = record_step (called_step index thought call (Some r) observation c) st
           in (Going, say USER observation st, w')))"

text \<open>What the loop does with a reply, and then one turn of it.\<close>

definition respond ::
  "'w outside \<Rightarrow> agent_config \<Rightarrow> nat \<Rightarrow> completion \<Rightarrow> loop_state \<Rightarrow> 'w \<Rightarrow> loop_end \<times> loop_state \<times> 'w" where
  "respond env config index c st w =
     (let st = say ASSISTANT (cp_content c)
            (st\<lparr>ls_prompt_tokens := ls_prompt_tokens st + cp_prompt_tokens c,
                ls_completion_tokens := ls_completion_tokens st + cp_completion_tokens c\<rparr>)
      in case parse_tool_call (out_loads env) (out_rep env) (cp_content c) of
           TypeError e \<Rightarrow> (Raises e, st, w)
         | ToolCallParseError e \<Rightarrow>
             (case malformed_turn config index e c st of (next, st') \<Rightarrow> (next, st', w))
         | ParsedStep thought call \<Rightarrow>
             (let st = st\<lparr>ls_malformed := 0\<rparr>
              in if tc_name call = ESCALATE
                 then (case escalate_turn (out_rep env) index thought call c st of (next, st') \<Rightarrow> (next, st', w))
                 else if tc_name call = FINISH
                 then (case finish_turn (out_rep env) config index thought call c st of
                         (next, st') \<Rightarrow> (next, st', w))
                 else act_turn env index thought call c st w))"

definition iteration ::
  "'w outside \<Rightarrow> agent_config \<Rightarrow> nat \<Rightarrow> loop_state \<Rightarrow> 'w \<Rightarrow> loop_end \<times> loop_state \<times> 'w" where
  "iteration env config index st w =
     (case llm_complete env (ls_messages st) (ac_temperature config) (ac_max_tokens config) w of
        (Inl e, w') \<Rightarrow>
          (Ended PROVIDER_ERROR [] [], record_step (error_step index (''provider error: '' @ e)) st, w')
      | (Inr c, w') \<Rightarrow> respond env config index c st w')"

text \<open>\<^verbatim>\<open>for index in range(max_iterations)\<close>, from an index on.\<close>

fun agent_loop ::
  "'w outside \<Rightarrow> agent_config \<Rightarrow> nat \<Rightarrow> nat \<Rightarrow> loop_state \<Rightarrow> 'w \<Rightarrow> loop_end \<times> loop_state \<times> 'w" where
  "agent_loop env config 0 index st w = (Ended MAX_ITERATIONS [] [], st, w)"
| "agent_loop env config (Suc n) index st w =
     (case iteration env config index st w of
        (Going, st', w') \<Rightarrow> agent_loop env config n (Suc index) st' w'
      | ended \<Rightarrow> ended)"

definition initial_messages :: "'w outside \<Rightarrow> agent_config \<Rightarrow> string \<Rightarrow> 'w \<Rightarrow> (string + chat_message list) \<times> 'w" where
  "initial_messages env config task w =
     (let system = (SYSTEM, build_system_prompt (ac_require_verified_finish config)
                      (ac_allow_escalation config) (ac_extra_rules config));
          first = ''Task:'' @ [newline] @ task;
          last = newline # ''Reason about the task, then issue your first tool call.''
      in if ac_include_initial_listing config
         then (case sandbox_execute env \<lparr>tc_name = LIST_DIR, tc_arguments = [(''path'', JStr ''.'')]\<rparr> w of
                 (Inl e, w') \<Rightarrow> (Inl e, w')
               | (Inr listing, w') \<Rightarrow>
                   (Inr [system, (USER, join [newline]
                      [first, newline # ''Workspace root contents:'' @ [newline] @ tr_output listing, last])], w'))
         else (Inr [system, (USER, join [newline] [first, last])], w))"

definition start_state :: "chat_message list \<Rightarrow> loop_state" where
  "start_state messages = \<lparr>ls_messages = messages, ls_steps = [], ls_prompt_tokens = 0,
     ls_completion_tokens = 0, ls_malformed = 0, ls_verified = False\<rparr>"

text \<open>\<^verbatim>\<open>Agent.run\<close>: the run's record, or the exception that came out of it.\<close>

definition run_agent :: "'w outside \<Rightarrow> agent_config \<Rightarrow> string \<Rightarrow> 'w \<Rightarrow> (string + agent_run) \<times> 'w" where
  "run_agent env config task w =
     (case initial_messages env config task w of
        (Inl e, w') \<Rightarrow> (Inl e, w')
      | (Inr messages, w') \<Rightarrow>
          (case agent_loop env config (nat (ac_max_iterations config)) 0 (start_state messages) w' of
             (Ended reason answer escalation, st, w'') \<Rightarrow>
               (Inr \<lparr>ar_steps = ls_steps st, ar_reason = reason, ar_final_answer = answer,
                     ar_prompt_tokens = ls_prompt_tokens st, ar_completion_tokens = ls_completion_tokens st,
                     ar_escalation_reason = escalation\<rparr>, w'')
           | (Raises e, _, w'') \<Rightarrow> (Inl e, w'')
           | (Going, _, w'') \<Rightarrow> (Inl [], w'')))"

section \<open>The invariant of the loop\<close>

definition passing :: "(json \<Rightarrow> string) \<Rightarrow> agent_step \<Rightarrow> bool" where
  "passing rep s \<longleftrightarrow>
     (case (as_tool_call s, as_tool_result s) of
        (Some c, Some r) \<Rightarrow> counts_as_verification rep c r | _ \<Rightarrow> False)"

text \<open>How many of the last steps, without a break, were malformed replies.\<close>

definition streak :: "agent_step list \<Rightarrow> int" where
  "streak steps = int (length (takeWhile as_malformed (rev steps)))"

definition accounted :: "agent_step list \<Rightarrow> int \<Rightarrow> int \<Rightarrow> bool" where
  "accounted steps prompt completion \<longleftrightarrow>
     map as_index steps = [0..<length steps]
     \<and> prompt = sum_list (map as_prompt_tokens steps)
     \<and> completion = sum_list (map as_completion_tokens steps)"

definition loop_inv :: "(json \<Rightarrow> string) \<Rightarrow> agent_config \<Rightarrow> nat \<Rightarrow> loop_state \<Rightarrow> bool" where
  "loop_inv rep config index st \<longleftrightarrow>
     length (ls_steps st) = index
     \<and> accounted (ls_steps st) (ls_prompt_tokens st) (ls_completion_tokens st)
     \<and> ls_malformed st = streak (ls_steps st)
     \<and> (1 \<le> ac_max_consecutive_malformed config \<longrightarrow> streak (ls_steps st) < ac_max_consecutive_malformed config)
     \<and> (ls_verified st \<longrightarrow> (\<exists>s\<in>set (ls_steps st). passing rep s))"

definition ended_ok :: "(json \<Rightarrow> string) \<Rightarrow> agent_config \<Rightarrow> termination_reason \<Rightarrow> loop_state \<Rightarrow> bool" where
  "ended_ok rep config reason st \<longleftrightarrow>
     accounted (ls_steps st) (ls_prompt_tokens st) (ls_completion_tokens st)
     \<and> (1 \<le> ac_max_consecutive_malformed config \<longrightarrow>
          (reason = MALFORMED_LIMIT \<longleftrightarrow> ac_max_consecutive_malformed config \<le> streak (ls_steps st)))
     \<and> (reason = FINISHED \<and> ac_require_verified_finish config \<longrightarrow>
          (\<exists>s\<in>set (butlast (ls_steps st)). passing rep s))"

lemma streak_snoc [simp]:
  "streak (steps @ [s]) = (if as_malformed s then 1 + streak steps else 0)" "streak [] = 0"
  by (simp_all add: streak_def)

lemma accounted_snoc:
  "accounted steps p c \<Longrightarrow> as_index s = length steps \<Longrightarrow> p' = p + as_prompt_tokens s \<Longrightarrow>
     c' = c + as_completion_tokens s \<Longrightarrow> accounted (steps @ [s]) p' c'"
  by (simp add: accounted_def)

lemmas step_defs = error_step_def malformed_step_def called_step_def
lemmas turn_defs = record_step_def say_def malformed_turn_def escalate_turn_def finish_turn_def act_turn_def

lemma malformed_called [simp]: "\<not> as_malformed (called_step i t call res obs c)"
  by (simp add: called_step_def)

lemma passing_called [simp]:
  "passing rep (called_step i t call None obs c) = False"
  "passing rep (called_step i t call (Some r) obs c) = counts_as_verification rep call r"
  by (simp_all add: passing_def called_step_def)

lemma iteration_keeps:
  assumes "loop_inv (out_rep env) config index st" and "iteration env config index st w = (next, st', w')"
  shows "case next of
      Going \<Rightarrow> loop_inv (out_rep env) config (Suc index) st'
    | Ended reason _ _ \<Rightarrow> ended_ok (out_rep env) config reason st' \<and> length (ls_steps st') = Suc index
        \<and> reason \<noteq> MAX_ITERATIONS
    | Raises _ \<Rightarrow> True"
proof -
  obtain x w1 where x: "llm_complete env (ls_messages st) (ac_temperature config) (ac_max_tokens config) w = (x, w1)"
    by fastforce
  show ?thesis
  proof (cases x)
    case (Inl e)
    then show ?thesis using assms
      by (auto simp: iteration_def respond_def x loop_inv_def ended_ok_def turn_defs step_defs intro!: accounted_snoc)
  next
    case (Inr c)
    show ?thesis
    proof (cases "parse_tool_call (out_loads env) (out_rep env) (cp_content c)")
      case (ToolCallParseError e)
      then show ?thesis using assms
        by (auto simp: iteration_def respond_def x Inr loop_inv_def ended_ok_def turn_defs step_defs Let_def
            intro!: accounted_snoc split: if_splits)
    next
      case (TypeError e)
      then show ?thesis using assms by (auto simp: iteration_def respond_def x Inr Let_def)
    next
      case (ParsedStep thought call)
      obtain r w2 where r: "execute_call env call w1 = (r, w2)" by fastforce
      have acc: "accounted (ls_steps st @ [called_step (length (ls_steps st)) thought call res obs c])
          (ls_prompt_tokens st + cp_prompt_tokens c) (ls_completion_tokens st + cp_completion_tokens c)" for res obs
        using assms(1) by (auto simp: loop_inv_def called_step_def intro!: accounted_snoc)
      from ParsedStep assms show ?thesis
        by (auto simp: iteration_def respond_def x Inr loop_inv_def ended_ok_def turn_defs Let_def r acc
            split: if_splits)
    qed
  qed
qed

lemma agent_loop_ends:
  assumes "loop_inv (out_rep env) config index st" and "agent_loop env config n index st w = (next, st', w')"
  shows "case next of
      Going \<Rightarrow> False
    | Ended reason _ _ \<Rightarrow> ended_ok (out_rep env) config reason st'
        \<and> length (ls_steps st') \<le> index + n \<and> (reason = MAX_ITERATIONS \<longrightarrow> length (ls_steps st') = index + n)
    | Raises _ \<Rightarrow> True"
  using assms
proof (induction n arbitrary: index st w)
  case 0
  then show ?case by (auto simp: loop_inv_def ended_ok_def)
next
  case (Suc n)
  obtain a b c where i: "iteration env config index st w = (a, b, c)" by (metis prod.exhaust)
  note k = iteration_keeps [OF Suc.prems(1) i]
  show ?case
  proof (cases a)
    case Going
    then have "agent_loop env config n (Suc index) b c = (next, st', w')" using Suc.prems(2) by (simp add: i)
    from Suc.IH [OF _ this] k Going show ?thesis by (auto split: loop_end.splits)
  next
    case (Ended reason answer why)
    then show ?thesis using Suc.prems(2) k by (auto simp: i)
  next
    case (Raises e)
    then show ?thesis using Suc.prems(2) by (auto simp: i)
  qed
qed

lemma run_agent_ends:
  assumes "run_agent env config task w = (Inr r, w')"
  shows "accounted (ar_steps r) (ar_prompt_tokens r) (ar_completion_tokens r)
    \<and> length (ar_steps r) \<le> nat (ac_max_iterations config)
    \<and> (ar_reason r = MAX_ITERATIONS \<longrightarrow> length (ar_steps r) = nat (ac_max_iterations config))
    \<and> (1 \<le> ac_max_consecutive_malformed config \<longrightarrow>
         (ar_reason r = MALFORMED_LIMIT \<longleftrightarrow> ac_max_consecutive_malformed config \<le> streak (ar_steps r)))
    \<and> (ar_reason r = FINISHED \<and> ac_require_verified_finish config \<longrightarrow>
         (\<exists>s\<in>set (butlast (ar_steps r)). passing (out_rep env) s))"
proof -
  obtain m w1 where m: "initial_messages env config task w = (Inr m, w1)"
    using assms by (auto simp: run_agent_def split: prod.splits sum.splits)
  obtain nx st w2 where l: "agent_loop env config (nat (ac_max_iterations config)) 0 (start_state m) w1 = (nx, st, w2)"
    by (metis prod.exhaust)
  have "loop_inv (out_rep env) config 0 (start_state m)"
    by (simp add: loop_inv_def start_state_def accounted_def)
  note e = agent_loop_ends [OF this l]
  obtain reason answer why where "nx = Ended reason answer why"
    using assms by (auto simp: run_agent_def m l split: loop_end.splits)
  with e assms show ?thesis by (auto simp: run_agent_def m l ended_ok_def)
qed


text \<open>
  A run's steps are numbered without gaps and never more than \<open>max_iterations\<close>, exactly that many
  when it ran out of them; its token counts are the sums over its steps; and it stops for malformed
  replies exactly when the last \<open>max_consecutive_malformed\<close> were malformed.
\<close>

theorem run_accounts:
  assumes "run_agent env config task w = (Inr r, w')" and "1 \<le> ac_max_consecutive_malformed config"
  shows "map as_index (ar_steps r) = [0..<iterations r]
    \<and> iterations r \<le> nat (ac_max_iterations config)
    \<and> (ar_reason r = MAX_ITERATIONS \<longrightarrow> iterations r = nat (ac_max_iterations config))
    \<and> total_tokens r =
        sum_list (map as_prompt_tokens (ar_steps r)) + sum_list (map as_completion_tokens (ar_steps r))
    \<and> (ar_reason r = MALFORMED_LIMIT \<longleftrightarrow> ac_max_consecutive_malformed config \<le> streak (ar_steps r))"
  using run_agent_ends [OF assms(1)] assms(2)
  by (auto simp: iterations_def total_tokens_def accounted_def)

section \<open>The scripted provider, and runs with it\<close>

text \<open>\<^verbatim>\<open>MockProvider.complete\<close>: the scripted replies in order; its state is the cursor.\<close>

definition mock_complete ::
  "string list \<Rightarrow> string \<Rightarrow> chat_message list \<Rightarrow> rat \<Rightarrow> int \<Rightarrow> nat \<Rightarrow> (string + completion) \<times> nat" where
  "mock_complete responses model messages temperature max_tokens cursor =
     (if length responses \<le> cursor
      then (Inl (''mock provider exhausted after '' @ show_nat (length responses) @ '' responses''), cursor)
      else (Inr \<lparr>cp_content = responses ! cursor,
                 cp_prompt_tokens = int (sum_list (map (\<lambda>(_, content). length (split_ws content)) messages)),
                 cp_completion_tokens = int (length (split_ws (responses ! cursor))),
                 cp_model = Some model, cp_fingerprint = None\<rparr>,
            Suc cursor))"

definition demo_texts :: "string \<Rightarrow> string + json" where
  "demo_texts s =
     (if s = ''{t}'' then Inr (JObj [(''tool'', JStr ''run_tests'')])
      else if s = ''{f}'' then Inr (JObj [(''tool'', JStr ''finish''), (''thought'', JStr ''done'')])
      else if s = ''{l}'' then Inr (JObj [(''tool'', JList [])])
      else Inl ''Expecting value'')"

definition demo_outside :: "string list \<Rightarrow> nat outside" where
  "demo_outside replies =
     \<lparr>llm_complete = (\<lambda>_ _ _ n.
        (if n < length replies
         then Inr \<lparr>cp_content = replies ! n, cp_prompt_tokens = 9, cp_completion_tokens = 2,
                   cp_model = None, cp_fingerprint = None\<rparr>
         else Inl ''no more replies'', Suc n)),
      sandbox_execute = (\<lambda>call w. (Inr (plain_result ''1 passed'' True \<lparr>tr_exit_code := Some 0\<rparr>), w)),
      out_loads = demo_texts, out_rep = (\<lambda>_. [])\<rparr>"

definition demo_agent :: agent_config where
  "demo_agent = DEFAULT_AGENT\<lparr>ac_require_verified_finish := True, ac_include_initial_listing := False\<rparr>"

definition demo_run :: "string list \<Rightarrow> (string + agent_run) \<times> nat" where
  "demo_run replies = run_agent (demo_outside replies) demo_agent ''add a test'' 0"

lemma demo_verified: "map_sum id ar_reason (fst (demo_run [''{f}'', ''so {t} now'', ''{f}''])) = Inr FINISHED"
  by code_simp


lemma demo_malformed: "map_sum id ar_reason (fst (demo_run [''{t}'', ''no'', ''{x}'', ''{'', ''{f}''])) = Inr MALFORMED_LIMIT"
  by code_simp

theorem run_accounts_witness:
  "\<exists>r w'. demo_run [''{t}'', ''no'', ''{x}'', ''{'', ''{f}''] = (Inr r, w') \<and> 3 \<le> streak (ar_steps r)"
proof -
  obtain x w' where x: "demo_run [''{t}'', ''no'', ''{x}'', ''{'', ''{f}''] = (x, w')" by fastforce
  with demo_malformed obtain r where r: "x = Inr r" "ar_reason r = MALFORMED_LIMIT" by (cases x) auto
  have k: "ac_max_consecutive_malformed demo_agent = 3" by code_simp
  have "run_agent (demo_outside [''{t}'', ''no'', ''{x}'', ''{'', ''{f}'']) demo_agent ''add a test'' 0 = (Inr r, w')"
    using x r by (simp add: demo_run_def)
  from run_accounts [OF this] k r(2) have "3 \<le> streak (ar_steps r)" by simp
  then show ?thesis using x r(1) by blast
qed



end
