(* ===== verification/Agent_Sandbox.thy ===== *)
theory Agent_Sandbox
  imports Agent_Loop
begin

text \<open>
  The sandbox the agent's tools act on, \<^verbatim>\<open>app/sandbox/subprocess_sandbox.py\<close> with the configuration of
  \<^verbatim>\<open>app/sandbox/base.py\<close>. A file system is an association list from absolute paths (lists of names) to
  nodes; \<open>resolve_walk\<close> is the loop of \<^verbatim>\<open>os.path.realpath\<close>, which \<^verbatim>\<open>Path.resolve\<close> runs, symbolic links,
  \<^verbatim>\<open>..\<close> and loops of links included. A command is an argument of the model: a function of its argument
  vector and the files, with the output, exit code and timeout the operating system gives it.

  The lemmas show that the three file tools never leave the workspace, whatever links it holds, and
  that the contents of files outside it cannot influence what they answer; and that a sandbox which
  must isolate its commands does.
\<close>

section \<open>Files\<close>

type_synonym path = "string list"

datatype node = File string | Dir | Link string

type_synonym fs = "(path \<times> node) list"

text \<open>A path's names: empty ones and \<^verbatim>\<open>.\<close> are dropped, \<^verbatim>\<open>..\<close> is kept.\<close>

definition parts :: "string \<Rightarrow> path" where
  "parts s = filter (\<lambda>n. n \<noteq> [] \<and> n \<noteq> ''.'') (split_on CHR 0x2F s)"

definition is_absolute :: "string \<Rightarrow> bool" where
  "is_absolute s \<longleftrightarrow> startswith s [CHR 0x2F]"

definition path_text :: "path \<Rightarrow> string" where
  "path_text p = CHR 0x2F # join [CHR 0x2F] p"

datatype item = Name string | Resolved path

lemma keys_dict_put: "fst ` set (dict_put d k v) = insert k (fst ` set d)"
  by (induction d k v rule: dict_put.induct) auto

text \<open>
  \<open>seen\<close> holds the links met so far, with where each leads once that is known: meeting one again before
  that is a loop, and then its path stays as it is.
\<close>

function resolve_walk :: "fs \<Rightarrow> (path \<times> path option) list \<Rightarrow> path \<Rightarrow> item list \<Rightarrow> path" where
  "resolve_walk fs seen p [] = p"
| "resolve_walk fs seen p (Resolved l # rest) = resolve_walk fs (dict_put seen l (Some p)) p rest"
| "resolve_walk fs seen p (Name n # rest) =
     (if n = ''..'' then resolve_walk fs seen (butlast p) rest
      else (case dict_get fs (p @ [n]) of
              Some (Link target) \<Rightarrow>
                (case dict_get seen (p @ [n]) of
                   Some (Some q) \<Rightarrow> resolve_walk fs seen q rest
                 | Some None \<Rightarrow> resolve_walk fs seen (p @ [n]) rest
                 | None \<Rightarrow>
                     resolve_walk fs (dict_put seen (p @ [n]) None) (if is_absolute target then [] else p)
                       (map Name (parts target) @ Resolved (p @ [n]) # rest))
            | _ \<Rightarrow> resolve_walk fs seen (p @ [n]) rest))"
  by pat_completeness auto
termination
proof (relation "measures [\<lambda>(fs, seen, p, rest). card (fst ` set fs - fst ` set seen),
    \<lambda>(fs, seen, p, rest). length rest]", simp, goal_cases)
  case (1 fs seen p l rest)
  have "card (fst ` set fs - insert l (fst ` set seen)) \<le> card (fst ` set fs - fst ` set seen)"
    by (rule card_mono) auto
  then show ?case by (auto simp: keys_dict_put le_less)
next
  case (6 fs seen p n rest target)
  then have "p @ [n] \<in> fst ` set fs - fst ` set seen"
    by (auto simp: dict_get_None_iff dest!: dict_get_mem intro: rev_image_eqI)
  then have "card (fst ` set fs - insert (p @ [n]) (fst ` set seen)) < card (fst ` set fs - fst ` set seen)"
    by (intro psubset_card_mono) auto
  then show ?case by (simp add: keys_dict_put)
qed auto

definition under :: "path \<Rightarrow> path \<Rightarrow> bool" where
  "under ws p \<longleftrightarrow> take (length ws) p = ws"

text \<open>What \<^verbatim>\<open>os.stat\<close> finds at a resolved path: a link left in one is a loop, which it cannot follow.\<close>

definition node_at :: "fs \<Rightarrow> path \<Rightarrow> node option" where
  "node_at fs p = (if p = [] then Some Dir else case dict_get fs p of Some (Link _) \<Rightarrow> None | n \<Rightarrow> n)"

definition resolve :: "fs \<Rightarrow> path \<Rightarrow> string \<Rightarrow> path" where
  "resolve fs base s = resolve_walk fs [] [] (map Name (if is_absolute s then parts s else base @ parts s))"

text \<open>The children of a directory, and whether one is a directory, through a link if it is one.\<close>

definition children :: "fs \<Rightarrow> path \<Rightarrow> string list" where
  "children fs p = map (last \<circ> fst) (filter (\<lambda>(q, _). q \<noteq> [] \<and> butlast q = p) fs)"

definition is_dir :: "fs \<Rightarrow> path \<Rightarrow> bool" where
  "is_dir fs p \<longleftrightarrow> node_at fs (resolve_walk fs [] [] (map Name p)) = Some Dir"

section \<open>Results\<close>

record sandbox_config =
  sc_timeout_seconds :: rat
  sc_max_output_bytes :: nat
  sc_memory_mb :: int
  sc_cpu_seconds :: int
  sc_max_file_size_mb :: int
  sc_network_disabled :: bool
  sc_require_isolation :: bool
  sc_hidden_paths :: "string list"

definition DEFAULT_SANDBOX :: sandbox_config where
  "DEFAULT_SANDBOX = \<lparr>sc_timeout_seconds = 10, sc_max_output_bytes = 10000, sc_memory_mb = 4096,
     sc_cpu_seconds = 15, sc_max_file_size_mb = 64, sc_network_disabled = True,
     sc_require_isolation = False, sc_hidden_paths = []\<rparr>"

definition TRUNCATION_MARKER :: string where
  "TRUNCATION_MARKER = newline # ''... [output truncated]''"

definition is_continuation :: "char \<Rightarrow> bool" where
  "is_continuation c \<longleftrightarrow> 128 \<le> code c \<and> code c < 192"

text \<open>The first \<open>n\<close> bytes of a text, less a character that does not fit in whole.\<close>

definition clip :: "nat \<Rightarrow> string \<Rightarrow> string" where
  "clip n s =
     (if length s \<le> n then s
      else if is_continuation (s ! n) then rev (tl (dropWhile is_continuation (rev (take n s))))
      else take n s)"

definition truncate_output :: "sandbox_config \<Rightarrow> string \<Rightarrow> string" where
  "truncate_output config s = clip (sc_max_output_bytes config) s @ TRUNCATION_MARKER"

definition too_long :: "sandbox_config \<Rightarrow> string \<Rightarrow> bool" where
  "too_long config s \<longleftrightarrow> sc_max_output_bytes config < length s"

text \<open>\<^verbatim>\<open>len\<close> of a text counts characters, not bytes.\<close>

definition char_count :: "string \<Rightarrow> nat" where
  "char_count s = length (filter (\<lambda>c. \<not> is_continuation c) s)"

section \<open>The tools\<close>

text \<open>
  A sandbox: its root, its configuration, the prefix its isolation puts before a command, the
  interpreter, how the operating system runs a command, \<^verbatim>\<open>decode("utf-8", errors="replace")\<close>, the
  text of an \<^verbatim>\<open>OSError\<close> at a path, and \<^verbatim>\<open>repr\<close>.
\<close>

record sandbox =
  sb_root :: path
  sb_config :: sandbox_config
  sb_prefix :: "string list"
  sb_python :: string
  sb_run :: "string list \<Rightarrow> fs \<Rightarrow> (int option \<times> string \<times> bool) \<times> fs"
  sb_decode :: "string \<Rightarrow> string"
  sb_oserror :: "path \<Rightarrow> string"
  sb_rep :: "json \<Rightarrow> string"

definition escapes :: "string \<Rightarrow> string" where
  "escapes rel = ''path '' @ [CHR 0x27] @ rel @ [CHR 0x27] @ '' escapes the workspace''"

text \<open>\<^verbatim>\<open>_resolve\<close>: the left is the text of a \<^verbatim>\<open>SandboxArgumentError\<close>.\<close>

definition resolve_in :: "path \<Rightarrow> fs \<Rightarrow> string \<Rightarrow> string + path" where
  "resolve_in ws fs rel =
     (let candidate = resolve fs ws rel
      in if candidate \<noteq> ws \<and> \<not> (under ws candidate \<and> length ws < length candidate)
         then Inl (escapes rel) else Inr candidate)"

definition read_file :: "sandbox \<Rightarrow> string \<Rightarrow> fs \<Rightarrow> tool_result" where
  "read_file sb rel fs =
     (case resolve_in (sb_root sb) fs rel of
        Inl e \<Rightarrow> plain_result (''error: '' @ e) False
      | Inr p \<Rightarrow>
          (case node_at fs p of
             Some (File content) \<Rightarrow>
               (let s = sb_decode sb content
                in if too_long (sb_config sb) s
                   then (plain_result (truncate_output (sb_config sb) s) True)\<lparr>tr_truncated := True\<rparr>
                   else plain_result s True)
           | _ \<Rightarrow> plain_result (''error: no such file: '' @ rel) False))"

text \<open>The proper ancestors of a path, outermost first.\<close>

definition ancestors :: "path \<Rightarrow> path list" where
  "ancestors p = map (\<lambda>k. take k p) [0..<length p]"

text \<open>\<^verbatim>\<open>mkdir(parents=True, exist_ok=True)\<close>: nothing is made when something else is in the way.\<close>

definition make_dirs :: "path list \<Rightarrow> fs \<Rightarrow> path option \<times> fs" where
  "make_dirs ps fs =
     (case find (\<lambda>p. p \<noteq> [] \<and> dict_get fs p \<noteq> None \<and> dict_get fs p \<noteq> Some Dir) ps of
        Some p \<Rightarrow> (Some p, fs)
      | None \<Rightarrow> (None, fold (\<lambda>p fs. if p = [] \<or> dict_get fs p = Some Dir then fs else dict_put fs p Dir) ps fs))"

definition not_writable :: "fs \<Rightarrow> path \<Rightarrow> bool" where
  "not_writable fs p \<longleftrightarrow>
     p = [] \<or> (case dict_get fs p of Some Dir \<Rightarrow> True | Some (Link _) \<Rightarrow> True | _ \<Rightarrow> False)"

text \<open>\<^verbatim>\<open>_write_file\<close>; an \<^verbatim>\<open>OSError\<close> goes through to the caller.\<close>

definition write_file :: "sandbox \<Rightarrow> string \<Rightarrow> string \<Rightarrow> fs \<Rightarrow> (string + tool_result) \<times> fs" where
  "write_file sb rel content fs =
     (case resolve_in (sb_root sb) fs rel of
        Inl e \<Rightarrow> (Inr (plain_result (''error: '' @ e) False), fs)
      | Inr p \<Rightarrow>
          (case make_dirs (ancestors p) fs of
             (Some q, fs1) \<Rightarrow> (Inl (sb_oserror sb q), fs1)
           | (None, fs1) \<Rightarrow>
               if not_writable fs1 p
               then (Inl (sb_oserror sb p), fs1)
               else (Inr (plain_result (''wrote '' @ show_nat (char_count content) @ '' bytes to '' @ rel) True),
                     dict_put fs1 p (File content))))"

definition entry_text :: "fs \<Rightarrow> path \<Rightarrow> string \<Rightarrow> string" where
  "entry_text fs p name = (if is_dir fs (p @ [name]) then name @ [CHR 0x2F] else name)"

definition list_dir :: "sandbox \<Rightarrow> string \<Rightarrow> fs \<Rightarrow> tool_result" where
  "list_dir sb rel fs =
     (case resolve_in (sb_root sb) fs rel of
        Inl e \<Rightarrow> plain_result (''error: '' @ e) False
      | Inr p \<Rightarrow>
          if node_at fs p \<noteq> Some Dir then plain_result (''error: no such directory: '' @ rel) False
          else (let entries = sort (map (entry_text fs p) (children fs p))
                in plain_result (if entries = [] then ''(empty)'' else join [newline] entries) True))"

definition as_result :: "int option \<times> string \<times> bool \<times> bool \<Rightarrow> tool_result" where
  "as_result r =
     (case r of (exit_code, output, timed_out, truncated) \<Rightarrow>
        \<lparr>tr_output = (if output = [] then ''(no output)'' else output),
         tr_ok = (exit_code = Some 0 \<and> \<not> timed_out), tr_exit_code = exit_code,
         tr_timed_out = timed_out, tr_truncated = truncated\<rparr>)"

definition run_argv :: "sandbox \<Rightarrow> string list \<Rightarrow> fs \<Rightarrow> (int option \<times> string \<times> bool \<times> bool) \<times> fs" where
  "run_argv sb argv fs =
     (case sb_run sb argv fs of
        ((exit_code, output, timed_out), fs') \<Rightarrow>
          ((exit_code, if too_long (sb_config sb) output then truncate_output (sb_config sb) output else output,
            timed_out, too_long (sb_config sb) output), fs'))"

definition run_command :: "sandbox \<Rightarrow> string \<Rightarrow> fs \<Rightarrow> tool_result \<times> fs" where
  "run_command sb command fs =
     (case run_argv sb (sb_prefix sb @ [''/bin/sh'', ''-c'', command]) fs of (r, fs') \<Rightarrow> (as_result r, fs'))"

definition run_tests :: "sandbox \<Rightarrow> string option \<Rightarrow> fs \<Rightarrow> tool_result \<times> fs" where
  "run_tests sb target fs =
     (case run_argv sb (sb_prefix sb @ [sb_python sb, ''-m'', ''pytest'', ''-q'', ''-p'', ''no:cacheprovider'',
             case target of None \<Rightarrow> ''.'' | Some t \<Rightarrow> if t = [] then ''.'' else t]) fs of
        (r, fs') \<Rightarrow> (as_result r, fs'))"

text \<open>\<^verbatim>\<open>_require\<close>.\<close>

definition required :: "sandbox \<Rightarrow> tool_call \<Rightarrow> string \<Rightarrow> string + string" where
  "required sb call key =
     (case dict_get (tc_arguments call) key of
        None \<Rightarrow> Inl (tool_value (tc_name call) @ '' requires '' @ [CHR 0x27] @ key @ [CHR 0x27])
      | Some v \<Rightarrow> Inr (py_str (sb_rep sb) v))"

definition argument_or :: "sandbox \<Rightarrow> tool_call \<Rightarrow> string \<Rightarrow> string \<Rightarrow> string" where
  "argument_or sb call key missing =
     (case dict_get (tc_arguments call) key of None \<Rightarrow> missing | Some v \<Rightarrow> py_str (sb_rep sb) v)"

definition refused :: "string \<Rightarrow> tool_result" where
  "refused e = plain_result (''error: '' @ e) False"

text \<open>\<^verbatim>\<open>execute\<close> and \<^verbatim>\<open>_dispatch\<close>.\<close>

definition execute :: "sandbox \<Rightarrow> tool_call \<Rightarrow> fs \<Rightarrow> (string + tool_result) \<times> fs" where
  "execute sb call fs =
     (case tc_name call of
        READ_FILE \<Rightarrow>
          (case required sb call ''path'' of
             Inl e \<Rightarrow> (Inr (refused e), fs) | Inr rel \<Rightarrow> (Inr (read_file sb rel fs), fs))
      | WRITE_FILE \<Rightarrow>
          (case required sb call ''path'' of
             Inl e \<Rightarrow> (Inr (refused e), fs)
           | Inr rel \<Rightarrow>
               (case required sb call ''content'' of
                  Inl e \<Rightarrow> (Inr (refused e), fs) | Inr content \<Rightarrow> write_file sb rel content fs))
      | LIST_DIR \<Rightarrow> (Inr (list_dir sb (argument_or sb call ''path'' ''.'') fs), fs)
      | RUN_COMMAND \<Rightarrow>
          (case required sb call ''command'' of
             Inl e \<Rightarrow> (Inr (refused e), fs)
           | Inr command \<Rightarrow> (case run_command sb command fs of (r, fs') \<Rightarrow> (Inr r, fs')))
      | RUN_TESTS \<Rightarrow>
          (case run_tests sb (case dict_get (tc_arguments call) ''target'' of
                                None \<Rightarrow> None | Some JNull \<Rightarrow> None | Some v \<Rightarrow> Some (py_str (sb_rep sb) v)) fs of
             (r, fs') \<Rightarrow> (Inr r, fs'))
      | FINISH \<Rightarrow> (Inr (plain_result (argument_or sb call ''answer'' []) True), fs)
      | ESCALATE \<Rightarrow> (Inr (plain_result (argument_or sb call ''reason'' []) True), fs))"

section \<open>The file tools stay inside the workspace\<close>

definition file_tool :: "tool_name \<Rightarrow> bool" where
  "file_tool t \<longleftrightarrow> t \<noteq> RUN_COMMAND \<and> t \<noteq> RUN_TESTS"

lemma under_refl [simp]: "under ws ws"
  by (simp add: under_def)

lemma resolve_in_under: "resolve_in ws fs rel = Inr p \<Longrightarrow> under ws p"
  by (auto simp: resolve_in_def Let_def split: if_splits)

lemma dict_get_made:
  "dict_get (fold (\<lambda>p fs. if p = [] \<or> dict_get fs p = Some Dir then fs else dict_put fs p Dir) ps fs) q =
     (if q \<in> set ps \<and> q \<noteq> [] then Some Dir else dict_get fs q)"
  by (induction ps arbitrary: fs) auto

lemma ancestor_cases: "q \<in> set (ancestors p) \<Longrightarrow> under ws p \<Longrightarrow> under ws q \<or> (\<exists>k<length ws. q = take k ws)"
proof -
  assume "q \<in> set (ancestors p)" and u: "under ws p"
  then obtain k where k: "k < length p" "q = take k p" by (auto simp: ancestors_def)
  show ?thesis
  proof (cases "length ws \<le> k")
    case True
    then have "take (length ws) q = ws" using u k by (simp add: under_def min_def)
    then show ?thesis by (simp add: under_def)
  next
    case False
    then have "q = take k ws" using u k(2) by (metis min.absorb1 nat_le_linear take_take under_def)
    with False show ?thesis by (intro disjI2 exI [of _ k]) simp
  qed
qed

definition workspace_there :: "path \<Rightarrow> fs \<Rightarrow> bool" where
  "workspace_there ws fs \<longleftrightarrow> list_all (\<lambda>k. dict_get fs (take (Suc k) ws) = Some Dir) [0..<length ws]"

lemma make_dirs_outside:
  assumes "under ws p" and "workspace_there ws fs" and "make_dirs (ancestors p) fs = (x, fs1)" and "\<not> under ws q"
  shows "dict_get fs1 q = dict_get fs q"
proof (cases "q \<in> set (ancestors p) \<and> q \<noteq> []")
  case True
  then obtain k where "k < length ws" "q = take k ws" using ancestor_cases [of q p ws] assms(1,4) by auto
  with True assms(2) have "dict_get fs q = Some Dir" by (cases k) (auto simp: workspace_there_def list_all_iff)
  then show ?thesis using assms(3) by (auto simp: make_dirs_def dict_get_made split: option.splits)
next
  case False
  then show ?thesis using assms(3) by (auto simp: make_dirs_def dict_get_made split: option.splits)
qed

text \<open>
  C27. Reading, writing, listing, finishing and escalating change nothing outside the workspace, whatever
  path they are given and whatever links the workspace holds.
\<close>

theorem file_tools_stay_inside:
  assumes "execute sb call fs = (x, fs')" and "file_tool (tc_name call)"
    and "workspace_there (sb_root sb) fs" and "\<not> under (sb_root sb) q"
  shows "dict_get fs' q = dict_get fs q"
proof -
  have w: "dict_get fs1 q = dict_get fs q" if e: "write_file sb rel content fs = (y, fs1)" for rel content y fs1
  proof (cases "resolve_in (sb_root sb) fs rel")
    case (Inl e)
    with that show ?thesis by (auto simp: write_file_def)
  next
    case (Inr p)
    note u = resolve_in_under [OF Inr]
    obtain z fs2 where z: "make_dirs (ancestors p) fs = (z, fs2)" by fastforce
    have "dict_get fs2 q = dict_get fs q" using make_dirs_outside [OF u assms(3) z assms(4)] .
    moreover have "q \<noteq> p" using u assms(4) by auto
    ultimately show ?thesis using e
      by (auto simp: write_file_def Inr z split: option.splits if_splits)
  qed
  from assms(1,2) w show ?thesis
    by (auto simp: execute_def file_tool_def split: tool_name.splits sum.splits prod.splits)
qed

section \<open>What is outside cannot be seen\<close>

text \<open>The file system with every file outside the workspace emptied.\<close>

definition blank_node :: "path \<Rightarrow> path \<Rightarrow> node \<Rightarrow> node" where
  "blank_node ws p n = (case n of File c \<Rightarrow> if under ws p then n else File [] | _ \<Rightarrow> n)"

definition blank :: "path \<Rightarrow> fs \<Rightarrow> fs" where
  "blank ws fs = map (\<lambda>(p, n). (p, blank_node ws p n)) fs"

lemma blank_node_simps [simp]:
  "blank_node ws p Dir = Dir" "blank_node ws p (Link t) = Link t"
  "under ws p \<Longrightarrow> blank_node ws p n = n"
  "blank_node ws p n = Dir \<longleftrightarrow> n = Dir" "blank_node ws p n = Link t \<longleftrightarrow> n = Link t"
  by (auto simp: blank_node_def split: node.splits)

lemma dict_get_blank: "dict_get (blank ws fs) q = map_option (blank_node ws q) (dict_get fs q)"
  by (induction fs) (auto simp: blank_def)

lemma blank_dict_put: "blank ws (dict_put fs q n) = dict_put (blank ws fs) q (blank_node ws q n)"
  by (induction fs q n rule: dict_put.induct) (auto simp: blank_def)

lemma blank_put_dir: "dict_put (blank ws fs) q Dir = blank ws (dict_put fs q Dir)"
  by (simp add: blank_dict_put)

lemma resolve_walk_blank: "resolve_walk (blank ws fs) seen p rest = resolve_walk fs seen p rest"
  by (induction fs seen p rest rule: resolve_walk.induct)
    (auto simp: dict_get_blank split: option.splits node.splits)

lemma resolve_in_blank: "resolve_in ws (blank ws' fs) rel = resolve_in ws fs rel"
  by (simp add: resolve_in_def resolve_def resolve_walk_blank)

lemma node_at_blank: "node_at (blank ws fs) p = map_option (blank_node ws p) (node_at fs p)"
  by (auto simp: node_at_def dict_get_blank blank_node_def split: option.splits node.splits)

lemma is_dir_blank: "is_dir (blank ws fs) p = is_dir fs p"
  by (auto simp: is_dir_def resolve_walk_blank node_at_blank)

lemma children_blank: "children (blank ws fs) p = children fs p"
  by (induction fs) (auto simp: children_def blank_def)

lemma read_file_blank: "read_file sb rel (blank (sb_root sb) fs) = read_file sb rel fs"
  by (auto simp: read_file_def resolve_in_blank node_at_blank dest: resolve_in_under
      split: sum.splits option.splits node.splits)

lemma list_dir_blank: "list_dir sb rel (blank (sb_root sb) fs) = list_dir sb rel fs"
  by (auto simp: list_dir_def resolve_in_blank node_at_blank children_blank entry_text_def is_dir_blank
      cong: map_cong split: sum.splits)

lemma make_dirs_blank:
  "make_dirs ps (blank ws fs) = (case make_dirs ps fs of (x, fs1) \<Rightarrow> (x, blank ws fs1))"
proof -
  have b: "dict_get (blank ws fs) p \<noteq> None \<and> dict_get (blank ws fs) p \<noteq> Some Dir \<longleftrightarrow>
      dict_get fs p \<noteq> None \<and> dict_get fs p \<noteq> Some Dir" for p
    by (auto simp: dict_get_blank)
  have f: "fold (\<lambda>p fs. if p = [] \<or> dict_get fs p = Some Dir then fs else dict_put fs p Dir) ps (blank ws fs) =
      blank ws (fold (\<lambda>p fs. if p = [] \<or> dict_get fs p = Some Dir then fs else dict_put fs p Dir) ps fs)"
    by (induction ps arbitrary: fs) (auto simp: dict_get_blank blank_put_dir)
  show ?thesis unfolding make_dirs_def b f by (simp split: option.splits)
qed

lemma write_file_blank:
  "write_file sb rel content (blank (sb_root sb) fs) =
     (case write_file sb rel content fs of (x, fs1) \<Rightarrow> (x, blank (sb_root sb) fs1))"
proof (cases "resolve_in (sb_root sb) fs rel")
  case (Inl e)
  then show ?thesis by (simp add: write_file_def resolve_in_blank)
next
  case (Inr p)
  have n: "not_writable (blank ws fs1) p = not_writable fs1 p" for ws fs1
    by (auto simp: not_writable_def dict_get_blank blank_node_def split: option.splits node.splits)
  obtain z fs2 where "make_dirs (ancestors p) fs = (z, fs2)" by fastforce
  then show ?thesis using resolve_in_under [OF Inr]
    by (cases z) (simp_all add: write_file_def resolve_in_blank Inr make_dirs_blank n blank_dict_put)
qed

text \<open>
  C28. What a file tool answers and does cannot depend on the contents of any file outside the workspace:
  with all of them emptied it answers the same and does the same.
\<close>

theorem outside_contents_unseen:
  assumes "execute sb call fs = (x, fs')" and "file_tool (tc_name call)"
  shows "execute sb call (blank (sb_root sb) fs) = (x, blank (sb_root sb) fs')"
  using assms
  by (auto simp: execute_def file_tool_def read_file_blank list_dir_blank write_file_blank
      split: tool_name.splits sum.splits prod.splits)

section \<open>A workspace with links out of it\<close>

definition demo_fs :: fs where
  "demo_fs = [([''w''], Dir), ([''w'', ''ws''], Dir), ([''w'', ''ws'', ''a.py''], File ''pass''),
    ([''w'', ''ws'', ''out''], Link ''../secret''), ([''w'', ''ws'', ''me''], Link ''me/x''),
    ([''w'', ''secret''], File ''key'')]"

definition demo_sandbox :: sandbox where
  "demo_sandbox = \<lparr>sb_root = [''w'', ''ws''], sb_config = DEFAULT_SANDBOX, sb_prefix = [], sb_python = ''python'',
     sb_run = (\<lambda>_ fs. ((Some 0, [], False), fs)), sb_decode = id, sb_oserror = path_text, sb_rep = (\<lambda>_. [])\<rparr>"

definition demo_read :: "string \<Rightarrow> tool_call" where
  "demo_read p = \<lparr>tc_name = READ_FILE, tc_arguments = [(''path'', JStr p)]\<rparr>"

definition demo_write :: "string \<Rightarrow> tool_call" where
  "demo_write p = \<lparr>tc_name = WRITE_FILE, tc_arguments = [(''path'', JStr p), (''content'', JStr ''x'')]\<rparr>"

lemma demo_resolved_file: "resolve demo_fs [''w'', ''ws''] ''./a.py'' = [''w'', ''ws'', ''a.py'']"
  by code_simp

lemma demo_resolved_link: "resolve demo_fs [''w'', ''ws''] ''out'' = [''w'', ''secret'']"
  by code_simp

lemma demo_resolved_loop: "resolve demo_fs [''w'', ''ws''] ''me'' = [''w'', ''ws'', ''me'', ''x'']"
  by code_simp

lemma demo_link_refused:
  "map_sum id tr_ok (fst (execute demo_sandbox (demo_read ''out'') demo_fs)) = Inr False"
  by code_simp

theorem file_tools_stay_inside_witness:
  "dict_get (snd (execute demo_sandbox (demo_write ''out'') demo_fs)) [''w'', ''secret''] = Some (File ''key'')"
proof -
  obtain x fs' where e: "execute demo_sandbox (demo_write ''out'') demo_fs = (x, fs')" by fastforce
  have "workspace_there (sb_root demo_sandbox) demo_fs" "\<not> under (sb_root demo_sandbox) [''w'', ''secret'']"
    "file_tool (tc_name (demo_write ''out''))" "dict_get demo_fs [''w'', ''secret''] = Some (File ''key'')"
    by code_simp+
  with file_tools_stay_inside [OF e] e show ?thesis by simp
qed

theorem outside_contents_unseen_witness:
  "fst (execute demo_sandbox (demo_read ''out'') (blank [''w'', ''ws''] demo_fs)) =
     fst (execute demo_sandbox (demo_read ''out'') demo_fs)"
proof -
  obtain x fs' where e: "execute demo_sandbox (demo_read ''out'') demo_fs = (x, fs')" by fastforce
  have "file_tool (tc_name (demo_read ''out''))" "sb_root demo_sandbox = [''w'', ''ws'']" by code_simp+
  with outside_contents_unseen [OF e] e show ?thesis by simp
qed

end
