(* ===== verification/Agent_Isolation.thy ===== *)
theory Agent_Isolation
  imports Agent_Sandbox
begin

text \<open>
  How the sandbox isolates the commands it runs: the namespace sets it tries
  (\<^verbatim>\<open>_candidates\<close>, \<^verbatim>\<open>_detect_isolation\<close> of \<^verbatim>\<open>subprocess_sandbox.py\<close>), the settings that can only make it
  stricter (\<^verbatim>\<open>_strictest\<close>), its resource limits and environment, and the jail that hides directories
  (\<^verbatim>\<open>app/sandbox/jail.py\<close>). Whether the host grants a set of namespaces is an argument: \<open>probe prefix\<close>
  is \<open>None\<close> when it does, and the refusal otherwise.
\<close>

section \<open>Settings and limits\<close>

text \<open>\<^verbatim>\<open>dict.fromkeys\<close>: each element once, at its first place.\<close>

definition once :: "'a list \<Rightarrow> 'a list" where
  "once xs = dict_keys (dict_of (map (\<lambda>x. (x, ())) xs))"

definition strictest :: "bool \<Rightarrow> string list \<Rightarrow> sandbox_config \<Rightarrow> sandbox_config" where
  "strictest require_isolation hidden_paths config =
     config\<lparr>sc_require_isolation := sc_require_isolation config \<or> require_isolation,
            sc_hidden_paths := once (sc_hidden_paths config @ hidden_paths)\<rparr>"

text \<open>The limits on cpu seconds, address space, file size and core dumps, soft and hard alike.\<close>

definition limits_of :: "sandbox_config \<Rightarrow> (string \<times> int) list" where
  "limits_of config =
     [(''RLIMIT_CPU'', sc_cpu_seconds config), (''RLIMIT_AS'', sc_memory_mb config * 1024 * 1024),
      (''RLIMIT_FSIZE'', sc_max_file_size_mb config * 1024 * 1024), (''RLIMIT_CORE'', 0)]"

definition dirname :: "string \<Rightarrow> string" where
  "dirname p =
     (let head = fst (rpartition_on CHR 0x2F p)
      in if contains_sub [CHR 0x2F] p \<and> head = [] then [CHR 0x2F] else head)"

definition build_env :: "string \<Rightarrow> string \<Rightarrow> (string \<times> string) list" where
  "build_env python workspace =
     [(''PATH'', dirname python @ '':/usr/local/bin:/usr/bin:/bin''), (''HOME'', workspace),
      (''TMPDIR'', workspace), (''LANG'', ''C.UTF-8''), (''LC_ALL'', ''C.UTF-8''),
      (''PYTHONUNBUFFERED'', ''1''), (''PYTHONDONTWRITEBYTECODE'', ''1'')]"

section \<open>Namespaces\<close>

definition namespace_sets :: "sandbox_config \<Rightarrow> string list list" where
  "namespace_sets config =
     (let net = (if sc_network_disabled config then [''net''] else [])
      in [if sc_hidden_paths config \<noteq> [] then net @ [''mount'', ''pid''] else net @ [''pid'']]
         @ (if sc_network_disabled config \<and> \<not> sc_require_isolation config \<and> sc_hidden_paths config = []
            then [[''net'']] else []))"

definition candidates :: "bool \<Rightarrow> sandbox_config \<Rightarrow> string list list" where
  "candidates superuser config =
     concat (map (\<lambda>names. map (\<lambda>user. user @ names) (if superuser then [[], [''user'']] else [[''user'']]))
       (namespace_sets config))"

definition jail_argv :: "string \<Rightarrow> string \<Rightarrow> string list \<Rightarrow> string list" where
  "jail_argv python jail hidden = [python, ''-I'', ''-S'', jail] @ hidden @ [''--'']"

definition flags_of :: "string list \<Rightarrow> string list" where
  "flags_of names =
     (let flags = map (\<lambda>n. ''--'' @ n) names;
          flags = (if ''user'' \<in> set names then take 1 flags @ [''--map-root-user''] @ drop 1 flags else flags)
      in if ''pid'' \<in> set names then flags @ [''--fork'', ''--kill-child''] else flags)"

definition prefix_of :: "string \<Rightarrow> string \<Rightarrow> sandbox_config \<Rightarrow> string list \<Rightarrow> string list" where
  "prefix_of python jail config names =
     [''unshare''] @ flags_of names @ [''--'']
     @ (if sc_hidden_paths config \<noteq> [] then jail_argv python jail (sc_hidden_paths config) else [])"

text \<open>The first set the host grants, or why it refused the last one it was asked for.\<close>

fun first_granted ::
  "(string list \<Rightarrow> string option) \<Rightarrow> (string list \<Rightarrow> string list) \<Rightarrow> string list list \<Rightarrow> string
   \<Rightarrow> string + string list" where
  "first_granted probe prefix [] refusal = Inl refusal"
| "first_granted probe prefix (names # others) refusal =
     (case probe (prefix names) of
        None \<Rightarrow> Inr names
      | Some refusal \<Rightarrow> first_granted probe prefix others refusal)"

definition detect_isolation ::
  "string \<Rightarrow> string \<Rightarrow> bool \<Rightarrow> (string list \<Rightarrow> string option) \<Rightarrow> sandbox_config
   \<Rightarrow> string + string \<times> string list" where
  "detect_isolation python jail superuser probe config =
     (let wanted = sc_network_disabled config \<or> sc_require_isolation config \<or> sc_hidden_paths config \<noteq> []
      in case first_granted probe (prefix_of python jail config)
                (if wanted then candidates superuser config else []) ''no namespace set was tried'' of
           Inr names \<Rightarrow> Inr (join ''+'' names, prefix_of python jail config names)
         | Inl refusal \<Rightarrow>
             if sc_require_isolation config \<or> sc_hidden_paths config \<noteq> []
             then Inl (''this host won'' @ [CHR 0x27] @ ''t give sandboxed commands their own namespaces, ''
                    @ ''and the sandbox is configured to refuse to run without them: '' @ refusal)
             else Inr (''none'', []))"

definition network_isolated :: "sandbox_config \<Rightarrow> string \<Rightarrow> bool" where
  "network_isolated config isolation \<longleftrightarrow>
     sc_network_disabled config \<and> ''net'' \<in> set (split_on CHR ''+'' isolation)"

section \<open>The jail\<close>

text \<open>
  \<^verbatim>\<open>main\<close>: the directories covered, in order, and then the command that is executed, or the path whose
  covering failed; a \<^verbatim>\<open>ValueError\<close> when there is no \<^verbatim>\<open>--\<close>.
\<close>

datatype jailed = Executes "string list" | Could_not_hide string | No_separator

fun cover :: "(string \<Rightarrow> bool) \<Rightarrow> (string \<Rightarrow> bool) \<Rightarrow> string list \<Rightarrow> string list \<times> string option" where
  "cover isdir mounts [] = ([], None)"
| "cover isdir mounts (p # ps) =
     (if \<not> isdir p then cover isdir mounts ps
      else if \<not> mounts p then ([], Some p)
      else (case cover isdir mounts ps of (done, failed) \<Rightarrow> (p # done, failed)))"

definition jail_main :: "(string \<Rightarrow> bool) \<Rightarrow> (string \<Rightarrow> bool) \<Rightarrow> string list \<Rightarrow> string list \<times> jailed" where
  "jail_main isdir mounts argv =
     (if ''--'' \<notin> set argv then ([], No_separator)
      else (let hidden = takeWhile (\<lambda>a. a \<noteq> ''--'') argv;
                command = tl (dropWhile (\<lambda>a. a \<noteq> ''--'') argv)
            in case cover isdir mounts hidden of
                 (done, Some p) \<Rightarrow> (done, Could_not_hide p)
               | (done, None) \<Rightarrow> (done, Executes command)))"

section \<open>What a sandbox that must isolate grants its commands\<close>

lemma first_granted_Inr:
  "first_granted probe prefix sets refusal = Inr names \<Longrightarrow> names \<in> set sets \<and> probe (prefix names) = None"
  by (induction probe prefix sets refusal rule: first_granted.induct) (auto split: option.splits)

lemma set_once: "set (once xs) = set xs"
  using set_keys_dict_of [of "map (\<lambda>x. (x, ())) xs"] by (simp add: once_def image_image)

lemma cover_done: "cover isdir mounts ps = (done, None) \<Longrightarrow> done = filter isdir ps \<and> list_all mounts done"
  by (induction isdir mounts ps arbitrary: "done" rule: cover.induct) (auto split: if_splits prod.splits)

lemma strict_candidates:
  assumes "names \<in> set (candidates superuser config)" and "sc_require_isolation config \<or> sc_hidden_paths config \<noteq> []"
  shows "''pid'' \<in> set names" and "sc_network_disabled config \<Longrightarrow> ''net'' \<in> set names"
    and "sc_hidden_paths config \<noteq> [] \<Longrightarrow> ''mount'' \<in> set names"
  using assms by (auto simp: candidates_def namespace_sets_def Let_def split: if_splits)



end
