(* ===== verification/Agent_Mcp.thy ===== *)
theory Agent_Mcp
  imports Agent_Sandbox
begin

text \<open>
  The sandbox over MCP: the server's tools (\<^verbatim>\<open>app/mcp/sandbox_server.py\<close>) and the client that implements
  the same interface as the sandbox itself (\<^verbatim>\<open>app/mcp/sandbox_client.py\<close>), with the choice between the two
  (\<^verbatim>\<open>app/sandbox/factory.py\<close>). The MCP library is not part of the program: \<open>bind\<close> stands for the schema
  validation that turns a tool's name and arguments into a typed request, and \<open>failure\<close> for the text it
  puts into the result of a tool that raised. What the client relies on is \<open>binds\<close>: arguments of the
  declared types arrive as they are (\<open>plain\<close>).
\<close>

section \<open>The server\<close>

datatype request =
    Read_file string
  | Write_file string string
  | List_dir string
  | Run_command string
  | Run_tests "string option"

definition reject_absolute :: "(json \<Rightarrow> string) \<Rightarrow> string \<Rightarrow> string option" where
  "reject_absolute rep p =
     (if is_absolute p then Some (''path must be workspace-relative, not absolute: '' @ rep (JStr p)) else None)"

definition call_of :: "tool_name \<Rightarrow> (string \<times> json) list \<Rightarrow> tool_call" where
  "call_of name arguments = \<lparr>tc_name = name, tc_arguments = arguments\<rparr>"

text \<open>One tool of the server; the left is the exception it raised.\<close>

fun serve_tool :: "sandbox \<Rightarrow> request \<Rightarrow> fs \<Rightarrow> (string + tool_result) \<times> fs" where
  "serve_tool sb (Read_file p) fs =
     (case reject_absolute (sb_rep sb) p of
        Some e \<Rightarrow> (Inl e, fs) | None \<Rightarrow> execute sb (call_of READ_FILE [(''path'', JStr p)]) fs)"
| "serve_tool sb (Write_file p content) fs =
     (case reject_absolute (sb_rep sb) p of
        Some e \<Rightarrow> (Inl e, fs)
      | None \<Rightarrow> execute sb (call_of WRITE_FILE [(''path'', JStr p), (''content'', JStr content)]) fs)"
| "serve_tool sb (List_dir p) fs =
     (case reject_absolute (sb_rep sb) p of
        Some e \<Rightarrow> (Inl e, fs) | None \<Rightarrow> execute sb (call_of LIST_DIR [(''path'', JStr p)]) fs)"
| "serve_tool sb (Run_command command) fs = execute sb (call_of RUN_COMMAND [(''command'', JStr command)]) fs"
| "serve_tool sb (Run_tests target) fs =
     execute sb (call_of RUN_TESTS (case target of None \<Rightarrow> [] | Some t \<Rightarrow> [(''target'', JStr t)])) fs"

text \<open>\<^verbatim>\<open>SandboxToolResult\<close>, as the structured content of a result.\<close>

definition structured :: "tool_result \<Rightarrow> json" where
  "structured r = JObj
     [(''output'', JStr (tr_output r)), (''ok'', JBool (tr_ok r)),
      (''exit_code'', case tr_exit_code r of None \<Rightarrow> JNull | Some n \<Rightarrow> JInt n),
      (''timed_out'', JBool (tr_timed_out r)), (''truncated'', JBool (tr_truncated r))]"

record call_result =
  cr_is_error :: bool
  cr_structured :: "json option"
  cr_texts :: "string list"

text \<open>A session with the server: a request that does not bind and a tool that raises are error results.\<close>

definition session ::
  "(string \<Rightarrow> (string \<times> json) list \<Rightarrow> string + request) \<Rightarrow> (string \<Rightarrow> string \<Rightarrow> string) \<Rightarrow> sandbox
   \<Rightarrow> string \<Rightarrow> (string \<times> json) list \<Rightarrow> fs \<Rightarrow> call_result \<times> fs" where
  "session bind failure sb name arguments fs =
     (case bind name arguments of
        Inl e \<Rightarrow> (\<lparr>cr_is_error = True, cr_structured = None, cr_texts = [failure name e]\<rparr>, fs)
      | Inr request \<Rightarrow>
          (case serve_tool sb request fs of
             (Inl e, fs') \<Rightarrow> (\<lparr>cr_is_error = True, cr_structured = None, cr_texts = [failure name e]\<rparr>, fs')
           | (Inr r, fs') \<Rightarrow> (\<lparr>cr_is_error = False, cr_structured = Some (structured r), cr_texts = []\<rparr>, fs')))"

section \<open>The client\<close>

definition truthy :: "json \<Rightarrow> bool" where
  "truthy v = (case v of JNull \<Rightarrow> False | JBool b \<Rightarrow> b | JInt n \<Rightarrow> n \<noteq> 0 | JFloat x \<Rightarrow> x \<noteq> 0
     | JStr s \<Rightarrow> s \<noteq> [] | JList xs \<Rightarrow> xs \<noteq> [] | JObj kvs \<Rightarrow> kvs \<noteq> [])"

definition get_or :: "json \<Rightarrow> string \<Rightarrow> json \<Rightarrow> json" where
  "get_or v k missing = (case obj_get v k of None \<Rightarrow> missing | Some x \<Rightarrow> x)"

definition first_text :: "string list \<Rightarrow> string" where
  "first_text texts = (case texts of [] \<Rightarrow> [] | t # _ \<Rightarrow> t)"

text \<open>\<^verbatim>\<open>_to_result\<close>; the exit code is kept as it comes, an integer or nothing.\<close>

definition to_result :: "(json \<Rightarrow> string) \<Rightarrow> call_result \<Rightarrow> tool_result" where
  "to_result rep r =
     (case (cr_is_error r, cr_structured r) of
        (False, Some v) \<Rightarrow>
          \<lparr>tr_output = py_str rep (get_or v ''output'' (JStr [])), tr_ok = truthy (get_or v ''ok'' (JBool False)),
           tr_exit_code = (case get_or_none v ''exit_code'' of JInt n \<Rightarrow> Some n | _ \<Rightarrow> None),
           tr_timed_out = truthy (get_or v ''timed_out'' (JBool False)),
           tr_truncated = truthy (get_or v ''truncated'' (JBool False))\<rparr>
      | _ \<Rightarrow> plain_result (if first_text (cr_texts r) = [] then ''tool error'' else first_text (cr_texts r)) False)"

text \<open>
  \<^verbatim>\<open>McpSandbox.execute\<close>: finishing and escalating never reach the server; \<open>send\<close> is the session, with
  \<open>None\<close> for a session that is not there and the left for a transport that failed or timed out.
\<close>

definition mcp_execute ::
  "(json \<Rightarrow> string) \<Rightarrow> (string \<Rightarrow> (string \<times> json) list \<Rightarrow> fs \<Rightarrow> (string + call_result) \<times> fs) option
   \<Rightarrow> tool_call \<Rightarrow> fs \<Rightarrow> tool_result \<times> fs" where
  "mcp_execute rep send call fs =
     (if tc_name call = FINISH \<or> tc_name call = ESCALATE
      then (plain_result (argument_text rep call (if tc_name call = FINISH then ''answer'' else ''reason'')) True, fs)
      else (case send of
              None \<Rightarrow> (plain_result ''sandbox error: MCP session is not available'' False, fs)
            | Some f \<Rightarrow>
                (case f (tool_value (tc_name call)) (tc_arguments call) fs of
                   (Inl e, fs') \<Rightarrow> (plain_result (''sandbox error: '' @ e) False, fs')
                 | (Inr r, fs') \<Rightarrow> (to_result rep r, fs'))))"

definition delivered ::
  "(string \<Rightarrow> (string \<times> json) list \<Rightarrow> fs \<Rightarrow> call_result \<times> fs)
   \<Rightarrow> string \<Rightarrow> (string \<times> json) list \<Rightarrow> fs \<Rightarrow> (string + call_result) \<times> fs" where
  "delivered f name arguments fs = (case f name arguments fs of (r, fs') \<Rightarrow> (Inr r, fs'))"

datatype transport = In_process | Mcp

text \<open>\<^verbatim>\<open>make_sandbox\<close>'s choice, by the name of the transport.\<close>

definition transport_of :: "(string \<Rightarrow> string) \<Rightarrow> string \<Rightarrow> string + transport" where
  "transport_of repr name =
     (if name = ''in_process'' then Inr In_process
      else if name = ''mcp'' then Inr Mcp
      else Inl (''unknown tool transport: '' @ repr name @ '' (expected '' @ repr ''in_process'' @ '' or ''
             @ repr ''mcp'' @ '')''))"

section \<open>Either transport gives the same results\<close>

definition string_at :: "tool_call \<Rightarrow> string \<Rightarrow> string option" where
  "string_at call key = (case dict_get (tc_arguments call) key of Some (JStr s) \<Rightarrow> Some s | _ \<Rightarrow> None)"

text \<open>The request a call of the declared types is; what it leaves out has a default.\<close>

definition typed_request :: "tool_call \<Rightarrow> request option" where
  "typed_request call =
     (case tc_name call of
        READ_FILE \<Rightarrow> map_option Read_file (string_at call ''path'')
      | WRITE_FILE \<Rightarrow>
          (case (string_at call ''path'', string_at call ''content'') of
             (Some p, Some c) \<Rightarrow> Some (Write_file p c) | _ \<Rightarrow> None)
      | LIST_DIR \<Rightarrow>
          if dict_get (tc_arguments call) ''path'' = None then Some (List_dir ''.'')
          else map_option List_dir (string_at call ''path'')
      | RUN_COMMAND \<Rightarrow> map_option Run_command (string_at call ''command'')
      | RUN_TESTS \<Rightarrow>
          if dict_get (tc_arguments call) ''target'' \<in> {None, Some JNull} then Some (Run_tests None)
          else map_option (\<lambda>t. Run_tests (Some t)) (string_at call ''target'')
      | _ \<Rightarrow> None)"

text \<open>
  What passes through unchanged: a relative path, and a test target that is not itself a JSON text
  (\<open>loads\<close>), which the library would parse for a parameter that may also be null.
\<close>

fun plain :: "(string \<Rightarrow> json option) \<Rightarrow> request \<Rightarrow> bool" where
  "plain loads (Read_file p) = (\<not> is_absolute p)"
| "plain loads (Write_file p _) = (\<not> is_absolute p)"
| "plain loads (List_dir p) = (\<not> is_absolute p)"
| "plain loads (Run_tests (Some t)) = (loads t = None)"
| "plain loads _ = True"

definition binds ::
  "(string \<Rightarrow> json option) \<Rightarrow> (string \<Rightarrow> (string \<times> json) list \<Rightarrow> string + request) \<Rightarrow> bool" where
  "binds loads bind \<longleftrightarrow>
     (\<forall>call request. typed_request call = Some request \<longrightarrow> plain loads request \<longrightarrow>
        bind (tool_value (tc_name call)) (tc_arguments call) = Inr request)"

lemma to_result_structured [simp]:
  "to_result rep \<lparr>cr_is_error = False, cr_structured = Some (structured r), cr_texts = ts\<rparr> = r"
  by (cases r) (simp add: to_result_def structured_def get_or_def get_or_none_def truthy_def split: option.splits)

lemma string_at_Some: "string_at call key = Some s \<longleftrightarrow> dict_get (tc_arguments call) key = Some (JStr s)"
  by (auto simp: string_at_def split: option.splits json.splits)

lemma serve_tool_same:
  assumes "typed_request call = Some request" and "plain loads request"
  shows "serve_tool sb request fs = execute sb call fs"
  using assms
  by (auto simp: typed_request_def execute_def call_of_def required_def argument_or_def reject_absolute_def
      string_at_Some split: tool_name.splits option.splits if_splits)

text \<open>
  A tool call with arguments of the declared types, relative paths and plain targets has the same
  result and the same effect over MCP as in the process, whenever the sandbox itself answers it.
\<close>

theorem transports_agree:
  assumes "binds loads bind" and "execute sb call fs = (Inr r, fs')"
    and "tc_name call \<in> {FINISH, ESCALATE} \<or> (\<exists>request. typed_request call = Some request \<and> plain loads request)"
  shows "mcp_execute (sb_rep sb) (Some (delivered (session bind failure sb))) call fs = (r, fs')"
proof (cases "tc_name call \<in> {FINISH, ESCALATE}")
  case True
  with assms(2) show ?thesis
    by (auto simp: mcp_execute_def execute_def argument_or_def argument_text_def split: option.splits)
next
  case False
  with assms(3) obtain request where q: "typed_request call = Some request" "plain loads request" by blast
  with assms(1) have b: "bind (tool_value (tc_name call)) (tc_arguments call) = Inr request"
    by (auto simp: binds_def)
  have "serve_tool sb request fs = (Inr r, fs')" using serve_tool_same [OF q] assms(2) by simp
  with False b show ?thesis by (simp add: mcp_execute_def delivered_def session_def)
qed

text \<open>A binder that checks the types of the arguments and nothing else.\<close>

definition demo_bind :: "string \<Rightarrow> (string \<times> json) list \<Rightarrow> string + request" where
  "demo_bind name arguments =
     (case tool_of name of
        None \<Rightarrow> Inl ''Unknown tool''
      | Some t \<Rightarrow>
          (case typed_request (call_of t arguments) of None \<Rightarrow> Inl ''Field required'' | Some q \<Rightarrow> Inr q))"

lemma tool_of_value [simp]: "tool_of (tool_value t) = Some t"
  by (cases t) (simp_all add: tool_of_def tool_names_def)

lemma call_of_sel [simp]: "call_of (tc_name call) (tc_arguments call) = call"
  by (cases call) (simp add: call_of_def)

lemma demo_binds: "binds (\<lambda>_. None) demo_bind"
  by (simp add: binds_def demo_bind_def)

theorem transports_agree_witness:
  "\<exists>r. execute demo_sandbox (demo_read ''out'') demo_fs = (Inr r, demo_fs)
     \<and> mcp_execute (sb_rep demo_sandbox) (Some (delivered (session demo_bind (\<lambda>_ e. e) demo_sandbox)))
         (demo_read ''out'') demo_fs = (r, demo_fs)"
proof -
  obtain r where e: "execute demo_sandbox (demo_read ''out'') demo_fs = (Inr r, demo_fs)"
    by (simp add: execute_def demo_read_def required_def)
  have "typed_request (demo_read ''out'') = Some (Read_file ''out'')" "plain (\<lambda>_. None) (Read_file ''out'')" by code_simp+
  with transports_agree [OF demo_binds e] e show ?thesis by blast
qed

end
