(* ===== verification/Tracker_Store.thy ===== *)
theory Tracker_Store
  imports Json "HOL-Library.Monad_Syntax" "HOL-Library.Countable"
begin

text \<open>
  The issue tracker: its records (\<^verbatim>\<open>app/tracker/models.py\<close>), the abstract class \<^verbatim>\<open>TicketStore\<close> as a record
  of operations (\<open>ticket_ops\<close>) with its contract as the locale \<open>ticket_store\<close>, the store in a JSON file
  that implements it (\<^verbatim>\<open>app/tracker/store.py\<close>), the starter tickets (\<^verbatim>\<open>app/tracker/seed.py\<close>) and the
  tools of the MCP server over any store (\<^verbatim>\<open>app/mcp/tracker_server.py\<close>).

  The state of the JSON store is the text of its file, or nothing when there is no file. \<^verbatim>\<open>json\<close>'s
  \<^verbatim>\<open>dumps\<close> and \<^verbatim>\<open>loads\<close> and pydantic's two conversions of a timestamp are arguments (\<open>codec\<close>); every
  timestamp is taken to carry its time zone, as those the store writes do. \<open>now j\<close> is the reading of the
  clock the \<open>j\<close>-th call of \<^verbatim>\<open>_now\<close> makes during an operation. What goes wrong with the file itself is one
  error, \<open>Unreadable\<close>.
\<close>

section \<open>Records\<close>

datatype ticket_status = OPEN | IN_PROGRESS | STATUS_RESOLVED | STATUS_ESCALATED

datatype ticket_priority = LOW | MEDIUM_PRIORITY | HIGH

fun status_value :: "ticket_status \<Rightarrow> string" where
  "status_value OPEN = ''open''"
| "status_value IN_PROGRESS = ''in_progress''"
| "status_value STATUS_RESOLVED = ''resolved''"
| "status_value STATUS_ESCALATED = ''escalated''"

fun priority_value :: "ticket_priority \<Rightarrow> string" where
  "priority_value LOW = ''low''"
| "priority_value MEDIUM_PRIORITY = ''medium''"
| "priority_value HIGH = ''high''"

record ticket_comment =
  cc_author :: string
  cc_body :: string
  cc_created_at :: time

record ticket =
  ti_id :: string
  ti_title :: string
  ti_body :: string
  ti_status :: ticket_status
  ti_priority :: ticket_priority
  ti_workspace :: string
  ti_labels :: "string list"
  ti_comments :: "ticket_comment list"
  ti_created_at :: time
  ti_updated_at :: time

datatype tracker_error = TicketNotFound string | Unreadable

section \<open>A ticket as JSON\<close>

record codec =
  co_dumps :: "json \<Rightarrow> string"
  co_loads :: "string \<Rightarrow> json option"
  co_stamp :: "time \<Rightarrow> string"
  co_unstamp :: "json \<Rightarrow> time option"

definition comment_dump :: "codec \<Rightarrow> ticket_comment \<Rightarrow> json" where
  "comment_dump c x =
     JObj [(''author'', JStr (cc_author x)), (''body'', JStr (cc_body x)),
           (''created_at'', JStr (co_stamp c (cc_created_at x)))]"

definition ticket_dump :: "codec \<Rightarrow> ticket \<Rightarrow> json" where
  "ticket_dump c t =
     JObj [(''id'', JStr (ti_id t)), (''title'', JStr (ti_title t)), (''body'', JStr (ti_body t)),
           (''status'', JStr (status_value (ti_status t))), (''priority'', JStr (priority_value (ti_priority t))),
           (''workspace'', JStr (ti_workspace t)), (''labels'', JList (map JStr (ti_labels t))),
           (''comments'', JList (map (comment_dump c) (ti_comments t))),
           (''created_at'', JStr (co_stamp c (ti_created_at t))),
           (''updated_at'', JStr (co_stamp c (ti_updated_at t)))]"

fun str_in :: "json \<Rightarrow> string option" where
  "str_in (JStr s) = Some s"
| "str_in _ = None"

fun list_in :: "(json \<Rightarrow> 'a option) \<Rightarrow> json \<Rightarrow> 'a list option" where
  "list_in p (JList xs) = those (map p xs)"
| "list_in p _ = None"

definition status_in :: "json \<Rightarrow> ticket_status option" where
  "status_in v = find (\<lambda>s. v = JStr (status_value s)) [OPEN, IN_PROGRESS, STATUS_RESOLVED, STATUS_ESCALATED]"

definition priority_in :: "json \<Rightarrow> ticket_priority option" where
  "priority_in v = find (\<lambda>p. v = JStr (priority_value p)) [LOW, MEDIUM_PRIORITY, HIGH]"

definition field_in :: "json \<Rightarrow> string \<Rightarrow> (json \<Rightarrow> 'a option) \<Rightarrow> 'a option" where
  "field_in v k p = (case obj_get v k of None \<Rightarrow> None | Some x \<Rightarrow> p x)"

definition defaulted :: "json \<Rightarrow> string \<Rightarrow> (json \<Rightarrow> 'a option) \<Rightarrow> 'a \<Rightarrow> 'a option" where
  "defaulted v k p d = (case obj_get v k of None \<Rightarrow> Some d | Some x \<Rightarrow> p x)"

definition comment_in :: "codec \<Rightarrow> json \<Rightarrow> ticket_comment option" where
  "comment_in c v = do {
     a \<leftarrow> field_in v ''author'' str_in;
     b \<leftarrow> field_in v ''body'' str_in;
     t \<leftarrow> field_in v ''created_at'' (co_unstamp c);
     Some \<lparr>cc_author = a, cc_body = b, cc_created_at = t\<rparr> }"

text \<open>\<^verbatim>\<open>Ticket.model_validate\<close>.\<close>

definition ticket_in :: "codec \<Rightarrow> json \<Rightarrow> ticket option" where
  "ticket_in c v = do {
     i \<leftarrow> field_in v ''id'' str_in;
     title \<leftarrow> field_in v ''title'' str_in;
     body \<leftarrow> field_in v ''body'' str_in;
     s \<leftarrow> defaulted v ''status'' status_in OPEN;
     p \<leftarrow> defaulted v ''priority'' priority_in MEDIUM_PRIORITY;
     ws \<leftarrow> field_in v ''workspace'' str_in;
     ls \<leftarrow> defaulted v ''labels'' (list_in str_in) [];
     cs \<leftarrow> defaulted v ''comments'' (list_in (comment_in c)) [];
     made \<leftarrow> field_in v ''created_at'' (co_unstamp c);
     changed \<leftarrow> field_in v ''updated_at'' (co_unstamp c);
     Some \<lparr>ti_id = i, ti_title = title, ti_body = body, ti_status = s, ti_priority = p, ti_workspace = ws,
           ti_labels = ls, ti_comments = cs, ti_created_at = made, ti_updated_at = changed\<rparr> }"

text \<open>What the store relies on: a document it writes, and a timestamp, read back as they were.\<close>

definition faithful :: "codec \<Rightarrow> bool" where
  "faithful c \<longleftrightarrow>
     (\<forall>ts. let doc = JList (map (ticket_dump c) ts) in co_loads c (co_dumps c doc) = Some doc)
     \<and> (\<forall>t. co_unstamp c (JStr (co_stamp c t)) = Some t)"

section \<open>The store in a JSON file\<close>

type_synonym ticket_file = "string option"

definition write_tickets :: "codec \<Rightarrow> ticket list \<Rightarrow> ticket_file" where
  "write_tickets c ts = Some (co_dumps c (JList (map (ticket_dump c) ts)))"

text \<open>What \<^verbatim>\<open>for item in raw\<close> runs over: a dictionary's keys, a string's characters.\<close>

fun items_of :: "json \<Rightarrow> json list option" where
  "items_of (JList xs) = Some xs"
| "items_of (JObj kvs) = Some (map (\<lambda>kv. JStr (fst kv)) kvs)"
| "items_of (JStr s) = Some (map (\<lambda>ch. JStr [ch]) s)"
| "items_of _ = None"

definition load_tickets :: "codec \<Rightarrow> ticket_file \<Rightarrow> tracker_error + ticket list" where
  "load_tickets c f =
     (case f of
        None \<Rightarrow> Inr []
      | Some body \<Rightarrow>
          (case do { raw \<leftarrow> co_loads c body; xs \<leftarrow> items_of raw; those (map (ticket_in c) xs) } of
             None \<Rightarrow> Inl Unreadable
           | Some ts \<Rightarrow> Inr ts))"

fun index_of :: "ticket list \<Rightarrow> string \<Rightarrow> tracker_error + nat" where
  "index_of [] i = Inl (TicketNotFound i)"
| "index_of (t # ts) i = (if ti_id t = i then Inr 0 else map_sum id Suc (index_of ts i))"

definition json_list :: "codec \<Rightarrow> ticket_status option \<Rightarrow> ticket_file \<Rightarrow> tracker_error + ticket list" where
  "json_list c status f =
     (case load_tickets c f of
        Inl e \<Rightarrow> Inl e
      | Inr all_tickets \<Rightarrow>
          (let ts = sort_key (\<lambda>t. - ti_created_at t) all_tickets
           in Inr (case status of None \<Rightarrow> ts | Some s \<Rightarrow> filter (\<lambda>t. ti_status t = s) ts)))"

definition json_get :: "codec \<Rightarrow> string \<Rightarrow> ticket_file \<Rightarrow> tracker_error + ticket" where
  "json_get c i f =
     (case load_tickets c f of
        Inl e \<Rightarrow> Inl e
      | Inr ts \<Rightarrow> (case index_of ts i of Inl e \<Rightarrow> Inl e | Inr n \<Rightarrow> Inr (ts ! n)))"

text \<open>\<^verbatim>\<open>update_status\<close> and \<^verbatim>\<open>add_comment\<close> differ in what they make of the ticket.\<close>

definition json_change :: "codec \<Rightarrow> (ticket \<Rightarrow> ticket) \<Rightarrow> string \<Rightarrow> ticket_file \<Rightarrow> (tracker_error + ticket) \<times> ticket_file" where
  "json_change c change i f =
     (case load_tickets c f of
        Inl e \<Rightarrow> (Inl e, f)
      | Inr ts \<Rightarrow>
          (case index_of ts i of
             Inl e \<Rightarrow> (Inl e, f)
           | Inr n \<Rightarrow>
               (let updated = change (ts ! n)
                in (Inr updated, write_tickets c (ts[n := updated])))))"

definition with_status :: "(nat \<Rightarrow> time) \<Rightarrow> ticket_status \<Rightarrow> ticket \<Rightarrow> ticket" where
  "with_status now s t = t\<lparr>ti_status := s, ti_updated_at := now 0\<rparr>"

definition with_comment :: "(nat \<Rightarrow> time) \<Rightarrow> string \<Rightarrow> string \<Rightarrow> ticket \<Rightarrow> ticket" where
  "with_comment now author body t =
     (let new = \<lparr>cc_author = author, cc_body = body, cc_created_at = now 0\<rparr>
      in t\<lparr>ti_comments := ti_comments t @ [new], ti_updated_at := now 1\<rparr>)"

definition json_update_status ::
  "codec \<Rightarrow> (nat \<Rightarrow> time) \<Rightarrow> string \<Rightarrow> ticket_status \<Rightarrow> ticket_file \<Rightarrow> (tracker_error + ticket) \<times> ticket_file" where
  "json_update_status c now i s f = json_change c (with_status now s) i f"

definition json_add_comment ::
  "codec \<Rightarrow> (nat \<Rightarrow> time) \<Rightarrow> string \<Rightarrow> string \<Rightarrow> string \<Rightarrow> ticket_file \<Rightarrow> (tracker_error + ticket) \<times> ticket_file" where
  "json_add_comment c now i author body f = json_change c (with_comment now author body) i f"

text \<open>\<^verbatim>\<open>TicketStore\<close>, and the store that implements it.\<close>

record 's ticket_ops =
  op_list :: "ticket_status option \<Rightarrow> 's \<Rightarrow> tracker_error + ticket list"
  op_get :: "string \<Rightarrow> 's \<Rightarrow> tracker_error + ticket"
  op_update_status :: "(nat \<Rightarrow> time) \<Rightarrow> string \<Rightarrow> ticket_status \<Rightarrow> 's \<Rightarrow> (tracker_error + ticket) \<times> 's"
  op_add_comment :: "(nat \<Rightarrow> time) \<Rightarrow> string \<Rightarrow> string \<Rightarrow> string \<Rightarrow> 's \<Rightarrow> (tracker_error + ticket) \<times> 's"

definition json_store :: "codec \<Rightarrow> ticket_file ticket_ops" where
  "json_store c = \<lparr>op_list = json_list c, op_get = json_get c, op_update_status = json_update_status c,
     op_add_comment = json_add_comment c\<rparr>"

section \<open>The starter tickets\<close>

definition SEED_TIME :: time where
  "SEED_TIME = 1780304400000000"

definition seed_ticket :: "string \<Rightarrow> string \<Rightarrow> string \<Rightarrow> ticket_status \<Rightarrow> ticket_priority \<Rightarrow> string \<Rightarrow> string list \<Rightarrow> ticket" where
  "seed_ticket i title body s p ws ls =
     \<lparr>ti_id = i, ti_title = title, ti_body = body, ti_status = s, ti_priority = p, ti_workspace = ws,
      ti_labels = ls, ti_comments = [], ti_created_at = SEED_TIME, ti_updated_at = SEED_TIME\<rparr>"

definition SEED_TICKETS :: "ticket list" where
  "SEED_TICKETS =
     [seed_ticket ''ACS-101'' ''CSV export drops the last row without a trailing newline''
        (''The CSV exporter omits the final record when the source file has no trailing ''
         @ ''newline. Fix the exporter so every row is written, and add a regression test.'')
        OPEN HIGH ''reporting-service'' [''bug'', ''exports''],
      seed_ticket ''ACS-102'' ''Add a --version flag to the CLI''
        (''The CLI has no way to print its version. Add a --version flag that prints the package ''
         @ ''version and exits 0, and cover it with a test.'')
        OPEN MEDIUM_PRIORITY ''cli-tools'' [''enhancement'', ''cli''],
      seed_ticket ''ACS-103'' ''slugify() crashes on non-ASCII input''
        (''slugify() raises on strings with accented characters. It should transliterate or ''
         @ ''strip them and return a valid slug. Add tests for a few non-ASCII inputs.'')
        OPEN MEDIUM_PRIORITY ''web-utils'' [''bug''],
      seed_ticket ''ACS-104'' ''Retry HTTP calls on 429 with backoff''
        (''The API client gives up immediately on a 429. Add bounded exponential-backoff retries ''
         @ ''for 429 and 503 responses, capped at five attempts, and test the schedule.'')
        IN_PROGRESS LOW ''api-client'' [''reliability'']]"

definition write_seed :: "codec \<Rightarrow> ticket_file" where
  "write_seed c = write_tickets c SEED_TICKETS"

text \<open>The file \<^verbatim>\<open>resolve_store\<close> leaves, once the path is chosen.\<close>

definition resolve_store :: "codec \<Rightarrow> ticket_file \<Rightarrow> ticket_file" where
  "resolve_store c f = (case f of None \<Rightarrow> write_seed c | Some body \<Rightarrow> Some body)"

section \<open>The tools of the tracker server\<close>

datatype tracker_call =
    List_tickets "ticket_status option"
  | Get_ticket string
  | Update_ticket_status string ticket_status
  | Add_comment string string string

text \<open>What a tool answers: a list, a ticket, the \<^verbatim>\<open>ToolError\<close> of the server, or an error of the store
  the server does not catch.\<close>

datatype tracker_reply = Tickets "ticket list" | One ticket | Tool_error string | Raised tracker_error

fun one_reply :: "tracker_error + ticket \<Rightarrow> tracker_reply" where
  "one_reply (Inr t) = One t"
| "one_reply (Inl (TicketNotFound i)) = Tool_error (''no such ticket: '' @ i)"
| "one_reply (Inl Unreadable) = Raised Unreadable"

fun serve :: "'s ticket_ops \<Rightarrow> (nat \<Rightarrow> time) \<Rightarrow> tracker_call \<Rightarrow> 's \<Rightarrow> tracker_reply \<times> 's" where
  "serve ops now (List_tickets s) st = (case op_list ops s st of Inr ts \<Rightarrow> Tickets ts | Inl e \<Rightarrow> Raised e, st)"
| "serve ops now (Get_ticket i) st = (one_reply (op_get ops i st), st)"
| "serve ops now (Update_ticket_status i s) st =
     (case op_update_status ops now i s st of (r, st') \<Rightarrow> (one_reply r, st'))"
| "serve ops now (Add_comment i author body) st =
     (case op_add_comment ops now i author body st of (r, st') \<Rightarrow> (one_reply r, st'))"

text \<open>A session: the calls of a client one after another; \<open>now n\<close> is the clock during the \<open>n\<close>-th.\<close>

fun tracker_session :: "'s ticket_ops \<Rightarrow> (nat \<Rightarrow> nat \<Rightarrow> time) \<Rightarrow> nat \<Rightarrow> tracker_call list \<Rightarrow> 's \<Rightarrow> tracker_reply list \<times> 's" where
  "tracker_session ops now n [] st = ([], st)"
| "tracker_session ops now n (x # xs) st =
     (let (r, st') = serve ops (now n) x st; (rs, st'') = tracker_session ops now (Suc n) xs st' in (r # rs, st''))"
section \<open>What a ticket store promises\<close>

text \<open>
  The contract, over the tickets by their ids: \<open>holds st m\<close> says that the store in state \<open>st\<close> holds the
  tickets \<open>m\<close>. A listing has every ticket of the wanted status once, the newest first.
\<close>

type_synonym tickets = "string \<Rightarrow> ticket option"

definition wanted :: "ticket_status option \<Rightarrow> ticket \<Rightarrow> bool" where
  "wanted s t \<longleftrightarrow> (case s of None \<Rightarrow> True | Some x \<Rightarrow> ti_status t = x)"

definition listing :: "ticket_status option \<Rightarrow> tickets \<Rightarrow> ticket list \<Rightarrow> bool" where
  "listing s m ts \<longleftrightarrow> sorted (map (\<lambda>t. - ti_created_at t) ts) \<and> distinct (map ti_id ts)
     \<and> set ts = {t \<in> ran m. wanted s t}"

fun found_ticket :: "string \<Rightarrow> ticket option \<Rightarrow> tracker_error + ticket" where
  "found_ticket i None = Inl (TicketNotFound i)"
| "found_ticket i (Some t) = Inr t"

definition change_at :: "string \<Rightarrow> (ticket \<Rightarrow> ticket) \<Rightarrow> tickets \<Rightarrow> tickets" where
  "change_at i f m = m(i := map_option f (m i))"

locale ticket_store =
  fixes ops :: "'s ticket_ops" and holds :: "'s \<Rightarrow> tickets \<Rightarrow> bool"
  assumes ids_hold: "holds st m \<Longrightarrow> m i = Some t \<Longrightarrow> ti_id t = i"
    and list_law: "holds st m \<Longrightarrow> \<exists>ts. op_list ops q st = Inr ts \<and> listing q m ts"
    and get_law: "holds st m \<Longrightarrow> op_get ops i st = found_ticket i (m i)"
    and update_law: "holds st m \<Longrightarrow> \<exists>st'. op_update_status ops now i s st = (found_ticket i (map_option (with_status now s) (m i)), st')
      \<and> holds st' (change_at i (with_status now s) m)"
    and comment_law: "holds st m \<Longrightarrow> \<exists>st'. op_add_comment ops now i author body st
        = (found_ticket i (map_option (with_comment now author body) (m i)), st')
      \<and> holds st' (change_at i (with_comment now author body) m)"

text \<open>What one call makes of one ticket, and what a session makes of it.\<close>

fun act_on :: "(nat \<Rightarrow> time) \<Rightarrow> tracker_call \<Rightarrow> ticket \<Rightarrow> ticket" where
  "act_on now (Update_ticket_status i s) t = (if ti_id t = i then with_status now s t else t)"
| "act_on now (Add_comment i author body) t = (if ti_id t = i then with_comment now author body t else t)"
| "act_on now _ t = t"

fun history :: "(nat \<Rightarrow> nat \<Rightarrow> time) \<Rightarrow> nat \<Rightarrow> tracker_call list \<Rightarrow> ticket \<Rightarrow> ticket" where
  "history now n [] t = t"
| "history now n (x # xs) t = history now (Suc n) xs (act_on (now n) x t)"

text \<open>The answer to a call when the tickets are \<open>m\<close>.\<close>

fun answered_by :: "tickets \<Rightarrow> (nat \<Rightarrow> time) \<Rightarrow> tracker_call \<Rightarrow> tracker_reply \<Rightarrow> bool" where
  "answered_by m now (List_tickets s) r \<longleftrightarrow> (\<exists>ts. r = Tickets ts \<and> listing s m ts)"
| "answered_by m now (Get_ticket i) r \<longleftrightarrow> r = one_reply (found_ticket i (m i))"
| "answered_by m now (Update_ticket_status i s) r \<longleftrightarrow> r = one_reply (found_ticket i (map_option (with_status now s) (m i)))"
| "answered_by m now (Add_comment i a b) r \<longleftrightarrow> r = one_reply (found_ticket i (map_option (with_comment now a b) (m i)))"

fun all_answer :: "tickets \<Rightarrow> (nat \<Rightarrow> nat \<Rightarrow> time) \<Rightarrow> nat \<Rightarrow> tracker_call list \<Rightarrow> tracker_reply list \<Rightarrow> bool" where
  "all_answer m now n [] rs \<longleftrightarrow> rs = []"
| "all_answer m now n (x # xs) rs \<longleftrightarrow>
     (\<exists>r rest. rs = r # rest \<and> answered_by m (now n) x r
        \<and> all_answer (\<lambda>i. map_option (act_on (now n) x) (m i)) now (Suc n) xs rest)"

context ticket_store
begin

lemma reading_acts_not:
  "map_option (act_on now (List_tickets s)) x = x" "map_option (act_on now (Get_ticket i)) x = x"
  by (cases x; simp)+

lemma change_is_act:
  assumes "holds st m" and "\<And>t. ti_id t = i \<Longrightarrow> f t = g t" and "\<And>t. ti_id t \<noteq> i \<Longrightarrow> g t = t"
  shows "change_at i f m = (\<lambda>j. map_option g (m j))"
proof
  fix j
  show "change_at i f m j = map_option g (m j)"
    using ids_hold [OF assms(1), of j] assms(2,3) by (cases "m j") (auto simp: change_at_def)
qed

lemma serve_answers:
  assumes "holds st m"
  shows "\<exists>r st'. serve ops now x st = (r, st') \<and> answered_by m now x r \<and> holds st' (\<lambda>i. map_option (act_on now x) (m i))"
proof (cases x)
  case (List_tickets s)
  with list_law [OF assms, of s] assms show ?thesis by (auto simp: reading_acts_not)
next
  case (Get_ticket i)
  with get_law [OF assms, of i] assms show ?thesis by (auto simp: reading_acts_not)
next
  case (Update_ticket_status i s)
  with update_law [OF assms, of now i s] show ?thesis by (auto simp: change_is_act [OF assms, where g = "act_on now x"])
next
  case (Add_comment i a b)
  with comment_law [OF assms, of now i a b] show ?thesis by (auto simp: change_is_act [OF assms, where g = "act_on now x"])
qed

lemma session_answers:
  "holds st m \<Longrightarrow> tracker_session ops now n xs st = (rs, st') \<Longrightarrow>
     all_answer m now n xs rs \<and> holds st' (\<lambda>i. map_option (history now n xs) (m i))"
proof (induction xs arbitrary: n st m rs)
  case Nil
  then show ?case by (simp add: option.map_ident)
next
  case (Cons x xs)
  from serve_answers [OF Cons.prems(1), of "now n" x] obtain r st1 where
    r: "serve ops (now n) x st = (r, st1)" "answered_by m (now n) x r" "holds st1 (\<lambda>i. map_option (act_on (now n) x) (m i))"
    by blast
  obtain rest where rest: "tracker_session ops now (Suc n) xs st1 = (rest, st')" "rs = r # rest"
    using Cons.prems(2) r(1) by (auto split: prod.splits)
  from Cons.IH [OF r(3) rest(1)] r(2) rest(2) show ?case by (simp add: option.map_comp comp_def)
qed

end

section \<open>The store in a file keeps the promise\<close>

lemma those_map_in: "(\<And>x. x \<in> set xs \<Longrightarrow> p (d x) = Some x) \<Longrightarrow> those (map p (map d xs)) = Some xs"
  by (induction xs) auto

lemma enums_back [simp]:
  "status_in (JStr (status_value s)) = Some s" "priority_in (JStr (priority_value p)) = Some p"
  by (cases s; simp add: status_in_def) (cases p; simp add: priority_in_def)

lemma comment_back: "faithful c \<Longrightarrow> comment_in c (comment_dump c x) = Some x"
  by (simp add: faithful_def comment_in_def comment_dump_def field_in_def)

lemma ticket_back: "faithful c \<Longrightarrow> ticket_in c (ticket_dump c t) = Some t"
  using those_map_in [of "ti_labels t" str_in JStr] those_map_in [of "ti_comments t" "comment_in c" "comment_dump c"]
  by (simp add: faithful_def ticket_in_def ticket_dump_def field_in_def defaulted_def comment_back)

lemma load_written: "faithful c \<Longrightarrow> load_tickets c (write_tickets c ts) = Inr ts"
  using those_map_in [of ts "ticket_in c" "ticket_dump c"]
  by (simp add: load_tickets_def write_tickets_def ticket_back) (simp add: faithful_def Let_def)

definition by_ti_id :: "ticket list \<Rightarrow> tickets" where
  "by_ti_id ts = map_of (map (\<lambda>t. (ti_id t, t)) ts)"

definition file_holds :: "codec \<Rightarrow> ticket_file \<Rightarrow> tickets \<Rightarrow> bool" where
  "file_holds c f m \<longleftrightarrow>
     faithful c \<and> (\<exists>ts. load_tickets c f = Inr ts \<and> distinct (map ti_id ts) \<and> m = by_ti_id ts)"

lemma by_ti_id_mem: "by_ti_id ts i = Some t \<Longrightarrow> t \<in> set ts \<and> ti_id t = i"
  unfolding by_ti_id_def by (drule map_of_SomeD) auto

lemma by_ti_id_simps [simp]:
  "by_ti_id [] = Map.empty" "by_ti_id (t # ts) = (by_ti_id ts)(ti_id t \<mapsto> t)"
  by (simp_all add: by_ti_id_def)

lemma by_ti_id_None: "by_ti_id ts i = None \<longleftrightarrow> i \<notin> ti_id ` set ts"
  by (induction ts) auto

lemma ran_by_ti_id: "distinct (map ti_id ts) \<Longrightarrow> ran (by_ti_id ts) = set ts"
  using ran_distinct [of "map (\<lambda>t. (ti_id t, t)) ts"] by (simp add: by_ti_id_def comp_def image_image)

lemma index_of_by_ti_id:
  "case index_of ts i of
     Inl e \<Rightarrow> e = TicketNotFound i \<and> by_ti_id ts i = None
   | Inr n \<Rightarrow> n < length ts \<and> by_ti_id ts i = Some (ts ! n) \<and> ti_id (ts ! n) = i"
  by (induction ts) (auto split: sum.splits)

lemma by_ti_id_update:
  "n < length ts \<Longrightarrow> distinct (map ti_id ts) \<Longrightarrow> ti_id t = ti_id (ts ! n) \<Longrightarrow>
     by_ti_id (ts[n := t]) = (by_ti_id ts)(ti_id t \<mapsto> t)"
proof (induction ts arbitrary: n)
  case (Cons x ts)
  show ?case
  proof (cases n)
    case 0
    with Cons.prems show ?thesis by (simp add: fun_eq_iff)
  next
    case (Suc k)
    then have "ti_id t \<in> ti_id ` set ts" using Cons.prems by auto
    with Cons.prems have "ti_id t \<noteq> ti_id x" by auto
    with Suc Cons show ?thesis by (auto simp: fun_eq_iff)
  qed
qed simp

lemma ids_update: "n < length ts \<Longrightarrow> ti_id t = ti_id (ts ! n) \<Longrightarrow> map ti_id (ts[n := t]) = map ti_id ts"
  by (simp add: map_update list_update_same_conv)

lemma json_change_law:
  assumes "file_holds c f m" and same: "\<And>t. ti_id (g t) = ti_id t"
  shows "\<exists>f'. json_change c g i f = (found_ticket i (map_option g (m i)), f') \<and> file_holds c f' (change_at i g m)"
proof -
  obtain ts where ts: "faithful c" "load_tickets c f = Inr ts" "distinct (map ti_id ts)" "m = by_ti_id ts"
    using assms(1) by (auto simp: file_holds_def)
  show ?thesis
  proof (cases "index_of ts i")
    case (Inl e)
    with index_of_by_ti_id [where ts = ts and i = i] have "e = TicketNotFound i" "m i = None" by (simp_all add: ts(4))
    with Inl ts(2) assms(1) show ?thesis by (simp add: json_change_def change_at_def fun_upd_idem)
  next
    case (Inr n)
    with index_of_by_ti_id [where ts = ts and i = i] have n: "n < length ts" "m i = Some (ts ! n)" "ti_id (ts ! n) = i"
      by (simp_all add: ts(4))
    let ?ts = "ts[n := g (ts ! n)]"
    have "file_holds c (write_tickets c ?ts) (change_at i g m)"
      unfolding file_holds_def
      using ts n same by (intro conjI exI [of _ ?ts]) (simp_all add: load_written ids_update by_ti_id_update change_at_def)
    with Inr n ts(2) show ?thesis by (simp add: json_change_def Let_def)
  qed
qed

interpretation json_file: ticket_store "json_store c" "file_holds c" for c
proof
  fix f m i t s q and now :: "nat \<Rightarrow> time" and author body
  assume h: "file_holds c f m"
  then obtain ts where ts: "load_tickets c f = Inr ts" "distinct (map ti_id ts)" "m = by_ti_id ts"
    by (auto simp: file_holds_def)
  show "ti_id t = i" if "m i = Some t" using that by_ti_id_mem by (simp add: ts(3))
  show "op_get (json_store c) i f = found_ticket i (m i)"
    using index_of_by_ti_id [where ts = ts and i = i] ts by (auto simp: json_store_def json_get_def split: sum.splits)
  show "\<exists>f'. op_update_status (json_store c) now i s f = (found_ticket i (map_option (with_status now s) (m i)), f')
      \<and> file_holds c f' (change_at i (with_status now s) m)"
    using json_change_law [OF h, of "with_status now s" i]
    by (simp add: json_store_def json_update_status_def with_status_def)
  show "\<exists>f'. op_add_comment (json_store c) now i author body f
        = (found_ticket i (map_option (with_comment now author body) (m i)), f')
      \<and> file_holds c f' (change_at i (with_comment now author body) m)"
    using json_change_law [OF h, of "with_comment now author body" i]
    by (simp add: json_store_def json_add_comment_def with_comment_def Let_def)
  let ?all = "sort_key (\<lambda>t. - ti_created_at t) ts"
  have d: "distinct (map ti_id ?all)" using ts(2) by (simp add: distinct_map)
  have "listing q m (case q of None \<Rightarrow> ?all | Some x \<Rightarrow> filter (\<lambda>t. ti_status t = x) ?all)"
    using d by (cases q)
      (auto simp: listing_def wanted_def ts(3) ran_by_ti_id [OF ts(2)] distinct_map_filter
        intro: sorted_filter)
  then have "\<exists>xs. json_list c q f = Inr xs \<and> listing q m xs" by (simp add: json_list_def ts(1) Let_def)
  then show "\<exists>xs. op_list (json_store c) q f = Inr xs \<and> listing q m xs" by (simp add: json_store_def)
qed

text \<open>
  C34. Over a file that holds tickets of different ids, every call of a session with the tracker server is
  answered as from a map of tickets by id, an unknown id with a tool error, and the file left at the end
  holds the same tickets, each changed by exactly the calls that named it, in their order.
\<close>

theorem tracker_session_exact:
  assumes "faithful c" and "load_tickets c f = Inr ts" and "distinct (map ti_id ts)"
    and "tracker_session (json_store c) now 0 xs f = (rs, f')"
  shows "all_answer (by_ti_id ts) now 0 xs rs
    \<and> (\<exists>ts'. load_tickets c f' = Inr ts' \<and> distinct (map ti_id ts')
         \<and> by_ti_id ts' = (\<lambda>i. map_option (history now 0 xs) (by_ti_id ts i)))"
proof -
  have "file_holds c f (by_ti_id ts)" using assms(1-3) by (auto simp: file_holds_def)
  from json_file.session_answers [OF this assms(4)] show ?thesis by (auto simp: file_holds_def)
qed

text \<open>The starter tickets, with documents and timestamps written as their places in an enumeration.\<close>

instance json :: countable
  by countable_datatype

definition counting_codec :: codec where
  "counting_codec =
     \<lparr>co_dumps = (\<lambda>v. replicate (to_nat v) CHR ''x''), co_loads = (\<lambda>s. Some (from_nat (length s))),
      co_stamp = (\<lambda>t. replicate (to_nat t) CHR ''x''),
      co_unstamp = (\<lambda>v. map_option (\<lambda>s. from_nat (length s)) (str_in v))\<rparr>"

lemma counting_faithful: "faithful counting_codec"
  by (simp add: faithful_def counting_codec_def Let_def)

lemma distinct_seed: "distinct (map ti_id SEED_TICKETS)"
  by (simp add: SEED_TICKETS_def seed_ticket_def)

theorem tracker_session_exact_witness:
  "\<exists>rs f'. tracker_session (json_store counting_codec) (\<lambda>n j. int n) 0
       [Update_ticket_status ''ACS-101'' STATUS_ESCALATED, Get_ticket ''ACS-999''] (resolve_store counting_codec None) = (rs, f')
     \<and> rs ! 1 = Tool_error ''no such ticket: ACS-999'' \<and> json_get counting_codec ''ACS-101'' f'
         = Inr ((SEED_TICKETS ! 0)\<lparr>ti_status := STATUS_ESCALATED, ti_updated_at := 0\<rparr>)"
proof -
  let ?xs = "[Update_ticket_status ''ACS-101'' STATUS_ESCALATED, Get_ticket ''ACS-999'']"
  obtain rs f' where s: "tracker_session (json_store counting_codec) (\<lambda>n j. int n) 0 ?xs (resolve_store counting_codec None) = (rs, f')"
    by fastforce
  have l: "load_tickets counting_codec (resolve_store counting_codec None) = Inr SEED_TICKETS"
    by (simp add: resolve_store_def write_seed_def load_written [OF counting_faithful])
  from tracker_session_exact [OF counting_faithful l distinct_seed s] obtain ts' where
    a: "all_answer (by_ti_id SEED_TICKETS) (\<lambda>n j. int n) 0 ?xs rs" and
    f: "load_tickets counting_codec f' = Inr ts'" "distinct (map ti_id ts')"
      "by_ti_id ts' = (\<lambda>i. map_option (history (\<lambda>n j. int n) 0 ?xs) (by_ti_id SEED_TICKETS i))"
    by blast
  have "rs ! 1 = Tool_error ''no such ticket: ACS-999''"
    using a by (auto simp: SEED_TICKETS_def seed_ticket_def by_ti_id_def)
  moreover have "file_holds counting_codec f' (by_ti_id ts')"
    using f counting_faithful by (auto simp: file_holds_def)
  from json_file.get_law [OF this, of "''ACS-101''"] have "json_get counting_codec ''ACS-101'' f' = found_ticket ''ACS-101'' (by_ti_id ts' ''ACS-101'')"
    by (simp add: json_store_def)
  then have "json_get counting_codec ''ACS-101'' f'
      = Inr ((SEED_TICKETS ! 0)\<lparr>ti_status := STATUS_ESCALATED, ti_updated_at := 0\<rparr>)"
    unfolding f(3) by (simp add: SEED_TICKETS_def seed_ticket_def by_ti_id_def with_status_def)
  ultimately show ?thesis using s by blast
qed

end
