(* ===== verification/Bench_Replay.thy ===== *)
theory Bench_Replay
  imports Agent_Loop
begin

text \<open>
  Recording a model's answers and replaying them, \<^verbatim>\<open>bench/replay.py\<close>: the provider that records
  (\<open>record_complete\<close>, over any inner provider), the provider that replays (\<open>replay_complete\<close>,
  \<open>expect\<close>, \<open>check_consumed\<close>), and what a recording holds. The clock is the sequence \<open>clock k\<close> of
  its readings; \<open>sha\<close> stands for SHA-256 over canonical JSON; the texts \<^verbatim>\<open>repr\<close> and \<^verbatim>\<open>str\<close> write are
  parameters. Sleeping only passes time, and files are not modelled.

  The lemmas lead to the theorem the harness rests on: an agent whose answers were recorded makes
  the same run again when they are replayed.
\<close>

section \<open>Recordings\<close>

record recorded_call =
  rc_index :: nat
  rc_prefix_sha256 :: "string option"
  rc_observation_head :: string
  rc_temperature :: rat
  rc_max_tokens :: int
  rc_content :: string
  rc_prompt_tokens :: int
  rc_completion_tokens :: int
  rc_latency_seconds :: rat
  rc_retry_wait_seconds :: rat
  rc_served_model :: "string option"
  rc_fingerprint :: "string option"

record recorded_error =
  re_observation_head :: string
  re_message :: string

record recording =
  rg_task_id :: string
  rg_taskset_version :: string
  rg_provider :: string
  rg_model :: string
  rg_recorded_at :: string
  rg_git_sha :: string
  rg_outcome :: string
  rg_calls :: "recorded_call list"
  rg_error :: "recorded_error option"

fun role_value :: "role \<Rightarrow> string" where
  "role_value SYSTEM = ''system''"
| "role_value USER = ''user''"
| "role_value ASSISTANT = ''assistant''"

definition prefix_sha256 :: "(json \<Rightarrow> string) \<Rightarrow> chat_message list \<Rightarrow> string" where
  "prefix_sha256 sha messages =
     sha (JList (map (\<lambda>(who, what). JObj [(''role'', JStr (role_value who)), (''content'', JStr what)])
       (take 2 messages)))"

definition observation_head :: "chat_message list \<Rightarrow> string" where
  "observation_head messages =
     (if length messages \<le> 2 then [] else take 200 (takeWhile (\<lambda>c. c \<noteq> newline) (snd (last messages))))"

text \<open>
  \<^verbatim>\<open>without_account\<close>: every \<^verbatim>\<open>org_\<close> at a word's start with six or more letters and digits behind it is
  redacted; \<open>inside\<close> says the character before was part of a word.
\<close>

definition is_word :: "char \<Rightarrow> bool" where
  "is_word c \<longleftrightarrow> is_alnum c \<or> c = CHR ''_'' \<or> 128 \<le> code c"

definition account_at :: "string \<Rightarrow> bool" where
  "account_at s \<longleftrightarrow> startswith s ''org_'' \<and> 6 \<le> length (takeWhile is_alnum (drop 4 s))"

function redact :: "bool \<Rightarrow> string \<Rightarrow> string" where
  "redact inside s =
     (if s = [] then []
      else if \<not> inside \<and> account_at s
      then ''org_[redacted]'' @ redact True (dropWhile is_alnum (drop 4 s))
      else hd s # redact (is_word (hd s)) (tl s))"
  by pat_completeness auto
termination
proof (relation "measure (length o snd)", simp, goal_cases)
  case (1 inside s)
  then show ?case
    using length_dropWhile_le [of is_alnum "drop 4 s"] by (cases s) (auto simp: less_Suc_eq_le)
qed auto

declare redact.simps [simp del]

definition without_account :: "string \<Rightarrow> string" where
  "without_account s = redact False s"

section \<open>Recording\<close>

text \<open>A provider's exception: its type's name and its text.\<close>

type_synonym provider_exn = "string \<times> string"

record 'w inner_provider =
  ip_name :: string
  ip_model :: string
  ip_complete :: "chat_message list \<Rightarrow> rat \<Rightarrow> int \<Rightarrow> 'w \<Rightarrow> (provider_exn + completion) \<times> 'w"
  ip_retry_delay :: "provider_exn \<Rightarrow> rat option"
  ip_max_attempts :: nat
  ip_clock :: "nat \<Rightarrow> rat"
  ip_sha :: "json \<Rightarrow> string"

record 'w recorder =
  rd_calls :: "recorded_call list"
  rd_gave_up :: "provider_exn option"
  rd_error :: "recorded_error option"
  rd_ticks :: nat
  rd_inner :: 'w

definition new_recorder :: "'w \<Rightarrow> 'w recorder" where
  "new_recorder w = \<lparr>rd_calls = [], rd_gave_up = None, rd_error = None, rd_ticks = 0, rd_inner = w\<rparr>"

definition ticked :: "'w recorder \<Rightarrow> 'w recorder" where
  "ticked r = r\<lparr>rd_ticks := Suc (rd_ticks r)\<rparr>"

definition give_up :: "provider_exn \<Rightarrow> chat_message list \<Rightarrow> 'w recorder \<Rightarrow> 'w recorder" where
  "give_up e messages r =
     r\<lparr>rd_gave_up := Some e,
       rd_error := Some \<lparr>re_observation_head = observation_head messages,
                         re_message = without_account (fst e @ '': '' @ snd e)\<rparr>\<rparr>"

definition recorded ::
  "'w inner_provider \<Rightarrow> rat \<Rightarrow> rat \<Rightarrow> rat \<Rightarrow> chat_message list \<Rightarrow> rat \<Rightarrow> int \<Rightarrow> completion \<Rightarrow> recorded_call list
   \<Rightarrow> recorded_call" where
  "recorded p first started now messages temperature max_tokens c calls =
     \<lparr>rc_index = length calls,
      rc_prefix_sha256 = (if calls \<noteq> [] then None else Some (prefix_sha256 (ip_sha p) messages)),
      rc_observation_head = observation_head messages, rc_temperature = temperature,
      rc_max_tokens = max_tokens, rc_content = cp_content c, rc_prompt_tokens = cp_prompt_tokens c,
      rc_completion_tokens = cp_completion_tokens c, rc_latency_seconds = now - started,
      rc_retry_wait_seconds = started - first, rc_served_model = cp_model c,
      rc_fingerprint = cp_fingerprint c\<rparr>"

text \<open>
  The attempts of one call, with as many left as the first argument: a failure is tried again after the delay
  the provider's error asks for, unless there is none or this was the last attempt.
\<close>

fun record_attempts ::
  "nat \<Rightarrow> 'w inner_provider \<Rightarrow> rat \<Rightarrow> chat_message list \<Rightarrow> rat \<Rightarrow> int \<Rightarrow> 'w recorder
   \<Rightarrow> (provider_exn + completion) \<times> 'w recorder" where
  "record_attempts 0 p first messages temperature max_tokens r =
     (Inl (''AssertionError'', ''the retry loop always returns or raises''), r)"
| "record_attempts (Suc n) p first messages temperature max_tokens r =
     (let started = ip_clock p (rd_ticks r); r = ticked r
      in case ip_complete p messages temperature max_tokens (rd_inner r) of
           (Inl e, w) \<Rightarrow>
             (let r = r\<lparr>rd_inner := w\<rparr>
              in if ip_retry_delay p e = None \<or> n = 0 then (Inl e, give_up e messages r)
                 else record_attempts n p first messages temperature max_tokens r)
         | (Inr c, w) \<Rightarrow>
             (let now = ip_clock p (rd_ticks r); r = ticked (r\<lparr>rd_inner := w\<rparr>)
              in (Inr c, r\<lparr>rd_calls := rd_calls r @
                    [recorded p first started now messages temperature max_tokens c (rd_calls r)]\<rparr>)))"

definition record_complete ::
  "'w inner_provider \<Rightarrow> chat_message list \<Rightarrow> rat \<Rightarrow> int \<Rightarrow> 'w recorder \<Rightarrow> (provider_exn + completion) \<times> 'w recorder" where
  "record_complete p messages temperature max_tokens r =
     record_attempts (ip_max_attempts p) p (ip_clock p (rd_ticks r)) messages temperature max_tokens (ticked r)"

definition build_recording ::
  "'w inner_provider \<Rightarrow> 'w recorder \<Rightarrow> string \<Rightarrow> string \<Rightarrow> string \<Rightarrow> string \<Rightarrow> string \<Rightarrow> recording" where
  "build_recording p r task_id taskset_version outcome git_sha recorded_at =
     \<lparr>rg_task_id = task_id, rg_taskset_version = taskset_version, rg_provider = ip_name p,
      rg_model = ip_model p, rg_recorded_at = recorded_at, rg_git_sha = git_sha, rg_outcome = outcome,
      rg_calls = rd_calls r, rg_error = rd_error r\<rparr>"

section \<open>Replaying\<close>

datatype latency_profile = ZERO | RECORDED

record replay =
  rp_cursor :: nat
  rp_divergence :: "string option"
  rp_waited :: rat

definition new_replay :: replay where
  "new_replay = \<lparr>rp_cursor = 0, rp_divergence = None, rp_waited = 0\<rparr>"

text \<open>What the messages of a divergence are written with.\<close>

record replay_texts =
  rt_sha :: "json \<Rightarrow> string"
  rt_repr :: "string \<Rightarrow> string"
  rt_float :: "rat \<Rightarrow> string"

datatype expected = Call recorded_call | RecordedProviderError string | ReplayDivergenceError string

definition diverge :: "string \<Rightarrow> replay \<Rightarrow> expected \<times> replay" where
  "diverge reason r = (ReplayDivergenceError reason, r\<lparr>rp_divergence := Some reason\<rparr>)"

definition advance :: "replay \<Rightarrow> replay" where
  "advance r = r\<lparr>rp_cursor := Suc (rp_cursor r)\<rparr>"

definition expect_error ::
  "replay_texts \<Rightarrow> recorded_error \<Rightarrow> chat_message list \<Rightarrow> replay \<Rightarrow> expected \<times> replay" where
  "expect_error t e messages r =
     (let head = observation_head messages
      in if head \<noteq> re_observation_head e
         then diverge (''call '' @ show_nat (rp_cursor r) @ '' answers '' @ rt_repr t head
                @ '' but the recorded failure answered '' @ rt_repr t (re_observation_head e)) r
         else (RecordedProviderError (re_message e), advance r))"

definition expect_call ::
  "replay_texts \<Rightarrow> recorded_call \<Rightarrow> chat_message list \<Rightarrow> rat \<Rightarrow> int \<Rightarrow> replay \<Rightarrow> expected \<times> replay" where
  "expect_call t c messages temperature max_tokens r =
     (let head = observation_head messages
      in if (temperature, max_tokens) \<noteq> (rc_temperature c, rc_max_tokens c)
         then diverge (''call '' @ show_nat (rp_cursor r) @ '' used temperature='' @ rt_float t temperature
                @ '' max_tokens='' @ show_int max_tokens @ '', recorded temperature=''
                @ rt_float t (rc_temperature c) @ '' max_tokens='' @ show_int (rc_max_tokens c)) r
         else if rc_prefix_sha256 c \<noteq> None \<and> rc_prefix_sha256 c \<noteq> Some (prefix_sha256 (rt_sha t) messages)
         then diverge ''the system prompt or task message changed since the recording'' r
         else if head \<noteq> rc_observation_head c
         then diverge (''call '' @ show_nat (rp_cursor r) @ '' answers '' @ rt_repr t head
                @ '' but the recording answered '' @ rt_repr t (rc_observation_head c)) r
         else (Call c, advance r))"

definition expect ::
  "replay_texts \<Rightarrow> recording \<Rightarrow> chat_message list \<Rightarrow> rat \<Rightarrow> int \<Rightarrow> replay \<Rightarrow> expected \<times> replay" where
  "expect t rg messages temperature max_tokens r =
     (let calls = rg_calls rg; index = rp_cursor r
      in case (if index = length calls then rg_error rg else None) of
           Some e \<Rightarrow> expect_error t e messages r
         | None \<Rightarrow>
             if length calls \<le> index
             then diverge (''call '' @ show_nat index @ '' was requested but only '' @ show_nat (length calls)
                    @ '' were recorded'') r
             else expect_call t (calls ! index) messages temperature max_tokens r)"

definition replay_complete ::
  "replay_texts \<Rightarrow> latency_profile \<Rightarrow> recording \<Rightarrow> chat_message list \<Rightarrow> rat \<Rightarrow> int \<Rightarrow> replay
   \<Rightarrow> (provider_exn + completion) \<times> replay" where
  "replay_complete t profile rg messages temperature max_tokens r =
     (case expect t rg messages temperature max_tokens r of
        (Call c, r') \<Rightarrow>
          (Inr \<lparr>cp_content = rc_content c, cp_prompt_tokens = rc_prompt_tokens c,
                cp_completion_tokens = rc_completion_tokens c, cp_model = rc_served_model c,
                cp_fingerprint = rc_fingerprint c\<rparr>,
           if profile = RECORDED then r'\<lparr>rp_waited := rp_waited r' + rc_latency_seconds c\<rparr> else r')
      | (RecordedProviderError e, r') \<Rightarrow> (Inl (''RecordedProviderError'', e), r')
      | (ReplayDivergenceError e, r') \<Rightarrow> (Inl (''ReplayDivergenceError'', e), r'))"

definition answered :: "recording \<Rightarrow> replay \<Rightarrow> recorded_call list" where
  "answered rg r = take (min (rp_cursor r) (length (rg_calls rg))) (rg_calls rg)"

definition check_consumed :: "recording \<Rightarrow> replay \<Rightarrow> replay" where
  "check_consumed rg r =
     (let total = length (rg_calls rg) + (if rg_error rg \<noteq> None then 1 else 0)
      in if rp_divergence r = None \<and> rp_cursor r < total
         then r\<lparr>rp_divergence := Some (''the run stopped after '' @ show_nat (rp_cursor r) @ '' of ''
                  @ show_nat total @ '' recorded calls'')\<rparr>
         else r)"

section \<open>A replayed run is the run that was recorded\<close>

text \<open>An agent's surroundings with a provider of its own beside the sandbox.\<close>

definition with_provider ::
  "(chat_message list \<Rightarrow> rat \<Rightarrow> int \<Rightarrow> 'p \<Rightarrow> (provider_exn + completion) \<times> 'p) \<Rightarrow> 's outside \<Rightarrow> ('p \<times> 's) outside" where
  "with_provider f base =
     \<lparr>llm_complete = (\<lambda>messages temperature max_tokens (p, s).
        (case f messages temperature max_tokens p of
           (Inl e, p') \<Rightarrow> (Inl (snd e), (p', s)) | (Inr c, p') \<Rightarrow> (Inr c, (p', s)))),
      sandbox_execute = (\<lambda>call (p, s). case sandbox_execute base call s of (x, s') \<Rightarrow> (x, (p, s'))),
      out_loads = out_loads base, out_rep = out_rep base\<rparr>"

lemma with_provider_sel [simp]:
  "out_loads (with_provider f base) = out_loads base"
  "out_rep (with_provider f base) = out_rep base"
  "sandbox_execute (with_provider f base) call (p, s) =
     (case sandbox_execute base call s of (x, s') \<Rightarrow> (x, (p, s')))"
  "llm_complete (with_provider f base) m t k (p, s) =
     (case f m t k p of (Inl e, p') \<Rightarrow> (Inl (snd e), (p', s)) | (Inr c, p') \<Rightarrow> (Inr c, (p', s)))"
  by (simp_all add: with_provider_def)

lemma respond_with_provider:
  "respond (with_provider f base) config i c st (p, s) =
     (case respond base config i c st s of (nx, st', s') \<Rightarrow> (nx, st', (p, s')))"
proof (cases "parse_tool_call (out_loads base) (out_rep base) (cp_content c)")
  case (ParsedStep thought call)
  obtain x s' where x: "sandbox_execute base call s = (x, s')" by fastforce
  then have "execute_call (with_provider f base) call (p, s) =
      (case execute_call base call s of (r, s') \<Rightarrow> (r, (p, s')))"
    by (simp add: execute_call_def split: sum.splits)
  then show ?thesis using ParsedStep
    by (simp add: respond_def act_turn_def Let_def split: prod.splits)
qed (simp_all add: respond_def Let_def split: prod.splits)

lemma respond_no_provider_error: "respond env config i c st w = (Ended PROVIDER_ERROR a b, st', w') \<Longrightarrow> False"
  by (auto simp: respond_def turn_defs Let_def split: parsed.splits if_splits prod.splits)

lemma iteration_with_provider:
  "iteration (with_provider f base) config i st (p, s) =
     (case f (ls_messages st) (ac_temperature config) (ac_max_tokens config) p of
        (Inl e, p') \<Rightarrow>
          (Ended PROVIDER_ERROR [] [], record_step (error_step i (''provider error: '' @ snd e)) st, (p', s))
      | (Inr c, p') \<Rightarrow> (case respond base config i c st s of (nx, st', s') \<Rightarrow> (nx, st', (p', s'))))"
  by (simp add: iteration_def respond_with_provider split: prod.splits sum.splits)

text \<open>The call a recorder adds is the one a replay at its place accepts, with the same answer.\<close>

definition answers ::
  "(json \<Rightarrow> string) \<Rightarrow> chat_message list \<Rightarrow> rat \<Rightarrow> int \<Rightarrow> completion \<Rightarrow> recorded_call \<Rightarrow> bool" where
  "answers sha messages temperature max_tokens c k \<longleftrightarrow>
     rc_observation_head k = observation_head messages
     \<and> rc_temperature k = temperature \<and> rc_max_tokens k = max_tokens
     \<and> rc_prefix_sha256 k \<in> {None, Some (prefix_sha256 sha messages)}
     \<and> c = \<lparr>cp_content = rc_content k, cp_prompt_tokens = rc_prompt_tokens k,
            cp_completion_tokens = rc_completion_tokens k, cp_model = rc_served_model k,
            cp_fingerprint = rc_fingerprint k\<rparr>"

lemma recorded_answers:
  "answers (ip_sha p) messages temperature max_tokens c
     (recorded p first started now messages temperature max_tokens c calls)"
  by (cases c) (simp add: answers_def recorded_def)

lemma record_attempts_success:
  "record_attempts n p first m t x r = (Inr c, r') \<Longrightarrow>
     \<exists>k. rd_calls r' = rd_calls r @ [k] \<and> rd_error r' = rd_error r \<and> answers (ip_sha p) m t x c k"
proof (induction n arbitrary: r)
  case (Suc n)
  obtain y w where y: "ip_complete p m t x (rd_inner r) = (y, w)" by fastforce
  show ?case
  proof (cases y)
    case (Inl e)
    let ?r = "(ticked r)\<lparr>rd_inner := w\<rparr>"
    have "record_attempts n p first m t x ?r = (Inr c, r')"
      using Suc.prems by (auto simp: y Inl Let_def ticked_def split: if_splits)
    from Suc.IH [OF this] show ?thesis by (simp add: ticked_def)
  next
    case (Inr d)
    then show ?thesis using Suc.prems
      by (auto simp: y Let_def ticked_def intro: recorded_answers)
  qed
qed simp

lemma record_complete_success:
  "record_complete p m t x r = (Inr c, r') \<Longrightarrow>
     \<exists>k. rd_calls r' = rd_calls r @ [k] \<and> rd_error r' = rd_error r \<and> answers (ip_sha p) m t x c k"
  unfolding record_complete_def by (drule record_attempts_success) (simp add: ticked_def)

lemma replay_accepts:
  assumes "answers (rt_sha t) m temp x c (rg_calls rg ! rp_cursor q)" and "rp_cursor q < length (rg_calls rg)"
  shows "\<exists>q'. replay_complete t profile rg m temp x q = (Inr c, q')
    \<and> rp_cursor q' = Suc (rp_cursor q) \<and> rp_divergence q' = rp_divergence q"
  using assms
  by (auto simp: replay_complete_def expect_def expect_call_def Let_def answers_def advance_def)

lemma agent_loop_stop:
  "iteration env config i st w = (e, st', w') \<Longrightarrow> e \<noteq> Going \<Longrightarrow>
     agent_loop env config (Suc n) i st w = (e, st', w')"
  by (cases e) auto

lemma loops_in_step:
  assumes "agent_loop (with_provider (record_complete p) base) config n i st (r, s) = (nx, st', (r', s'))"
    and "\<And>a b. nx \<noteq> Ended PROVIDER_ERROR a b" and "rt_sha t = ip_sha p"
  shows "rd_error r' = rd_error r \<and>
    (\<exists>new. rd_calls r' = rd_calls r @ new \<and>
      (\<forall>rg q. take (length (rd_calls r')) (rg_calls rg) = rd_calls r' \<longrightarrow> rp_cursor q = length (rd_calls r) \<longrightarrow>
        (\<exists>q'. agent_loop (with_provider (replay_complete t profile rg) base) config n i st (q, s) = (nx, st', (q', s'))
           \<and> rp_cursor q' = length (rd_calls r') \<and> rp_divergence q' = rp_divergence q)))"
  using assms
proof (induction n arbitrary: i st r s)
  case (Suc n)
  obtain y r1 where y: "record_complete p (ls_messages st) (ac_temperature config) (ac_max_tokens config) r = (y, r1)"
    by fastforce
  with Suc.prems obtain c where c: "y = Inr c"
    by (cases y) (auto simp: iteration_with_provider)
  obtain k where k: "rd_calls r1 = rd_calls r @ [k]" "rd_error r1 = rd_error r"
      "answers (ip_sha p) (ls_messages st) (ac_temperature config) (ac_max_tokens config) c k"
    using record_complete_success [OF y [unfolded c]] by blast
  obtain e1 st1 s1 where resp: "respond base config i c st s = (e1, st1, s1)" by (metis prod.exhaust)
  have step: "iteration (with_provider (record_complete p) base) config i st (r, s) = (e1, st1, (r1, s1))"
    by (simp add: iteration_with_provider y c resp)
  have replay_step: "\<exists>q1. iteration (with_provider (replay_complete t profile rg) base) config i st (q, s) = (e1, st1, (q1, s1))
      \<and> rp_cursor q1 = length (rd_calls r1) \<and> rp_divergence q1 = rp_divergence q"
    if h1: "take (length (rd_calls r1)) (rg_calls rg) = rd_calls r1" and h2: "rp_cursor q = length (rd_calls r)" for rg q
  proof -
    have len: "length (rd_calls r) < length (rg_calls rg)"
      using arg_cong [OF h1, of length] k(1) by simp
    have "rg_calls rg ! length (rd_calls r) = k"
      using h1 k(1) by (metis length_append_singleton lessI nth_append_length nth_take)
    then obtain q1 where "replay_complete t profile rg (ls_messages st) (ac_temperature config) (ac_max_tokens config) q = (Inr c, q1)"
        "rp_cursor q1 = Suc (rp_cursor q)" "rp_divergence q1 = rp_divergence q"
      using replay_accepts [of t "ls_messages st" "ac_temperature config" "ac_max_tokens config" c rg q profile]
        k(3) len h2 assms(3) by auto
    then show ?thesis using h2 k(1) by (simp add: iteration_with_provider resp)
  qed
  show ?case
  proof (cases "e1 = Going")
    case True
    then have "agent_loop (with_provider (record_complete p) base) config n (Suc i) st1 (r1, s1) = (nx, st', (r', s'))"
      using Suc.prems(1) by (simp add: step)
    from Suc.IH [OF this Suc.prems(2,3)] obtain new where
      e: "rd_error r' = rd_error r1" and new: "rd_calls r' = rd_calls r1 @ new"
      and later: "\<And>rg q. take (length (rd_calls r')) (rg_calls rg) = rd_calls r' \<Longrightarrow> rp_cursor q = length (rd_calls r1) \<Longrightarrow>
        \<exists>q'. agent_loop (with_provider (replay_complete t profile rg) base) config n (Suc i) st1 (q, s1) = (nx, st', (q', s'))
           \<and> rp_cursor q' = length (rd_calls r') \<and> rp_divergence q' = rp_divergence q"
      by metis
    show ?thesis
    proof (intro conjI exI [of _ "k # new"] allI impI)
      fix rg :: recording and q :: replay
      assume all: "take (length (rd_calls r')) (rg_calls rg) = rd_calls r'" and q: "rp_cursor q = length (rd_calls r)"
      have "take (length (rd_calls r1)) (rg_calls rg) = rd_calls r1"
        using arg_cong [OF all, of "take (length (rd_calls r1))"] new by (simp add: min_def)
      from replay_step [OF this q] obtain q1 where
        "iteration (with_provider (replay_complete t profile rg) base) config i st (q, s) = (e1, st1, (q1, s1))"
        "rp_cursor q1 = length (rd_calls r1)" "rp_divergence q1 = rp_divergence q" by blast
      then show "\<exists>q'. agent_loop (with_provider (replay_complete t profile rg) base) config (Suc n) i st (q, s) = (nx, st', (q', s'))
           \<and> rp_cursor q' = length (rd_calls r') \<and> rp_divergence q' = rp_divergence q"
        using later [OF all, of q1] True by simp
    qed (use e new k in simp_all)
  next
    case False
    from agent_loop_stop [OF step False] Suc.prems(1)
    have same: "nx = e1" "st' = st1" "r' = r1" "s' = s1" by simp_all
    show ?thesis
    proof (intro conjI exI [of _ "[k]"] allI impI)
      fix rg :: recording and q :: replay
      assume "take (length (rd_calls r')) (rg_calls rg) = rd_calls r'" and "rp_cursor q = length (rd_calls r)"
      then obtain q1 where q1: "rp_cursor q1 = length (rd_calls r1)" "rp_divergence q1 = rp_divergence q"
        "iteration (with_provider (replay_complete t profile rg) base) config i st (q, s) = (e1, st1, (q1, s1))"
        using replay_step [of rg q] same by auto
      then show "\<exists>q'. agent_loop (with_provider (replay_complete t profile rg) base) config (Suc n) i st (q, s) = (nx, st', (q', s'))
           \<and> rp_cursor q' = length (rd_calls r') \<and> rp_divergence q' = rp_divergence q"
        using agent_loop_stop [OF q1(3) False] same by blast
    qed (use k same in simp_all)
  qed
qed (auto intro: exI [of _ "[]"])

lemma initial_with_provider:
  "initial_messages (with_provider f base) config task (p, s) =
     (case initial_messages base config task s of (x, s') \<Rightarrow> (x, (p, s')))"
  by (simp add: initial_messages_def Let_def split: prod.splits sum.splits)

lemma replayed_run:
  assumes "run_agent (with_provider (record_complete p) base) config task (new_recorder w, s) = (Inr run, (r, s'))"
    and "ar_reason run \<noteq> PROVIDER_ERROR" and "rt_sha t = ip_sha p"
    and "rg = build_recording p r task_id taskset_version outcome git_sha recorded_at"
  shows "\<exists>q. run_agent (with_provider (replay_complete t profile rg) base) config task (new_replay, s) = (Inr run, (q, s'))
    \<and> check_consumed rg q = q \<and> rp_divergence q = None \<and> answered rg q = rg_calls rg"
proof -
  obtain m s1 where m: "initial_messages base config task s = (Inr m, s1)"
    using assms(1) by (auto simp: run_agent_def initial_with_provider split: prod.splits sum.splits)
  obtain nx st r1 s2 where l: "agent_loop (with_provider (record_complete p) base) config
      (nat (ac_max_iterations config)) 0 (start_state m) (new_recorder w, s1) = (nx, st, (r1, s2))"
    by (metis prod.exhaust)
  then obtain reason answer why where nx: "nx = Ended reason answer why" and rs: "r1 = r" "s2 = s'" "ar_reason run = reason"
    using assms(1) by (cases nx) (auto simp: run_agent_def initial_with_provider m)
  have "nx \<noteq> Ended PROVIDER_ERROR a b" for a b using nx rs(3) assms(2) by auto
  from loops_in_step [OF l this assms(3)] have
    e: "rd_error r = None" and
    ex: "take (length (rd_calls r)) (rg_calls rg) = rd_calls r \<Longrightarrow> rp_cursor new_replay = 0 \<Longrightarrow>
      \<exists>q'. agent_loop (with_provider (replay_complete t profile rg) base) config
          (nat (ac_max_iterations config)) 0 (start_state m) (new_replay, s1) = (nx, st, (q', s'))
         \<and> rp_cursor q' = length (rd_calls r) \<and> rp_divergence q' = rp_divergence new_replay"
    by (auto simp: rs new_recorder_def)
  have c: "rg_calls rg = rd_calls r" "rg_error rg = None" by (simp_all add: assms(4) build_recording_def e)
  with ex obtain q where q: "agent_loop (with_provider (replay_complete t profile rg) base) config
      (nat (ac_max_iterations config)) 0 (start_state m) (new_replay, s1) = (nx, st, (q, s'))"
    "rp_cursor q = length (rd_calls r)" "rp_divergence q = None"
    by (auto simp: new_replay_def)
  have "run_agent (with_provider (replay_complete t profile rg) base) config task (new_replay, s) = (Inr run, (q, s'))"
    using assms(1) by (simp add: run_agent_def initial_with_provider m l q(1) nx rs)
  then show ?thesis using q c by (auto simp: check_consumed_def answered_def)
qed

text \<open>
  A run whose answers were recorded happens again, step for step and with the same effects on its
  sandbox, when the recording is replayed: no call diverges and none is left unused.
\<close>

theorem replay_reproduces_run:
  assumes "run_agent (with_provider (record_complete p) base) config task (new_recorder w, s) = (Inr run, (r, s'))"
    and "ar_reason run \<noteq> PROVIDER_ERROR" and "rt_sha t = ip_sha p"
    and "rg = build_recording p r task_id taskset_version outcome git_sha recorded_at"
  shows "\<exists>q. run_agent (with_provider (replay_complete t profile rg) base) config task (new_replay, s) = (Inr run, (q, s'))
    \<and> check_consumed rg q = q \<and> rp_divergence q = None \<and> answered rg q = rg_calls rg"
  using assms by (rule replayed_run)

definition demo_inner :: "string list \<Rightarrow> nat inner_provider" where
  "demo_inner replies =
     \<lparr>ip_name = ''mock'', ip_model = ''mock-model'',
      ip_complete = (\<lambda>m t k n. case llm_complete (demo_outside replies) m t k n of
        (Inl e, n') \<Rightarrow> (Inl (''IndexError'', e), n') | (Inr c, n') \<Rightarrow> (Inr c, n')),
      ip_retry_delay = (\<lambda>_. None), ip_max_attempts = 8, ip_clock = (\<lambda>_. 0), ip_sha = (\<lambda>_. ''h'')\<rparr>"

definition demo_recorded :: "(string + agent_run) \<times> nat recorder \<times> nat" where
  "demo_recorded =
     run_agent (with_provider (record_complete (demo_inner [''{t}'', ''{f}''])) (demo_outside [])) demo_agent
       ''add a test'' (new_recorder 0, 0)"

lemma demo_recorded_run:
  "map_sum id ar_reason (fst demo_recorded) = Inr FINISHED"
  "map rc_content (rd_calls (fst (snd demo_recorded))) = [''{t}'', ''{f}'']"
  by code_simp+

theorem replay_reproduces_run_witness:
  "\<exists>run q s'. fst demo_recorded = Inr run
     \<and> run_agent (with_provider (replay_complete \<lparr>rt_sha = (\<lambda>_. ''h''), rt_repr = id, rt_float = (\<lambda>_. [])\<rparr> RECORDED
           (build_recording (demo_inner [''{t}'', ''{f}'']) (fst (snd demo_recorded)) ''T'' ''v1'' ''solved'' ''abc'' ''now''))
         (demo_outside [])) demo_agent ''add a test'' (new_replay, 0) = (Inr run, (q, s'))
     \<and> rp_divergence q = None"
proof -
  obtain x r s' where x: "demo_recorded = (x, (r, s'))" by (metis prod.exhaust)
  have "map_sum id ar_reason x = Inr FINISHED" using demo_recorded_run(1) by (simp only: x fst_conv)
  then obtain run where run: "x = Inr run" "ar_reason run = FINISHED" by (cases x) auto
  have sha: "rt_sha \<lparr>rt_sha = (\<lambda>_. ''h''), rt_repr = id, rt_float = (\<lambda>_. [])\<rparr> = ip_sha (demo_inner [''{t}'', ''{f}''])"
    by (simp add: demo_inner_def)
  have no_error: "ar_reason run \<noteq> PROVIDER_ERROR" using run(2) by simp
  note again = replay_reproduces_run [OF x [unfolded demo_recorded_def run(1)] no_error sha refl,
      where profile = RECORDED and task_id = "''T''" and taskset_version = "''v1''" and outcome = "''solved''"
        and git_sha = "''abc''" and recorded_at = "''now''"]
  have "fst demo_recorded = Inr run" "fst (snd demo_recorded) = r" by (simp_all add: x run(1))
  then show ?thesis using again by metis
qed

end
