(* ===== verification/Bench_Metrics.thy ===== *)
theory Bench_Metrics
  imports Json
begin

text \<open>
  What a benchmark trial measures: the result of a job (\<^verbatim>\<open>bench/jobs.py\<close>), the metrics of a batch of
  them (\<^verbatim>\<open>bench/metrics.py\<close>) and the cost of tokens at a pinned price (\<^verbatim>\<open>bench/prices.py\<close>). Floating-point
  numbers are exact rationals. \<open>percentile\<close> is for percentages from 0 to 100 and a bucket's width is
  positive, as their callers give them; reading the price list is not modelled.

  The lemmas bound the percentiles and order them, show that the buckets of a utilization timeline share out
  the busy time exactly, and bound the utilization when every worker runs one job after another.
\<close>

section \<open>Jobs\<close>

datatype job_outcome = SOLVED | OUT_ESCALATED | OUT_FAILED

datatype failure_kind = KIND_TASK | KIND_INFRA | KIND_HARNESS

record job_output =
  jo_answer :: string
  jo_escalation_reason :: string
  jo_files_changed :: "string list"
  jo_diff :: string
  jo_tests :: "(string \<times> json) list"
  jo_tools :: "(string \<times> int) list"
  jo_model_seconds :: seconds

record attempt_run =
  at_attempt :: int
  at_worker :: string
  at_claimed_at :: seconds
  at_ended_at :: "seconds option"
  at_ended_by :: "string option"
  at_error :: "string option"

record bench_result =
  jr_job_id :: string
  jr_task_id :: string
  jr_repeat :: int
  jr_kind :: string
  jr_expected :: string
  jr_worker :: string
  jr_attempts :: int
  jr_submitted_at :: seconds
  jr_claimed_at :: seconds
  jr_finished_at :: seconds
  jr_outcome :: job_outcome
  jr_failure_mode :: "string option"
  jr_failure_kind :: "failure_kind option"
  jr_matched_expectation :: bool
  jr_termination_reason :: string
  jr_iterations :: int
  jr_llm_calls :: int
  jr_prompt_tokens :: int
  jr_completion_tokens :: int
  jr_retry_wait_seconds :: seconds
  jr_divergence :: "string option"
  jr_execution :: "(string \<times> json) list option"
  jr_served_models :: "string list"
  jr_fingerprints :: "string list"
  jr_cost_usd :: "rat option"
  jr_output :: "job_output option"
  jr_attempt_history :: "attempt_run list option"

definition queue_wait :: "bench_result \<Rightarrow> seconds" where
  "queue_wait r = jr_claimed_at r - jr_submitted_at r"

definition service_time :: "bench_result \<Rightarrow> seconds" where
  "service_time r = jr_finished_at r - jr_claimed_at r"

definition job_total_tokens :: "bench_result \<Rightarrow> int" where
  "job_total_tokens r = jr_prompt_tokens r + jr_completion_tokens r"

record price =
  pr_model :: string
  pr_provider :: string
  pr_currency :: string
  pr_input_per_million_tokens :: rat
  pr_output_per_million_tokens :: rat
  pr_source :: string
  pr_retrieved :: string
  pr_how :: string
  pr_note :: string

definition cost :: "price \<Rightarrow> int \<Rightarrow> int \<Rightarrow> rat" where
  "cost p prompt_tokens completion_tokens =
     (of_int prompt_tokens * pr_input_per_million_tokens p
      + of_int completion_tokens * pr_output_per_million_tokens p) / 1000000"

section \<open>Percentiles\<close>

definition percentile :: "rat list \<Rightarrow> rat \<Rightarrow> rat" where
  "percentile values pct =
     (if values = [] then 0
      else let ordered = sort values;
               rank = of_nat (length ordered - 1) * pct / 100;
               low = nat \<lfloor>rank\<rfloor>;
               high = min (low + 1) (length ordered - 1)
           in ordered ! low + (ordered ! high - ordered ! low) * (rank - of_nat low))"

record distribution =
  di_n :: nat
  di_mean :: rat
  di_p50 :: rat
  di_p95 :: rat
  di_p99 :: rat
  di_max :: rat

definition max_default :: "rat list \<Rightarrow> rat \<Rightarrow> rat" where
  "max_default xs d = (case xs of [] \<Rightarrow> d | x # rest \<Rightarrow> fold max rest x)"

definition min_default :: "rat list \<Rightarrow> rat \<Rightarrow> rat" where
  "min_default xs d = (case xs of [] \<Rightarrow> d | x # rest \<Rightarrow> fold min rest x)"

definition distribution_of :: "rat list \<Rightarrow> distribution" where
  "distribution_of values =
     \<lparr>di_n = length values,
      di_mean = (if values \<noteq> [] then sum_list values / of_nat (length values) else 0),
      di_p50 = percentile values 50, di_p95 = percentile values 95, di_p99 = percentile values 99,
      di_max = max_default values 0\<rparr>"

section \<open>Utilization\<close>

definition busy_within :: "seconds \<Rightarrow> seconds \<Rightarrow> bench_result \<Rightarrow> seconds" where
  "busy_within t0 t1 r = max 0 (min (jr_finished_at r) t1 - max (jr_claimed_at r) t0)"

definition busy_fraction :: "bench_result list \<Rightarrow> int \<Rightarrow> seconds \<Rightarrow> seconds \<Rightarrow> rat" where
  "busy_fraction results workers t0 t1 =
     (let capacity = of_int workers * (t1 - t0)
      in if capacity \<le> 0 then 0 else sum_list (map (busy_within t0 t1) results) / capacity)"

text \<open>\<^verbatim>\<open>round(x)\<close>, a tie going to the even number, and \<^verbatim>\<open>round(x, 4)\<close>.\<close>

definition half_even :: "rat \<Rightarrow> int" where
  "half_even x =
     (let n = \<lfloor>x\<rfloor>; rest = x - of_int n
      in if rest < 1 / 2 \<or> rest = 1 / 2 \<and> even n then n else n + 1)"

definition round4 :: "rat \<Rightarrow> rat" where
  "round4 x = of_int (half_even (x * 10000)) / 10000"

definition buckets :: "seconds \<Rightarrow> seconds \<Rightarrow> seconds \<Rightarrow> nat" where
  "buckets t0 t1 bucket_seconds = nat (max 1 \<lceil>(t1 - t0) / bucket_seconds\<rceil>)"

definition bucket_low :: "seconds \<Rightarrow> seconds \<Rightarrow> nat \<Rightarrow> seconds" where
  "bucket_low t0 bucket_seconds index = t0 + of_nat index * bucket_seconds"

definition bucket_high :: "seconds \<Rightarrow> seconds \<Rightarrow> seconds \<Rightarrow> nat \<Rightarrow> seconds" where
  "bucket_high t0 t1 bucket_seconds index = min (bucket_low t0 bucket_seconds index + bucket_seconds) t1"

definition utilization_timeline :: "bench_result list \<Rightarrow> int \<Rightarrow> seconds \<Rightarrow> seconds \<Rightarrow> seconds \<Rightarrow> rat list" where
  "utilization_timeline results workers t0 t1 bucket_seconds =
     map (\<lambda>i. round4 (busy_fraction results workers (bucket_low t0 bucket_seconds i) (bucket_high t0 t1 bucket_seconds i)))
       [0..<buckets t0 t1 bucket_seconds]"

section \<open>The metrics of a trial\<close>

record counts =
  cn_jobs :: nat
  cn_solved :: nat
  cn_escalated :: nat
  cn_failed_task :: nat
  cn_failed_infra :: nat
  cn_failed_harness :: nat
  cn_retries :: int
  cn_matched_expectation :: nat

definition failed_by :: "failure_kind \<Rightarrow> bench_result \<Rightarrow> bool" where
  "failed_by kind r \<longleftrightarrow> jr_outcome r = OUT_FAILED \<and> jr_failure_kind r = Some kind"

definition counts_of :: "bench_result list \<Rightarrow> counts" where
  "counts_of results =
     \<lparr>cn_jobs = length results,
      cn_solved = length (filter (\<lambda>r. jr_outcome r = SOLVED) results),
      cn_escalated = length (filter (\<lambda>r. jr_outcome r = OUT_ESCALATED) results),
      cn_failed_task = length (filter (failed_by KIND_TASK) results),
      cn_failed_infra = length (filter (failed_by KIND_INFRA) results),
      cn_failed_harness = length (filter (failed_by KIND_HARNESS) results),
      cn_retries = sum_list (map (\<lambda>r. jr_attempts r - 1) results),
      cn_matched_expectation = length (filter jr_matched_expectation results)\<rparr>"

definition cost_of :: "bench_result list \<Rightarrow> rat option" where
  "cost_of results =
     (let costs = map jr_cost_usd results
      in if costs = [] \<or> None \<in> set costs then None else Some (sum_list (map the costs)))"

record trial_metrics =
  me_batch_wall_clock_seconds :: seconds
  me_tasks_per_minute :: rat
  me_queue_wait_seconds :: distribution
  me_service_time_seconds :: distribution
  me_service_time_excluding_retry_waits_seconds :: distribution
  me_utilization :: rat
  me_utilization_bucket_seconds :: seconds
  me_utilization_timeline :: "rat list"
  me_counts :: counts
  me_tokens_per_task :: distribution
  me_prompt_tokens :: int
  me_completion_tokens :: int
  me_llm_calls :: int
  me_retry_wait_seconds :: seconds
  me_cost_usd :: "rat option"

definition batch_start :: "bench_result list \<Rightarrow> seconds" where
  "batch_start results = min_default (map jr_submitted_at results) 0"

definition batch_finish :: "bench_result list \<Rightarrow> seconds" where
  "batch_finish results = max_default (map jr_finished_at results) (batch_start results)"

definition compute_metrics :: "bench_result list \<Rightarrow> int \<Rightarrow> seconds \<Rightarrow> trial_metrics" where
  "compute_metrics results workers bucket_seconds =
     (let t0 = batch_start results; t1 = batch_finish results; wall = t1 - t0
      in \<lparr>me_batch_wall_clock_seconds = wall,
          me_tasks_per_minute = (if wall > 0 then of_nat (length results) / (wall / 60) else 0),
          me_queue_wait_seconds = distribution_of (map queue_wait results),
          me_service_time_seconds = distribution_of (map service_time results),
          me_service_time_excluding_retry_waits_seconds =
            distribution_of (map (\<lambda>r. service_time r - jr_retry_wait_seconds r) results),
          me_utilization = busy_fraction results workers t0 t1,
          me_utilization_bucket_seconds = bucket_seconds,
          me_utilization_timeline = utilization_timeline results workers t0 t1 bucket_seconds,
          me_counts = counts_of results,
          me_tokens_per_task = distribution_of (map (\<lambda>r. of_int (job_total_tokens r)) results),
          me_prompt_tokens = sum_list (map jr_prompt_tokens results),
          me_completion_tokens = sum_list (map jr_completion_tokens results),
          me_llm_calls = sum_list (map jr_llm_calls results),
          me_retry_wait_seconds = sum_list (map jr_retry_wait_seconds results),
          me_cost_usd = cost_of results\<rparr>)"

section \<open>What the percentiles say\<close>

definition interpolate :: "rat list \<Rightarrow> rat \<Rightarrow> rat" where
  "interpolate xs rank =
     (let low = nat \<lfloor>rank\<rfloor>; high = min (low + 1) (length xs - 1)
      in xs ! low + (xs ! high - xs ! low) * (rank - of_nat low))"

lemma percentile_interpolate:
  "values \<noteq> [] \<Longrightarrow> percentile values pct = interpolate (sort values) (of_nat (length values - 1) * pct / 100)"
  by (simp add: percentile_def interpolate_def Let_def)

lemma rank_parts:
  fixes r :: rat
  assumes "0 \<le> r"
  shows "of_nat (nat \<lfloor>r\<rfloor>) \<le> r" and "r < of_nat (nat \<lfloor>r\<rfloor>) + 1"
  using assms floor_correct [of r] by (simp_all add: of_nat_nat)

lemma interpolate_between:
  assumes "sorted xs" and "0 \<le> r" and "nat \<lfloor>r\<rfloor> < length xs"
  shows "xs ! nat \<lfloor>r\<rfloor> \<le> interpolate xs r"
    and "interpolate xs r \<le> xs ! min (nat \<lfloor>r\<rfloor> + 1) (length xs - 1)"
proof -
  let ?l = "nat \<lfloor>r\<rfloor>" and ?h = "min (nat \<lfloor>r\<rfloor> + 1) (length xs - 1)"
  have up: "xs ! ?l \<le> xs ! ?h" using assms(1,3) by (auto intro: sorted_nth_mono)
  have f: "0 \<le> r - of_nat ?l" "r - of_nat ?l \<le> 1" using rank_parts [OF assms(2)] by simp_all
  show "xs ! ?l \<le> interpolate xs r" using up f by (simp add: interpolate_def Let_def)
  have "(xs ! ?h - xs ! ?l) * (r - of_nat ?l) \<le> (xs ! ?h - xs ! ?l) * 1"
    using up f by (intro mult_left_mono) auto
  then show "interpolate xs r \<le> xs ! ?h" by (simp add: interpolate_def Let_def)
qed

lemma interpolate_mono:
  assumes "sorted xs" and "0 \<le> r" and "r \<le> s" and "s \<le> of_nat (length xs - 1)" and "xs \<noteq> []"
  shows "interpolate xs r \<le> interpolate xs s"
proof -
  let ?a = "nat \<lfloor>r\<rfloor>" and ?b = "nat \<lfloor>s\<rfloor>"
  have ab: "?a \<le> ?b" using assms(3) by (intro nat_mono floor_mono)
  have "of_nat ?b \<le> (of_nat (length xs - 1) :: rat)"
    using rank_parts(1) [of s] assms(2-4) by linarith
  then have b: "?b < length xs" using assms(5) by (cases xs) (simp_all add: less_Suc_eq_le)
  show ?thesis
  proof (cases "?a = ?b")
    case True
    have "xs ! ?b \<le> xs ! min (?b + 1) (length xs - 1)" using assms(1) b by (auto intro: sorted_nth_mono)
    then show ?thesis using True assms(3) by (auto simp: interpolate_def Let_def intro: mult_left_mono)
  next
    case False
    with ab b have "xs ! min (?a + 1) (length xs - 1) \<le> xs ! ?b" using assms(1) by (auto intro: sorted_nth_mono)
    moreover have "interpolate xs r \<le> xs ! min (?a + 1) (length xs - 1)"
      using interpolate_between(2) [of xs r] assms(1,2) ab b by simp
    moreover have "xs ! ?b \<le> interpolate xs s" using interpolate_between(1) [of xs s] assms b by simp
    ultimately show ?thesis by linarith
  qed
qed

lemma interpolate_at: "n < length xs \<Longrightarrow> interpolate xs (of_nat n) = xs ! n"
  by (simp add: interpolate_def)

lemma sort_eq_Nil: "sort xs = [] \<longleftrightarrow> xs = []"
  by (metis length_0_conv length_sort)

lemma percentile_mono:
  assumes "values \<noteq> []" and "0 \<le> p" and "p \<le> q" and "q \<le> 100"
  shows "percentile values p \<le> percentile values q"
proof -
  let ?n = "of_nat (length values - 1) :: rat"
  have "?n * p \<le> ?n * q" "?n * q \<le> ?n * 100" using assms by (simp_all add: mult_left_mono)
  then show ?thesis
    unfolding percentile_interpolate [OF assms(1)]
    using assms by (intro interpolate_mono) (simp_all add: divide_right_mono sort_eq_Nil)
qed

lemma sorted_ends:
  fixes xs :: "rat list"
  assumes "xs \<noteq> []"
  shows "sort xs ! 0 = Min (set xs)" and "sort xs ! (length xs - 1) = Max (set xs)"
proof -
  have l: "length (sort xs) = length xs" "set (sort xs) = set xs" by simp_all
  have in_s: "i < length xs \<Longrightarrow> sort xs ! i \<in> set xs" for i using l by (metis nth_mem)
  have ord: "\<exists>i < length xs. x = sort xs ! i" if "x \<in> set xs" for x
    using that l by (metis in_set_conv_nth)
  show "sort xs ! 0 = Min (set xs)"
    using assms in_s by (intro Min_eqI [symmetric]) (auto intro: sorted_nth_mono dest!: ord)
  show "sort xs ! (length xs - 1) = Max (set xs)"
    using assms in_s by (intro Max_eqI [symmetric]) (auto intro!: sorted_nth_mono dest!: ord)
qed

lemma percentile_ends:
  assumes "values \<noteq> []"
  shows "percentile values 0 = Min (set values)" and "percentile values 100 = Max (set values)"
  using assms interpolate_at [of 0 "sort values"] interpolate_at [of "length values - 1" "sort values"]
  by (simp_all add: percentile_interpolate sorted_ends sorted_ends(2) [unfolded One_nat_def])

lemma max_default_Max: "xs \<noteq> [] \<Longrightarrow> max_default xs d = Max (set xs)"
  by (cases xs) (simp_all add: max_default_def Max.set_eq_fold del: list.set(2))

lemma min_default_Min: "xs \<noteq> [] \<Longrightarrow> min_default xs d = Min (set xs)"
  by (cases xs) (simp_all add: min_default_def Min.set_eq_fold del: list.set(2))

lemma mean_between:
  fixes xs :: "rat list"
  assumes "xs \<noteq> []"
  shows "Min (set xs) \<le> sum_list xs / of_nat (length xs)" and "sum_list xs / of_nat (length xs) \<le> Max (set xs)"
proof -
  have lo: "of_nat (length ys) * m \<le> sum_list ys" if "\<forall>y\<in>set ys. m \<le> y" for m and ys :: "rat list"
    using that by (induction ys) (auto simp: algebra_simps intro: add_mono)
  have hi: "sum_list ys \<le> of_nat (length ys) * m" if "\<forall>y\<in>set ys. y \<le> m" for m and ys :: "rat list"
    using that by (induction ys) (auto simp: algebra_simps intro: add_mono)
  show "Min (set xs) \<le> sum_list xs / of_nat (length xs)" "sum_list xs / of_nat (length xs) \<le> Max (set xs)"
    using lo [of xs "Min (set xs)"] hi [of xs "Max (set xs)"] assms
    by (simp_all add: pos_le_divide_eq pos_divide_le_eq mult.commute)
qed

text \<open>
  The figures of a distribution of values are in order: no percentile or mean is below the least value or
  above the greatest, the median is at most the 95th percentile, that at most the 99th, and that at most
  the maximum; and they depend on the values only, not on the order the jobs came in.
\<close>

theorem distribution_ordered:
  assumes "values \<noteq> []"
  shows "let d = distribution_of values
    in Min (set values) \<le> di_p50 d \<and> di_p50 d \<le> di_p95 d \<and> di_p95 d \<le> di_p99 d \<and> di_p99 d \<le> di_max d
      \<and> Min (set values) \<le> di_mean d \<and> di_mean d \<le> di_max d \<and> di_max d = Max (set values)
      \<and> (mset ws = mset values \<longrightarrow> distribution_of ws = d)"
proof -
  have same: "distribution_of ws = distribution_of values" if m: "mset ws = mset values"
  proof -
    have "sort ws = sort values" using m by (metis sorted_list_of_multiset_mset)
    moreover have "ws \<noteq> []" using m assms by auto
    moreover have "set ws = set values" using m by (rule mset_eq_setD)
    moreover have "length ws = length values" using m by (rule mset_eq_length)
    moreover have "sum_list ws = sum_list values" using m by (metis sum_mset_sum_list)
    ultimately show ?thesis
      using assms by (simp add: distribution_of_def percentile_def Let_def max_default_Max)
  qed
  have "percentile values 0 \<le> percentile values 50" "percentile values 50 \<le> percentile values 95"
    "percentile values 95 \<le> percentile values 99" "percentile values 99 \<le> percentile values 100"
    using assms by (simp_all add: percentile_mono)
  then show ?thesis
    using assms same mean_between [OF assms]
    by (simp add: distribution_of_def percentile_ends max_default_Max Let_def)
qed

theorem distribution_ordered_witness:
  "di_p50 (distribution_of [3, 1, 2 :: rat]) = 2 \<and> di_p95 (distribution_of [3, 1, 2]) \<le> 3"
proof -
  have "di_p50 (distribution_of [3, 1, 2 :: rat]) = 2" by code_simp
  moreover have "di_p95 (distribution_of [3, 1, 2 :: rat]) \<le> 3"
    using distribution_ordered [of "[3, 1, 2 :: rat]" "[]"] by (simp add: Let_def)
  ultimately show ?thesis by blast
qed

section \<open>What the utilization says\<close>

lemma busy_within_nonneg [simp]: "0 \<le> busy_within t0 t1 r"
  by (simp add: busy_within_def)

lemma busy_within_empty: "t1 \<le> t0 \<Longrightarrow> busy_within t0 t1 r = 0"
  by (simp add: busy_within_def max_def min_def)

lemma busy_split: "t0 \<le> m \<Longrightarrow> m \<le> t1 \<Longrightarrow> busy_within t0 m r + busy_within m t1 r = busy_within t0 t1 r"
  by (auto simp: busy_within_def max_def min_def)

lemma buckets_sum:
  assumes "t0 \<le> t1" and "0 < w"
  shows "(\<Sum>i<k. busy_within (bucket_low t0 w i) (bucket_high t0 t1 w i) r) = busy_within t0 (min (bucket_low t0 w k) t1) r"
proof (induction k)
  case 0
  then show ?case using assms by (simp add: bucket_low_def busy_within_empty)
next
  case (Suc k)
  have next_low: "bucket_low t0 w k + w = bucket_low t0 w (Suc k)" by (simp add: bucket_low_def algebra_simps)
  have "0 \<le> of_nat k * w" using assms(2) by simp
  then have low: "t0 \<le> bucket_low t0 w k" unfolding bucket_low_def by linarith
  show ?case
  proof (cases "bucket_low t0 w k \<le> t1")
    case True
    then have "bucket_low t0 w k \<le> bucket_high t0 t1 w k" using assms(2) by (simp add: bucket_high_def)
    from busy_split [OF low this, of r] Suc True show ?thesis
      by (simp add: bucket_high_def next_low min_absorb1)
  next
    case False
    then have "busy_within (bucket_low t0 w k) (bucket_high t0 t1 w k) r = 0"
      by (simp add: bucket_high_def busy_within_empty)
    with Suc False assms(2) show ?thesis by (simp add: next_low [symmetric] min_def)
  qed
qed

lemma buckets_reach:
  assumes "0 < w"
  shows "t1 \<le> bucket_low t0 w (buckets t0 t1 w)"
    and "i < buckets t0 t1 w \<Longrightarrow> t0 < t1 \<Longrightarrow> bucket_low t0 w i < bucket_high t0 t1 w i"
proof -
  have n: "(of_nat (buckets t0 t1 w) :: rat) = of_int (max 1 \<lceil>(t1 - t0) / w\<rceil>)"
    by (simp add: buckets_def of_nat_nat)
  have "(t1 - t0) / w \<le> of_int (max 1 \<lceil>(t1 - t0) / w\<rceil>)" by (simp add: ceiling_le_iff [symmetric])
  then have "(t1 - t0) / w * w \<le> of_nat (buckets t0 t1 w) * w"
    unfolding n using assms by (intro mult_right_mono) auto
  then show "t1 \<le> bucket_low t0 w (buckets t0 t1 w)" using assms by (simp add: bucket_low_def)
  assume i: "i < buckets t0 t1 w" and t: "t0 < t1"
  have "of_nat i < (t1 - t0) / w"
  proof (cases "i = 0")
    case True
    then show ?thesis using assms t by simp
  next
    case False
    with i have "int i < \<lceil>(t1 - t0) / w\<rceil>" unfolding buckets_def by linarith
    then show ?thesis by (simp add: less_ceiling_iff)
  qed
  then have "of_nat i * w < t1 - t0" using assms by (simp add: pos_less_divide_eq)
  then show "bucket_low t0 w i < bucket_high t0 t1 w i" using assms by (simp add: bucket_high_def bucket_low_def)
qed

text \<open>Jobs a worker ran one after another, each finished before the next was claimed.\<close>

fun one_by_one :: "bench_result list \<Rightarrow> bool" where
  "one_by_one [] \<longleftrightarrow> True"
| "one_by_one (r # rs) \<longleftrightarrow> jr_claimed_at r \<le> jr_finished_at r
     \<and> list_all (\<lambda>x. jr_finished_at r \<le> jr_claimed_at x) rs \<and> one_by_one rs"

definition serial :: "bench_result list \<Rightarrow> string \<Rightarrow> bool" where
  "serial results w \<longleftrightarrow> one_by_one (sort_key jr_claimed_at (filter (\<lambda>r. jr_worker r = w) results))"

lemma one_by_one_fits: "one_by_one rs \<Longrightarrow> t0 \<le> t1 \<Longrightarrow> sum_list (map (busy_within t0 t1) rs) \<le> t1 - t0"
proof (induction rs arbitrary: t0)
  case (Cons r rs)
  define m where "m = min (max t0 (jr_finished_at r)) t1"
  have m: "t0 \<le> m" "m \<le> t1" using Cons.prems(2) by (simp_all add: m_def)
  have "busy_within t0 t1 x = busy_within m t1 x" if "x \<in> set rs" for x
  proof -
    have "jr_finished_at r \<le> jr_claimed_at x" using Cons.prems(1) that by (simp add: list_all_iff)
    then show ?thesis by (auto simp: busy_within_def m_def max_def min_def)
  qed
  then have "sum_list (map (busy_within t0 t1) rs) = sum_list (map (busy_within m t1) rs)"
    by (intro arg_cong [of _ _ sum_list] map_cong) auto
  also have "\<dots> \<le> t1 - m" using Cons.prems(1) m by (intro Cons.IH) simp_all
  moreover have "busy_within t0 t1 r \<le> m - t0"
    using Cons.prems by (auto simp: busy_within_def m_def max_def min_def)
  ultimately show ?case by simp
qed simp

lemma sum_by_worker:
  fixes f :: "bench_result \<Rightarrow> rat"
  assumes "finite W" and "jr_worker ` set rs \<subseteq> W"
  shows "sum_list (map f rs) = (\<Sum>w\<in>W. sum_list (map f (filter (\<lambda>r. jr_worker r = w) rs)))"
  using assms(2)
proof (induction rs)
  case (Cons r rs)
  have "(\<Sum>w\<in>W. sum_list (map f (filter (\<lambda>x. jr_worker x = w) (r # rs))))
      = (\<Sum>w\<in>W. (if w = jr_worker r then f r else 0) + sum_list (map f (filter (\<lambda>x. jr_worker x = w) rs)))"
    by (intro sum.cong) auto
  also have "\<dots> = f r + sum_list (map f rs)"
    using Cons assms(1) by (simp add: sum.distrib sum.delta')
  finally show ?case by simp
qed simp

lemma workers_fit:
  assumes "t0 \<le> t1" and "\<And>w. serial results w" and "int (card (jr_worker ` set results)) \<le> workers"
  shows "sum_list (map (busy_within t0 t1) results) \<le> of_int workers * (t1 - t0)"
proof -
  let ?W = "jr_worker ` set results"
  have one_worker: "sum_list (map (busy_within t0 t1) (filter (\<lambda>r. jr_worker r = w) results)) \<le> t1 - t0" for w
  proof -
    let ?rs = "filter (\<lambda>r. jr_worker r = w) results"
    have "mset (map (busy_within t0 t1) ?rs) = mset (map (busy_within t0 t1) (sort_key jr_claimed_at ?rs))" by simp
    then have "sum_list (map (busy_within t0 t1) ?rs) = sum_list (map (busy_within t0 t1) (sort_key jr_claimed_at ?rs))"
      by (metis sum_mset_sum_list)
    also have "\<dots> \<le> t1 - t0" using assms(1,2) by (intro one_by_one_fits) (simp_all add: serial_def)
    finally show ?thesis .
  qed
  have "sum_list (map (busy_within t0 t1) results)
      = (\<Sum>w\<in>?W. sum_list (map (busy_within t0 t1) (filter (\<lambda>r. jr_worker r = w) results)))"
    by (rule sum_by_worker) simp_all
  also have "\<dots> \<le> (\<Sum>w\<in>?W. t1 - t0)" by (intro sum_mono one_worker)
  also have "\<dots> = of_int (int (card ?W)) * (t1 - t0)" by simp
  also have "\<dots> \<le> of_int workers * (t1 - t0)"
    using assms(1,3) by (intro mult_right_mono) (simp_all only: of_int_le_iff diff_ge_0_iff_ge)
  finally show ?thesis .
qed

lemma busy_fraction_unit:
  assumes "\<And>w. serial results w" and "int (card (jr_worker ` set results)) \<le> workers"
  shows "0 \<le> busy_fraction results workers t0 t1" and "busy_fraction results workers t0 t1 \<le> 1"
proof -
  have nn: "0 \<le> sum_list (map (busy_within t0 t1) results)" by (intro sum_list_nonneg) auto
  then show "0 \<le> busy_fraction results workers t0 t1" by (simp add: busy_fraction_def Let_def)
  have "0 \<le> workers" using assms(2) by linarith
  then have "t0 \<le> t1" if "0 < of_int workers * (t1 - t0)" using that by (simp add: zero_less_mult_iff)
  then show "busy_fraction results workers t0 t1 \<le> 1"
    using workers_fit [OF _ assms] by (auto simp: busy_fraction_def Let_def pos_divide_le_eq)
qed

lemma round4_close: "\<bar>round4 x - x\<bar> \<le> 1 / 20000"
proof -
  define n where "n = \<lfloor>x * 10000\<rfloor>"
  have "of_int n \<le> x * 10000" "x * 10000 < of_int n + 1" using floor_correct [of "x * 10000"] by (simp_all add: n_def)
  then show ?thesis unfolding round4_def half_even_def Let_def n_def [symmetric] by (auto simp: field_simps abs_le_iff)
qed

lemma round4_unit:
  assumes "0 \<le> x" and "x \<le> 1"
  shows "0 \<le> round4 x" and "round4 x \<le> 1"
proof -
  define n where "n = \<lfloor>x * 10000\<rfloor>"
  have n: "of_int n \<le> x * 10000" "0 \<le> n" using assms by (simp_all add: n_def)
  then show "0 \<le> round4 x" by (simp add: round4_def half_even_def Let_def n_def [symmetric])
  have "of_int n \<le> (10000 :: rat)" using n(1) assms(2) by linarith
  then have "n \<le> 10000" by linarith
  then consider "n = 10000" | "n + 1 \<le> 10000" by linarith
  then show "round4 x \<le> 1"
  proof cases
    case 1
    with n(1) assms(2) have "x * 10000 - of_int n = 0" by simp
    with 1 show ?thesis by (simp add: round4_def half_even_def Let_def n_def [symmetric])
  next
    case 2
    then have "of_int n + 1 \<le> (10000 :: rat)" by linarith
    then show ?thesis by (auto simp: round4_def half_even_def Let_def n_def [symmetric])
  qed
qed

lemma widths_sum:
  assumes "t0 < t1" and "0 < w"
  shows "k \<le> buckets t0 t1 w \<Longrightarrow>
    (\<Sum>i<k. bucket_high t0 t1 w i - bucket_low t0 w i) = min (bucket_low t0 w k) t1 - t0"
proof (induction k)
  case 0
  then show ?case using assms(1) by (simp add: bucket_low_def)
next
  case (Suc k)
  then have "bucket_low t0 w k < bucket_high t0 t1 w k" using buckets_reach(2) assms by simp
  moreover have "bucket_low t0 w k + w = bucket_low t0 w (Suc k)" by (simp add: bucket_low_def algebra_simps)
  ultimately show ?case using Suc by (simp add: bucket_high_def)
qed

lemma timeline_sum:
  assumes "t0 < t1" and "0 < w" and "0 < workers"
  defines "n \<equiv> buckets t0 t1 w" and "width \<equiv> \<lambda>i. bucket_high t0 t1 w i - bucket_low t0 w i"
  shows "\<bar>(\<Sum>i<n. utilization_timeline results workers t0 t1 w ! i * width i)
      - busy_fraction results workers t0 t1 * (t1 - t0)\<bar> \<le> (t1 - t0) / 20000"
proof -
  let ?part = "\<lambda>i. busy_fraction results workers (bucket_low t0 w i) (bucket_high t0 t1 w i)"
  let ?busy = "\<lambda>a b. sum_list (map (busy_within a b) results)"
  have pos: "0 < width i" if "i < n" for i
    using buckets_reach(2) [OF assms(2)] assms(1) that by (simp add: n_def width_def)
  have part: "?part i * width i = ?busy (bucket_low t0 w i) (bucket_high t0 t1 w i) / of_int workers" if "i < n" for i
    using pos [OF that] assms(3) by (simp add: busy_fraction_def Let_def width_def mult_le_0_iff)
  have "(\<Sum>i<n. busy_within (bucket_low t0 w i) (bucket_high t0 t1 w i) r) = busy_within t0 t1 r" for r
    using buckets_sum [of t0 t1 w, where k = n and r = r] buckets_reach(1) [OF assms(2), of t1 t0] assms(1,2)
    by (simp add: n_def min_absorb2)
  then have "(\<Sum>i<n. ?busy (bucket_low t0 w i) (bucket_high t0 t1 w i)) = ?busy t0 t1"
    by (induction results) (simp_all add: sum.distrib)
  then have "(\<Sum>i<n. ?part i * width i) = ?busy t0 t1 / of_int workers"
    by (simp add: part sum_divide_distrib [symmetric])
  also have "\<dots> = busy_fraction results workers t0 t1 * (t1 - t0)"
    using assms(1,3) by (simp add: busy_fraction_def Let_def mult_le_0_iff)
  finally have exact: "(\<Sum>i<n. ?part i * width i) = busy_fraction results workers t0 t1 * (t1 - t0)" .
  have "\<bar>(\<Sum>i<n. round4 (?part i) * width i) - (\<Sum>i<n. ?part i * width i)\<bar>
      = \<bar>\<Sum>i<n. (round4 (?part i) - ?part i) * width i\<bar>"
    by (simp add: sum_subtractf left_diff_distrib)
  also have "\<dots> \<le> (\<Sum>i<n. \<bar>(round4 (?part i) - ?part i) * width i\<bar>)" by (rule sum_abs)
  also have "\<dots> \<le> (\<Sum>i<n. 1 / 20000 * width i)"
  proof (rule sum_mono)
    fix i assume "i \<in> {..<n}"
    then have "0 < width i" using pos by simp
    then show "\<bar>(round4 (?part i) - ?part i) * width i\<bar> \<le> 1 / 20000 * width i"
      unfolding abs_mult using round4_close by (intro mult_mono) auto
  qed
  also have "\<dots> = (t1 - t0) / 20000"
    using widths_sum [OF assms(1,2), of n] buckets_reach(1) [OF assms(2), of t1 t0]
    by (simp add: sum_divide_distrib [symmetric] n_def width_def min_absorb2)
  finally show ?thesis unfolding exact by (simp add: utilization_timeline_def n_def)
qed

lemma batch_span:
  assumes "\<And>r. r \<in> set results \<Longrightarrow> jr_submitted_at r \<le> jr_finished_at r"
  shows "batch_start results \<le> batch_finish results"
    and "results = [] \<Longrightarrow> batch_start results = batch_finish results"
proof -
  show "results = [] \<Longrightarrow> batch_start results = batch_finish results"
    by (simp add: batch_start_def batch_finish_def min_default_def max_default_def)
  show "batch_start results \<le> batch_finish results"
  proof (cases results)
    case Nil
    then show ?thesis by (simp add: batch_start_def batch_finish_def max_default_def)
  next
    case (Cons r rs)
    have "batch_start results \<le> jr_submitted_at r" "jr_finished_at r \<le> batch_finish results"
      using Cons by (simp_all add: batch_start_def batch_finish_def min_default_Min max_default_Max del: list.map(2))
    moreover have "jr_submitted_at r \<le> jr_finished_at r" using assms Cons by simp
    ultimately show ?thesis by linarith
  qed
qed

text \<open>
  When every job finished after it was submitted, no worker ran two jobs at once and no more workers than
  stated took part, the utilization of a trial and every entry of its timeline lie between 0 and 1, and the
  timeline accounts for the utilization: weighted by the widths of its buckets it adds up to the utilization
  times the wall clock, up to the rounding of the entries.
\<close>

theorem utilization_accounts:
  assumes "\<And>r. r \<in> set results \<Longrightarrow> jr_submitted_at r \<le> jr_finished_at r"
    and "\<And>w. serial results w" and "int (card (jr_worker ` set results)) \<le> workers" and "0 < bucket_seconds"
  shows "let m = compute_metrics results workers bucket_seconds;
      t0 = batch_start results; t1 = batch_finish results; line = me_utilization_timeline m
    in 0 \<le> me_utilization m \<and> me_utilization m \<le> 1 \<and> list_all (\<lambda>u. 0 \<le> u \<and> u \<le> 1) line
      \<and> \<bar>(\<Sum>i<length line. line ! i * (bucket_high t0 t1 bucket_seconds i - bucket_low t0 bucket_seconds i))
          - me_utilization m * me_batch_wall_clock_seconds m\<bar> \<le> me_batch_wall_clock_seconds m / 20000"
proof -
  let ?t0 = "batch_start results" and ?t1 = "batch_finish results"
  note span = batch_span [of results, OF assms(1)]
  have unit: "list_all (\<lambda>u. 0 \<le> u \<and> u \<le> 1) (utilization_timeline results workers ?t0 ?t1 bucket_seconds)"
    using busy_fraction_unit [OF assms(2,3)] round4_unit by (auto simp: list_all_iff utilization_timeline_def)
  have len: "length (utilization_timeline results workers ?t0 ?t1 bucket_seconds) = buckets ?t0 ?t1 bucket_seconds"
    by (simp add: utilization_timeline_def)
  have line: "\<bar>(\<Sum>i<buckets ?t0 ?t1 bucket_seconds. utilization_timeline results workers ?t0 ?t1 bucket_seconds ! i
        * (bucket_high ?t0 ?t1 bucket_seconds i - bucket_low ?t0 bucket_seconds i))
      - busy_fraction results workers ?t0 ?t1 * (?t1 - ?t0)\<bar> \<le> (?t1 - ?t0) / 20000"
  proof (cases "?t0 < ?t1")
    case True
    with span(2) have "results \<noteq> []" by auto
    then have "0 < card (jr_worker ` set results)" by (simp add: card_gt_0_iff)
    with assms(3) have "0 < workers" by linarith
    with timeline_sum [OF True assms(4)] show ?thesis by simp
  next
    case False
    with span(1) have same: "?t1 = ?t0" by simp
    then have "utilization_timeline results workers ?t0 ?t1 bucket_seconds = [0]"
      using assms(4) by (simp add: utilization_timeline_def buckets_def bucket_low_def bucket_high_def
        busy_fraction_def round4_def half_even_def Let_def)
    with same assms(4) show ?thesis by (simp add: buckets_def bucket_low_def bucket_high_def)
  qed
  show ?thesis
    using unit line busy_fraction_unit [OF assms(2,3)] by (simp add: compute_metrics_def Let_def len)
qed

definition demo_bench_job :: "string \<Rightarrow> rat \<Rightarrow> rat \<Rightarrow> bench_result" where
  "demo_bench_job w claimed finished =
     \<lparr>jr_job_id = ''j'', jr_task_id = ''t'', jr_repeat = 0, jr_kind = ''bench'', jr_expected = ''solve'', jr_worker = w,
      jr_attempts = 1, jr_submitted_at = 0, jr_claimed_at = claimed, jr_finished_at = finished, jr_outcome = SOLVED,
      jr_failure_mode = None, jr_failure_kind = None, jr_matched_expectation = True,
      jr_termination_reason = ''finished'', jr_iterations = 3, jr_llm_calls = 3, jr_prompt_tokens = 9,
      jr_completion_tokens = 3, jr_retry_wait_seconds = 0, jr_divergence = None, jr_execution = None,
      jr_served_models = [], jr_fingerprints = [], jr_cost_usd = None, jr_output = None, jr_attempt_history = None\<rparr>"

theorem utilization_accounts_witness:
  "me_utilization (compute_metrics [demo_bench_job ''a'' 0 2, demo_bench_job ''b'' 0 1, demo_bench_job ''a'' 2 4] 2 1) \<le> 1
   \<and> me_utilization_timeline (compute_metrics [demo_bench_job ''a'' 0 2, demo_bench_job ''b'' 0 1, demo_bench_job ''a'' 2 4] 2 1)
      = [1, 1 / 2, 1 / 2, 1 / 2]"
proof -
  let ?rs = "[demo_bench_job ''a'' 0 2, demo_bench_job ''b'' 0 1, demo_bench_job ''a'' 2 4]"
  have s: "serial ?rs w" for w
    by (cases "w = ''a''"; cases "w = ''b''") (simp_all add: serial_def demo_bench_job_def)
  have c: "int (card (jr_worker ` set ?rs)) \<le> 2" by (simp add: demo_bench_job_def card_insert_if)
  have f: "jr_submitted_at r \<le> jr_finished_at r" if "r \<in> set ?rs" for r using that by (auto simp: demo_bench_job_def)
  have "me_utilization (compute_metrics ?rs 2 1) \<le> 1"
    using utilization_accounts [of ?rs 2 1, OF f s c] by (simp add: Let_def)
  moreover have "me_utilization_timeline (compute_metrics ?rs 2 1) = [1, 1 / 2, 1 / 2, 1 / 2]" by code_simp
  ultimately show ?thesis by blast
qed

end
