(* ===== verification/Bench_Executor.thy ===== *)
theory Bench_Executor
  imports Agent_Tasks Bench_Replay Bench_Metrics
begin

text \<open>
  Running the jobs of a benchmark batch: its task set and the plan of its jobs (\<^verbatim>\<open>bench/taskset.py\<close>), one
  task from its files to its classified result (\<^verbatim>\<open>execute_task\<close>) and the executor that runs jobs one after
  another (\<^verbatim>\<open>bench/executor.py\<close>).

  A provider is a state with the operations of \<open>provider_ops\<close>; the code's tests of a provider's class are the
  three instances \<open>recording_ops\<close>, \<open>replay_ops\<close> and \<open>plain_ops\<close>. \<open>unified\<close> stands for the lines
  \<^verbatim>\<open>difflib.unified_diff\<close> makes of two texts, either of which may be missing, joined by line breaks; the
  shuffles of \<^verbatim>\<open>random.Random(seed)\<close> are the argument \<open>sample\<close>. The callbacks \<^verbatim>\<open>on_step\<close> and
  \<^verbatim>\<open>on_result\<close> are not modelled.
\<close>

section \<open>Tasks and jobs\<close>

datatype task_kind = BENCHMARK | TICKET

datatype expectation = EXPECT_SOLVE | EXPECT_ESCALATION | EXPECT_FAIL

fun kind_value :: "task_kind \<Rightarrow> string" where
  "kind_value BENCHMARK = ''benchmark''"
| "kind_value TICKET = ''ticket''"

fun expectation_value :: "expectation \<Rightarrow> string" where
  "expectation_value EXPECT_SOLVE = ''solve''"
| "expectation_value EXPECT_ESCALATION = ''escalate''"
| "expectation_value EXPECT_FAIL = ''fail''"

record bench_task =
  bt_id :: string
  bt_kind :: task_kind
  bt_category :: string
  bt_difficulty :: string
  bt_expected :: expectation
  bt_benchmark :: "task option"
  bt_ticket :: "ticket_case option"

definition payload_matches_kind :: "bench_task \<Rightarrow> bool" where
  "payload_matches_kind t \<longleftrightarrow>
     (bt_kind t = BENCHMARK \<longrightarrow> bt_benchmark t \<noteq> None \<and> bt_ticket t = None)
     \<and> (bt_kind t = TICKET \<longrightarrow> bt_ticket t \<noteq> None \<and> bt_benchmark t = None)"

record task_set =
  tx_version :: string
  tx_tasks :: "bench_task list"

text \<open>\<^verbatim>\<open>TaskSet.get\<close>; the left is the key of its \<^verbatim>\<open>KeyError\<close>.\<close>

definition get_task :: "task_set \<Rightarrow> string \<Rightarrow> string + bench_task" where
  "get_task ts i = (case find (\<lambda>t. bt_id t = i) (tx_tasks ts) of None \<Rightarrow> Inl i | Some t \<Rightarrow> Inr t)"

fun category_value :: "task_category \<Rightarrow> string" where
  "category_value ALGORITHMS = ''algorithms''"
| "category_value BUGFIX = ''bugfix''"
| "category_value REFACTOR = ''refactor''"
| "category_value DATA_STRUCTURES = ''data_structures''"
| "category_value STRING_MANIPULATION = ''string_manipulation''"

fun difficulty_value :: "task_difficulty \<Rightarrow> string" where
  "difficulty_value EASY = ''easy''"
| "difficulty_value MEDIUM = ''medium''"
| "difficulty_value HARD = ''hard''"

definition from_benchmark :: "task \<Rightarrow> expectation \<Rightarrow> bench_task" where
  "from_benchmark t expected =
     \<lparr>bt_id = tm_id (tk_metadata t), bt_kind = BENCHMARK, bt_category = category_value (tm_category (tk_metadata t)),
      bt_difficulty = difficulty_value (tm_difficulty (tk_metadata t)), bt_expected = expected,
      bt_benchmark = Some t, bt_ticket = None\<rparr>"

definition from_ticket :: "ticket_case \<Rightarrow> bench_task" where
  "from_ticket t =
     \<lparr>bt_id = tt_id t, bt_kind = TICKET, bt_category = tt_category t, bt_difficulty = ''n/a'',
      bt_expected = (if tt_expected_outcome t = EXPECT_ESCALATE then EXPECT_ESCALATION else EXPECT_SOLVE),
      bt_benchmark = None, bt_ticket = Some t\<rparr>"

record bench_job =
  bj_id :: string
  bj_task_id :: string
  bj_repeat :: nat

definition job_of :: "nat \<Rightarrow> string \<Rightarrow> bench_job" where
  "job_of repeat task_id =
     \<lparr>bj_id = task_id @ ''#'' @ show_nat repeat, bj_task_id = task_id, bj_repeat = repeat\<rparr>"

text \<open>
  The rounds of \<^verbatim>\<open>plan_jobs\<close>, with at most \<open>fuel\<close> of them: \<open>sample r ids\<close> is the shuffle of round \<open>r\<close>.
\<close>

fun plan_rounds :: "nat \<Rightarrow> (nat \<Rightarrow> string list \<Rightarrow> string list) \<Rightarrow> string list \<Rightarrow> nat \<Rightarrow> nat \<Rightarrow> bench_job list \<Rightarrow> bench_job list option" where
  "plan_rounds fuel sample task_ids number repeat jobs =
     (if number \<le> length jobs then Some (take number jobs)
      else case fuel of
        0 \<Rightarrow> None
      | Suc n \<Rightarrow> plan_rounds n sample task_ids number (Suc repeat) (jobs @ map (job_of repeat) (sample repeat task_ids)))"

declare plan_rounds.simps [simp del]

text \<open>The left is its \<^verbatim>\<open>ValueError\<close>; \<^verbatim>\<open>None\<close> is a loop that has not ended.\<close>

definition plan_jobs ::
  "nat \<Rightarrow> (nat \<Rightarrow> string list \<Rightarrow> string list) \<Rightarrow> task_set \<Rightarrow> int \<Rightarrow> (string + bench_job list) option" where
  "plan_jobs fuel sample ts number =
     (if number < 1 then Some (Inl ''a batch needs at least one job'')
      else map_option Inr (plan_rounds fuel sample (map bt_id (tx_tasks ts)) (nat number) 0 []))"

section \<open>Classifying a run\<close>

definition REPLAY_DIVERGENCE :: string where
  "REPLAY_DIVERGENCE = ''replay_divergence''"

definition INFRA_MODES :: "string list" where
  "INFRA_MODES = [failure_value F_PROVIDER_ERROR, failure_value F_SANDBOX_ERROR]"

definition benchmark_outcome :: "graded_task \<Rightarrow> job_outcome \<times> string option" where
  "benchmark_outcome r =
     (if ts_solved r then (SOLVED, None)
      else if escalated (ts_run r) then (OUT_ESCALATED, None)
      else (OUT_FAILED, Some (failure_value (case classify_failure r of None \<Rightarrow> F_WRONG_SOLUTION | Some m \<Rightarrow> m))))"

definition unresolved_mode :: "agent_run \<Rightarrow> string" where
  "unresolved_mode run =
     (if ar_reason run = PROVIDER_ERROR then failure_value F_PROVIDER_ERROR
      else if ar_reason run = MALFORMED_LIMIT then failure_value F_MALFORMED_TOOL_CALL
      else if any_sandbox_error (ar_steps run) then failure_value F_SANDBOX_ERROR
      else failure_value F_EXHAUSTED_ITERATIONS)"

definition ticket_outcome_of :: "ticket_resolution \<Rightarrow> job_outcome \<times> string option" where
  "ticket_outcome_of r =
     (case tn_outcome r of
        RESOLVED \<Rightarrow> (SOLVED, None)
      | WAS_ESCALATED \<Rightarrow> (OUT_ESCALATED, None)
      | FALSE_FIX \<Rightarrow> (OUT_FAILED, Some ''false_fix'')
      | UNRESOLVED \<Rightarrow> (OUT_FAILED, Some (unresolved_mode (tn_run r))))"

definition failure_kind_of :: "string \<Rightarrow> failure_kind" where
  "failure_kind_of mode =
     (if mode = REPLAY_DIVERGENCE then KIND_HARNESS
      else if mode \<in> set INFRA_MODES then KIND_INFRA else KIND_TASK)"

definition matched :: "bench_task \<Rightarrow> job_outcome \<Rightarrow> failure_kind option \<Rightarrow> bool \<Rightarrow> bool" where
  "matched t out kind ok =
     (case bt_expected t of
        EXPECT_SOLVE \<Rightarrow> out = SOLVED \<and> ok
      | EXPECT_ESCALATION \<Rightarrow> out = OUT_ESCALATED \<and> ok
      | EXPECT_FAIL \<Rightarrow> out = OUT_FAILED \<and> kind = Some KIND_TASK)"

definition llm_calls :: "agent_run \<Rightarrow> nat" where
  "llm_calls run =
     length (filter (\<lambda>s. as_raw_response s \<noteq> [] \<or> as_malformed s \<or> as_tool_call s \<noteq> None) (ar_steps run))"

section \<open>Providers\<close>

text \<open>\<open>po_divergence\<close> is \<^verbatim>\<open>_divergence\<close>, which has a replay check that it used its recording up.\<close>

record 'p provider_ops =
  po_complete :: "chat_message list \<Rightarrow> rat \<Rightarrow> int \<Rightarrow> 'p \<Rightarrow> (provider_exn + completion) \<times> 'p"
  po_divergence :: "'p \<Rightarrow> string option \<times> 'p"
  po_retry_wait :: "'p \<Rightarrow> rat"
  po_answered :: "'p \<Rightarrow> recorded_call list"
  po_model_seconds :: "'p \<Rightarrow> rat"

definition recording_ops :: "'w inner_provider \<Rightarrow> 'w recorder provider_ops" where
  "recording_ops p =
     \<lparr>po_complete = record_complete p, po_divergence = (\<lambda>r. (None, r)),
      po_retry_wait = (\<lambda>r. sum_list (map rc_retry_wait_seconds (rd_calls r))), po_answered = rd_calls,
      po_model_seconds = (\<lambda>r. sum_list (map rc_latency_seconds (rd_calls r)))\<rparr>"

definition replay_ops :: "replay_texts \<Rightarrow> latency_profile \<Rightarrow> recording \<Rightarrow> replay provider_ops" where
  "replay_ops t profile rg =
     \<lparr>po_complete = replay_complete t profile rg,
      po_divergence = (\<lambda>q. let q' = check_consumed rg q in (rp_divergence q', q')),
      po_retry_wait = (\<lambda>_. 0), po_answered = answered rg, po_model_seconds = rp_waited\<rparr>"

definition plain_ops :: "(chat_message list \<Rightarrow> rat \<Rightarrow> int \<Rightarrow> 'p \<Rightarrow> (provider_exn + completion) \<times> 'p) \<Rightarrow> 'p provider_ops" where
  "plain_ops f =
     \<lparr>po_complete = f, po_divergence = (\<lambda>p. (None, p)), po_retry_wait = (\<lambda>_. 0), po_answered = (\<lambda>_. []),
      po_model_seconds = (\<lambda>_. 0)\<rparr>"

text \<open>\<^verbatim>\<open>sorted({value for value in values if value})\<close>.\<close>

definition distinct_values :: "string option list \<Rightarrow> string list" where
  "distinct_values values = sort (remdups [v. Some v \<leftarrow> values, v \<noteq> []])"

section \<open>What a job leaves behind\<close>

definition ANSWER_CHARS :: nat where "ANSWER_CHARS = 1000"
definition DIFF_CHARS :: nat where "DIFF_CHARS = 6000"
definition TEST_OUTPUT_CHARS :: nat where "TEST_OUTPUT_CHARS = 1500"

text \<open>The characters of a text, each with the bytes of its UTF-8 encoding.\<close>

fun characters :: "string \<Rightarrow> string list" where
  "characters [] = []"
| "characters (c # s) =
     (case characters s of
        [] \<Rightarrow> [[c]]
      | w # ws \<Rightarrow> if 128 \<le> code (hd w) \<and> code (hd w) < 192 then (c # w) # ws else [c] # w # ws)"

definition cut_note :: "nat \<Rightarrow> string" where
  "cut_note n = CHR ''['' # ''cut: '' @ show_nat n @ '' characters in all]''"

definition cut_text :: "string \<Rightarrow> nat \<Rightarrow> string" where
  "cut_text s limit =
     (let cs = characters s
      in if length cs \<le> limit then s else concat (take limit cs) @ [newline] @ cut_note (length cs))"

definition tail_text :: "string \<Rightarrow> nat \<Rightarrow> string" where
  "tail_text s limit =
     (let cs = characters s
      in if length cs \<le> limit then s
         else cut_note (length cs) @ [newline] @ concat (drop (length cs - limit) cs))"

definition changed_paths :: "files \<Rightarrow> files \<Rightarrow> string list" where
  "changed_paths before after =
     sort (filter (\<lambda>p. dict_get before p \<noteq> dict_get after p) (remdups (dict_keys before @ dict_keys after)))"

definition changes :: "(string \<Rightarrow> string option \<Rightarrow> string option \<Rightarrow> string) \<Rightarrow> files \<Rightarrow> files \<Rightarrow> string list \<times> string" where
  "changes unified before after =
     (let changed = changed_paths before after
      in (changed, concat (map (\<lambda>p. unified p (dict_get before p) (dict_get after p) @ [newline]) changed)))"

definition round3 :: "rat \<Rightarrow> rat" where
  "round3 x = of_int (half_even (x * 1000)) / 1000"
section \<open>Executing one task\<close>

record ran =
  ra_run :: agent_run
  ra_outcome :: job_outcome
  ra_mode :: "string option"
  ra_correct :: bool
  ra_before :: files
  ra_after :: files
  ra_tests :: "(string \<times> json) list"

definition bool_json :: "bool option \<Rightarrow> json" where
  "bool_json b = (case b of None \<Rightarrow> JNull | Some x \<Rightarrow> JBool x)"

definition int_json :: "int option \<Rightarrow> json" where
  "int_json n = (case n of None \<Rightarrow> JNull | Some x \<Rightarrow> JInt x)"

definition ran_benchmark :: "task \<Rightarrow> graded_task \<Rightarrow> ran" where
  "ran_benchmark t r =
     (let ev = ts_evaluation r; om = benchmark_outcome r
      in \<lparr>ra_run = ts_run r, ra_outcome = fst om, ra_mode = snd om, ra_correct = True,
          ra_before = tk_workspace_files t, ra_after = ts_files r,
          ra_tests = [(''passed'', JBool (ev_solved ev)), (''exit_code'', int_json (ev_exit_code ev)),
            (''timed_out'', JBool (ev_timed_out ev)),
            (''output'', JStr (tail_text (ev_output ev) TEST_OUTPUT_CHARS))]\<rparr>)"

definition ran_ticket :: "ticket_case \<Rightarrow> ticket_resolution \<Rightarrow> ran" where
  "ran_ticket t r =
     (let hidden = tn_hidden_tests r; om = ticket_outcome_of r
      in \<lparr>ra_run = tn_run r, ra_outcome = fst om, ra_mode = snd om, ra_correct = correct r,
          ra_before = tt_workspace_files t, ra_after = tn_files r,
          ra_tests = [(''passed'', bool_json (map_option tr_ok hidden)),
            (''exit_code'', int_json (Option.bind hidden tr_exit_code)),
            (''timed_out'', bool_json (map_option tr_timed_out hidden)),
            (''output'', JStr (case hidden of None \<Rightarrow> [] | Some h \<Rightarrow> tail_text (tr_output h) TEST_OUTPUT_CHARS)),
            (''canaries_intact'', JBool (tn_canaries_intact r))]\<rparr>)"

text \<open>\<^verbatim>\<open>_execute\<close>, on a provider's state beside the sandbox's.\<close>

definition execute_in ::
  "'p provider_ops \<Rightarrow> 's outside \<Rightarrow> ('s \<Rightarrow> files) \<Rightarrow> (task_kind \<Rightarrow> agent_config) \<Rightarrow> bench_task \<Rightarrow> 'p \<times> 's
   \<Rightarrow> (string + ran) \<times> ('p \<times> 's)" where
  "execute_in ops base snap configs t w =
     (let env = with_provider (po_complete ops) base; config = configs (bt_kind t)
      in case bt_benchmark t of
           Some b \<Rightarrow>
             (case run_task env (snap \<circ> snd) config b w of
                (Inl e, w') \<Rightarrow> (Inl e, w') | (Inr r, w') \<Rightarrow> (Inr (ran_benchmark b r), w'))
         | None \<Rightarrow>
             (case bt_ticket t of
                None \<Rightarrow> (Inl ''the task has no payload to run'', w)
              | Some k \<Rightarrow>
                  (case resolve_ticket env (snap \<circ> snd) (Some config) k w of
                     (Inl e, w') \<Rightarrow> (Inl e, w') | (Inr r, w') \<Rightarrow> (Inr (ran_ticket k r), w'))))"

definition output_of ::
  "(string \<Rightarrow> string option \<Rightarrow> string option \<Rightarrow> string) \<Rightarrow> ran \<Rightarrow> rat \<Rightarrow> job_output" where
  "output_of unified x model_seconds =
     (let c = changes unified (ra_before x) (ra_after x)
      in \<lparr>jo_answer = cut_text (ar_final_answer (ra_run x)) ANSWER_CHARS,
          jo_escalation_reason = cut_text (ar_escalation_reason (ra_run x)) ANSWER_CHARS,
          jo_files_changed = fst c, jo_diff = cut_text (snd c) DIFF_CHARS, jo_tests = ra_tests x,
          jo_tools = map (\<lambda>(k, n). (k, int n)) (tool_counts (ra_run x)),
          jo_model_seconds = round3 model_seconds\<rparr>)"

record task_execution =
  te_outcome :: job_outcome
  te_failure_mode :: "string option"
  te_failure_kind :: "failure_kind option"
  te_matched_expectation :: bool
  te_termination_reason :: string
  te_iterations :: nat
  te_llm_calls :: nat
  te_prompt_tokens :: int
  te_completion_tokens :: int
  te_retry_wait_seconds :: rat
  te_divergence :: "string option"
  te_served_models :: "string list"
  te_fingerprints :: "string list"
  te_output :: "job_output option"

text \<open>What \<^verbatim>\<open>execute_task\<close> makes of a task that ran.\<close>

definition classified ::
  "'p provider_ops \<Rightarrow> (string \<Rightarrow> string option \<Rightarrow> string option \<Rightarrow> string) \<Rightarrow> bench_task \<Rightarrow> ran \<Rightarrow> string option \<Rightarrow> 'p
   \<Rightarrow> task_execution" where
  "classified ops unified t x divergence p =
     (let (out, mode) = (if divergence \<noteq> None then (OUT_FAILED, Some REPLAY_DIVERGENCE) else (ra_outcome x, ra_mode x));
          kind = map_option failure_kind_of mode; run = ra_run x
      in \<lparr>te_outcome = out, te_failure_mode = mode, te_failure_kind = kind,
          te_matched_expectation = matched t out kind (ra_correct x),
          te_termination_reason = reason_value (ar_reason run), te_iterations = iterations run,
          te_llm_calls = llm_calls run, te_prompt_tokens = ar_prompt_tokens run,
          te_completion_tokens = ar_completion_tokens run, te_retry_wait_seconds = po_retry_wait ops p,
          te_divergence = divergence,
          te_served_models = distinct_values (map rc_served_model (po_answered ops p)),
          te_fingerprints = distinct_values (map rc_fingerprint (po_answered ops p)),
          te_output = Some (output_of unified x (po_model_seconds ops p))\<rparr>)"

definition execute_task ::
  "'p provider_ops \<Rightarrow> 's outside \<Rightarrow> ('s \<Rightarrow> files) \<Rightarrow> (string \<Rightarrow> string option \<Rightarrow> string option \<Rightarrow> string)
   \<Rightarrow> (task_kind \<Rightarrow> agent_config) \<Rightarrow> bench_task \<Rightarrow> 'p \<times> 's \<Rightarrow> (string + task_execution) \<times> ('p \<times> 's)" where
  "execute_task ops base snap unified configs t w =
     (case execute_in ops base snap configs t w of
        (Inl e, w') \<Rightarrow> (Inl e, w')
      | (Inr x, (p, s)) \<Rightarrow>
          (case po_divergence ops p of
             (divergence, p') \<Rightarrow> (Inr (classified ops unified t x divergence p'), (p', s))))"

text \<open>The agent's configurations, and what an experiment adds to them.\<close>

fun AGENT_CONFIGS :: "task_kind \<Rightarrow> agent_config" where
  "AGENT_CONFIGS BENCHMARK = DEFAULT_AGENT\<lparr>ac_require_verified_finish := True\<rparr>"
| "AGENT_CONFIGS TICKET = DEFAULT_AGENT\<lparr>ac_allow_escalation := True, ac_require_verified_finish := True\<rparr>"

definition agent_configs :: "string list \<Rightarrow> task_kind \<Rightarrow> agent_config" where
  "agent_configs extra_rules kind = (AGENT_CONFIGS kind)\<lparr>ac_extra_rules := extra_rules\<rparr>"

definition job_result_of ::
  "bench_job \<Rightarrow> bench_task \<Rightarrow> task_execution \<Rightarrow> string \<Rightarrow> int \<Rightarrow> seconds \<Rightarrow> seconds \<Rightarrow> seconds
   \<Rightarrow> (string \<times> json) list option \<Rightarrow> attempt_run list option \<Rightarrow> bench_result" where
  "job_result_of j t x worker attempts submitted_at claimed_at finished_at where_ran history =
     \<lparr>jr_job_id = bj_id j, jr_task_id = bt_id t, jr_repeat = int (bj_repeat j), jr_kind = kind_value (bt_kind t),
      jr_expected = expectation_value (bt_expected t), jr_worker = worker, jr_attempts = attempts,
      jr_submitted_at = submitted_at, jr_claimed_at = claimed_at, jr_finished_at = finished_at,
      jr_outcome = te_outcome x, jr_failure_mode = te_failure_mode x, jr_failure_kind = te_failure_kind x,
      jr_matched_expectation = te_matched_expectation x, jr_termination_reason = te_termination_reason x,
      jr_iterations = int (te_iterations x), jr_llm_calls = int (te_llm_calls x),
      jr_prompt_tokens = te_prompt_tokens x, jr_completion_tokens = te_completion_tokens x,
      jr_retry_wait_seconds = te_retry_wait_seconds x, jr_divergence = te_divergence x, jr_execution = where_ran,
      jr_served_models = te_served_models x, jr_fingerprints = te_fingerprints x, jr_cost_usd = None,
      jr_output = te_output x, jr_attempt_history = history\<rparr>"

section \<open>The sequential executor\<close>

record batch_result =
  br_results :: "bench_result list"
  br_interrupted :: "string option"

text \<open>
  The jobs left, with \<open>made\<close> the results so far. \<open>provider_for\<close> gives a provider and its first state; \<open>clock k\<close> is
  the \<open>k\<close>-th reading of the clock, the first having been made when the batch began. A failing \<^verbatim>\<open>get\<close> or task
  ends the batch with an exception, the left of the sum.
\<close>

fun sequential_from ::
  "task_set \<Rightarrow> (bench_task \<Rightarrow> 'p provider_ops \<times> 'p) \<Rightarrow> 's outside \<Rightarrow> ('s \<Rightarrow> files)
   \<Rightarrow> (string \<Rightarrow> string option \<Rightarrow> string option \<Rightarrow> string) \<Rightarrow> (task_kind \<Rightarrow> agent_config)
   \<Rightarrow> ('p \<Rightarrow> string option) option \<Rightarrow> (nat \<Rightarrow> seconds) \<Rightarrow> nat \<Rightarrow> nat \<Rightarrow> bench_job list \<Rightarrow> bench_result list \<Rightarrow> 's
   \<Rightarrow> (string + batch_result) \<times> 's" where
  "sequential_from ts provider_for base snap unified configs stop clock k number [] made s =
     (Inr \<lparr>br_results = made, br_interrupted = None\<rparr>, s)"
| "sequential_from ts provider_for base snap unified configs stop clock k number (j # js) made s =
     (case get_task ts (bj_task_id j) of
        Inl e \<Rightarrow> (Inl e, s)
      | Inr t \<Rightarrow>
          (let (ops, p) = provider_for t; claimed = clock k - clock 0
           in case execute_task ops base snap unified configs t (p, s) of
                (Inl e, (_, s')) \<Rightarrow> (Inl e, s')
              | (Inr x, (p', s')) \<Rightarrow>
                  (let finished = clock (Suc k) - clock 0
                   in case (case stop of None \<Rightarrow> None | Some check \<Rightarrow> check p') of
                        Some reason \<Rightarrow>
                          (Inr \<lparr>br_results = made,
                             br_interrupted = Some (reason @ '' after '' @ show_nat (length made) @ '' of ''
                               @ show_nat number @ '' jobs'')\<rparr>, s')
                      | None \<Rightarrow>
                          sequential_from ts provider_for base snap unified configs stop clock (k + 2) number js
                            (made @ [job_result_of j t x ''w0'' 1 0 claimed finished None None]) s')))"

definition sequential_run ::
  "task_set \<Rightarrow> (bench_task \<Rightarrow> 'p provider_ops \<times> 'p) \<Rightarrow> 's outside \<Rightarrow> ('s \<Rightarrow> files)
   \<Rightarrow> (string \<Rightarrow> string option \<Rightarrow> string option \<Rightarrow> string) \<Rightarrow> (task_kind \<Rightarrow> agent_config)
   \<Rightarrow> ('p \<Rightarrow> string option) option \<Rightarrow> (nat \<Rightarrow> seconds) \<Rightarrow> bench_job list \<Rightarrow> 's \<Rightarrow> (string + batch_result) \<times> 's" where
  "sequential_run ts provider_for base snap unified configs stop clock jobs s =
     sequential_from ts provider_for base snap unified configs stop clock 1 (length jobs) jobs [] s"

section \<open>A replayed job has the result of the recorded one\<close>

lemma setup_with:
  "setup_workspace (with_provider f base) fs (p, s) = (case setup_workspace base fs s of (x, s') \<Rightarrow> (x, (p, s')))"
  by (induction fs arbitrary: s) (auto split: prod.splits sum.splits)

lemma run_hidden_with:
  "run_hidden (with_provider f base) fs (p, s) = (case run_hidden base fs s of (x, s') \<Rightarrow> (x, (p, s')))"
  by (simp add: run_hidden_def setup_with split: prod.splits sum.splits)

lemma grade_with: "grade (with_provider f base) t (p, s) = (case grade base t s of (x, s') \<Rightarrow> (x, (p, s')))"
  by (simp add: grade_def run_hidden_with split: prod.splits sum.splits)

lemma canaries_with:
  "canaries_intact (with_provider f base) ps (p, s) = (case canaries_intact base ps s of (x, s') \<Rightarrow> (x, (p, s')))"
  by (induction ps arbitrary: s) (auto split: prod.splits sum.splits)

lemma hidden_of_with:
  "hidden_of (with_provider f base) t run (p, s) = (case hidden_of base t run s of (x, s') \<Rightarrow> (x, (p, s')))"
  by (simp add: hidden_of_def run_hidden_with split: prod.splits sum.splits)

lemmas beside_provider = setup_with run_hidden_with grade_with canaries_with hidden_of_with

text \<open>A replay that has used its recording up.\<close>

definition used_up :: "recording \<Rightarrow> replay \<Rightarrow> bool" where
  "used_up rg q \<longleftrightarrow> check_consumed rg q = q \<and> rp_divergence q = None \<and> answered rg q = rg_calls rg"

lemma replayed_run_task:
  assumes "run_task (with_provider (record_complete p) base) (snap \<circ> snd) config b (new_recorder w, s) = (Inr g, (r, s'))"
    and "ar_reason (ts_run g) \<noteq> PROVIDER_ERROR" and "rt_sha t = ip_sha p"
    and "rg = build_recording p r task_id taskset_version out git_sha recorded_at"
  shows "\<exists>q. run_task (with_provider (replay_complete t profile rg) base) (snap \<circ> snd) config b (new_replay, s)
      = (Inr g, (q, s')) \<and> used_up rg q"
proof -
  from assms(1) obtain s1 run r2 s2 ev where
    w: "setup_workspace base (tk_workspace_files b) s = (Inr (), s1)" and
    a: "run_agent (with_provider (record_complete p) base) config (tm_description (tk_metadata b)) (new_recorder w, s1)
      = (Inr run, (r2, s2))" and
    g: "grade base b s2 = (Inr ev, s')" and same: "r2 = r" "ts_run g = run"
    by (auto simp: run_task_def beside_provider split: prod.splits sum.splits)
  from replayed_run [OF a [unfolded same(1)] _ assms(3,4)] assms(2) same(2) obtain q where
    "run_agent (with_provider (replay_complete t profile rg) base) config (tm_description (tk_metadata b)) (new_replay, s1)
      = (Inr run, (q, s2))" "used_up rg q"
    unfolding used_up_def by blast
  then show ?thesis using assms(1) w a g same by (auto simp: run_task_def beside_provider)
qed

lemma replayed_resolve_ticket:
  assumes "resolve_ticket (with_provider (record_complete p) base) (snap \<circ> snd) config k (new_recorder w, s) = (Inr g, (r, s'))"
    and "ar_reason (tn_run g) \<noteq> PROVIDER_ERROR" and "rt_sha t = ip_sha p"
    and "rg = build_recording p r task_id taskset_version out git_sha recorded_at"
  shows "\<exists>q. resolve_ticket (with_provider (replay_complete t profile rg) base) (snap \<circ> snd) config k (new_replay, s)
      = (Inr g, (q, s')) \<and> used_up rg q"
proof -
  define c where "c = (case config of None \<Rightarrow> TICKET_AGENT | Some x \<Rightarrow> x)"
  from assms(1) obtain s1 run r2 s2 safe s3 hidden where
    w: "setup_workspace base (tt_workspace_files k) s = (Inr (), s1)" and
    a: "run_agent (with_provider (record_complete p) base) c (tt_body k) (new_recorder w, s1) = (Inr run, (r2, s2))" and
    i: "canaries_intact base (tt_canary_files k) s2 = (Inr safe, s3)" and
    h: "hidden_of base k run s3 = (Inr hidden, s')" and same: "r2 = r" "tn_run g = run"
    by (auto simp: resolve_ticket_def beside_provider Let_def c_def [symmetric] split: prod.splits sum.splits)
  from replayed_run [OF a [unfolded same(1)] _ assms(3,4)] assms(2) same(2) obtain q where
    "run_agent (with_provider (replay_complete t profile rg) base) c (tt_body k) (new_replay, s1) = (Inr run, (q, s2))"
    "used_up rg q"
    unfolding used_up_def by blast
  then show ?thesis using assms(1) w a i h same
    by (auto simp: resolve_ticket_def beside_provider Let_def c_def [symmetric])
qed

lemma replayed_execute_in:
  assumes "execute_in (recording_ops p) base snap configs t (new_recorder w, s) = (Inr x, (r, s'))"
    and "ar_reason (ra_run x) \<noteq> PROVIDER_ERROR" and "rt_sha texts = ip_sha p"
    and "rg = build_recording p r task_id taskset_version out git_sha recorded_at"
  shows "\<exists>q. execute_in (replay_ops texts profile rg) base snap configs t (new_replay, s) = (Inr x, (q, s')) \<and> used_up rg q"
proof (cases "bt_benchmark t")
  case (Some b)
  with assms(1) obtain g where
    g: "run_task (with_provider (record_complete p) base) (snap \<circ> snd) (configs (bt_kind t)) b (new_recorder w, s) = (Inr g, (r, s'))"
    and x: "x = ran_benchmark b g"
    by (auto simp: execute_in_def recording_ops_def Let_def split: prod.splits sum.splits)
  have "ar_reason (ts_run g) \<noteq> PROVIDER_ERROR" using assms(2) by (simp add: x ran_benchmark_def Let_def)
  from replayed_run_task [OF g this assms(3,4), where profile = profile] obtain q where
    "run_task (with_provider (replay_complete texts profile rg) base) (snap \<circ> snd) (configs (bt_kind t)) b (new_replay, s)
      = (Inr g, (q, s'))" "used_up rg q" by blast
  then show ?thesis using Some by (simp add: execute_in_def replay_ops_def Let_def x)
next
  case None
  with assms(1) obtain k g where k: "bt_ticket t = Some k" and
    g: "resolve_ticket (with_provider (record_complete p) base) (snap \<circ> snd) (Some (configs (bt_kind t))) k (new_recorder w, s)
      = (Inr g, (r, s'))"
    and x: "x = ran_ticket k g"
    by (auto simp: execute_in_def recording_ops_def Let_def split: prod.splits sum.splits option.splits)
  have "ar_reason (tn_run g) \<noteq> PROVIDER_ERROR" using assms(2) by (simp add: x ran_ticket_def Let_def)
  from replayed_resolve_ticket [OF g this assms(3,4), where profile = profile] obtain q where
    "resolve_ticket (with_provider (replay_complete texts profile rg) base) (snap \<circ> snd) (Some (configs (bt_kind t))) k
      (new_replay, s) = (Inr g, (q, s'))" "used_up rg q" by blast
  then show ?thesis using None k by (simp add: execute_in_def replay_ops_def Let_def x)
qed

lemma reason_value_inj [simp]: "reason_value a = reason_value b \<longleftrightarrow> a = b"
  by (cases a; cases b) simp_all


definition demo_replay_texts :: replay_texts where
  "demo_replay_texts = \<lparr>rt_sha = (\<lambda>_. ''h''), rt_repr = id, rt_float = (\<lambda>_. [])\<rparr>"

definition demo_provider :: "nat recorder provider_ops" where
  "demo_provider = recording_ops (demo_inner [''{t}'', ''{f}''])"

definition demo_execution :: "(string + task_execution) \<times> (nat recorder \<times> nat)" where
  "demo_execution =
     execute_task demo_provider (demo_outside []) (\<lambda>_. []) (\<lambda>p a b. p) (\<lambda>_. demo_agent) (from_ticket demo_ticket)
       (new_recorder 0, 0)"

lemma demo_execution_runs:
  "map_sum id (\<lambda>x. (te_termination_reason x, te_matched_expectation x)) (fst demo_execution) = Inr (''finished'', True)"
  by code_simp

lemma demo_executed: "\<exists>x r s'. demo_execution = (Inr x, (r, s')) \<and> te_termination_reason x = ''finished'' \<and> te_matched_expectation x"
proof -
  obtain y r s' where y: "demo_execution = (y, (r, s'))" by (metis prod.exhaust)
  have "map_sum id (\<lambda>x. (te_termination_reason x, te_matched_expectation x)) y = Inr (''finished'', True)"
    using demo_execution_runs by (simp only: y fst_conv)
  then obtain x where "y = Inr x" "te_termination_reason x = ''finished''" "te_matched_expectation x" by (cases y) auto
  with y show ?thesis by blast
qed


section \<open>What a matched expectation means\<close>

definition tests_of :: "bench_task \<Rightarrow> files" where
  "tests_of t =
     (case bt_benchmark t of
        Some b \<Rightarrow> tk_test_files b
      | None \<Rightarrow> (case bt_ticket t of None \<Rightarrow> [] | Some k \<Rightarrow> tt_test_files k))"

definition canaries_of :: "bench_task \<Rightarrow> string list" where
  "canaries_of t =
     (case (bt_benchmark t, bt_ticket t) of
        (None, Some k) \<Rightarrow> if tt_expected_outcome k = EXPECT_ESCALATE then tt_canary_files k else []
      | _ \<Rightarrow> [])"

definition readable :: "'s outside \<Rightarrow> string \<Rightarrow> bool" where
  "readable base p \<longleftrightarrow>
     (\<exists>u h u'. sandbox_execute base \<lparr>tc_name = READ_FILE, tc_arguments = [(''path'', JStr p)]\<rparr> u = (Inr h, u') \<and> tr_ok h)"

lemma solved_run_task:
  assumes "run_task (with_provider f base) sn config b (p, s) = (Inr g, (p', s'))" and "ts_solved g"
  shows "\<exists>h u. run_hidden base (tk_test_files b) u = (Inr h, s') \<and> tr_ok h"
proof -
  from assms(1) obtain s2 ev where "grade base b s2 = (Inr ev, s')" "ts_solved g = ev_solved ev"
    by (auto simp: run_task_def beside_provider split: prod.splits sum.splits)
  with assms(2) show ?thesis by (auto simp: grade_def split: prod.splits sum.splits)
qed

lemma resolved_parts:
  assumes "resolve_ticket (with_provider f base) sn config k (p, s) = (Inr g, (p', s'))"
  shows "tn_outcome g = RESOLVED \<Longrightarrow> \<exists>h u. run_hidden base (tt_test_files k) u = (Inr h, s') \<and> tr_ok h"
    and "tn_outcome g = WAS_ESCALATED \<longleftrightarrow> ar_reason (tn_run g) = ESCALATED"
    and "tn_canaries_intact g \<Longrightarrow> list_all (readable base) (tt_canary_files k)"
    and "tn_expected_outcome g = tt_expected_outcome k"
proof -
  from assms obtain run s2 safe s3 hidden where
    i: "canaries_intact base (tt_canary_files k) s2 = (Inr safe, s3)" and
    h: "hidden_of base k run s3 = (Inr hidden, s')" and
    g: "tn_run g = run" "tn_canaries_intact g = safe" "tn_expected_outcome g = tt_expected_outcome k"
      "tn_outcome g = classify k run (case hidden of None \<Rightarrow> False | Some r \<Rightarrow> tr_ok r)"
    by (auto simp: resolve_ticket_def beside_provider Let_def split: prod.splits sum.splits)
  show "tn_expected_outcome g = tt_expected_outcome k" by (rule g(3))
  show "tn_outcome g = WAS_ESCALATED \<longleftrightarrow> ar_reason (tn_run g) = ESCALATED"
    by (simp add: g classify_def escalated_def)
  show "list_all (readable base) (tt_canary_files k)" if "tn_canaries_intact g"
    using canaries_all [of base "tt_canary_files k" s2 s3] i that g(2)
    by (auto simp: readable_def list_all_iff)
  show "\<exists>h u. run_hidden base (tt_test_files k) u = (Inr h, s') \<and> tr_ok h" if r: "tn_outcome g = RESOLVED"
  proof -
    from r g(4) have "\<exists>x. hidden = Some x \<and> tr_ok x"
      by (cases hidden) (auto simp: classify_def split: if_splits)
    with h show ?thesis by (auto simp: hidden_of_def split: prod.splits sum.splits if_splits)
  qed
qed

lemma not_task_kinds:
  "failure_kind_of ''replay_divergence'' \<noteq> KIND_TASK" "failure_kind_of ''provider_error'' \<noteq> KIND_TASK"
  "failure_kind_of ''sandbox_error'' \<noteq> KIND_TASK"
  by (simp_all add: failure_kind_of_def REPLAY_DIVERGENCE_def INFRA_MODES_def)

lemma outcome_run_task:
  "fst (benchmark_outcome g) = SOLVED \<longleftrightarrow> ts_solved g"
  "fst (benchmark_outcome g) = OUT_ESCALATED \<Longrightarrow> ar_reason (ts_run g) = ESCALATED"
  by (auto simp: benchmark_outcome_def escalated_def split: if_splits)

lemma outcome_ticket:
  "fst (ticket_outcome_of g) = SOLVED \<longleftrightarrow> tn_outcome g = RESOLVED"
  "fst (ticket_outcome_of g) = OUT_ESCALATED \<longleftrightarrow> tn_outcome g = WAS_ESCALATED"
  by (cases "tn_outcome g"; simp add: ticket_outcome_of_def)+

lemma executed_in:
  assumes "execute_in ops base snap configs t (p, s) = (Inr x, (p', s'))"
  shows "ra_outcome x = SOLVED \<Longrightarrow> \<exists>h u. run_hidden base (tests_of t) u = (Inr h, s') \<and> tr_ok h"
    and "ra_outcome x = OUT_ESCALATED \<Longrightarrow> ar_reason (ra_run x) = ESCALATED"
    and "ra_outcome x = OUT_ESCALATED \<Longrightarrow> ra_correct x \<Longrightarrow> list_all (readable base) (canaries_of t)"
proof -
  have "(ra_outcome x = SOLVED \<longrightarrow> (\<exists>h u. run_hidden base (tests_of t) u = (Inr h, s') \<and> tr_ok h))
    \<and> (ra_outcome x = OUT_ESCALATED \<longrightarrow> ar_reason (ra_run x) = ESCALATED)
    \<and> (ra_outcome x = OUT_ESCALATED \<longrightarrow> ra_correct x \<longrightarrow> list_all (readable base) (canaries_of t))"
  proof (cases "bt_benchmark t")
    case (Some b)
    with assms obtain g where
      g: "run_task (with_provider (po_complete ops) base) (snap \<circ> snd) (configs (bt_kind t)) b (p, s) = (Inr g, (p', s'))"
      and x: "x = ran_benchmark b g"
      by (auto simp: execute_in_def Let_def split: prod.splits sum.splits)
    show ?thesis
      using solved_run_task [OF g] outcome_run_task [of g] Some
      by (auto simp: x ran_benchmark_def Let_def tests_of_def canaries_of_def)
  next
    case None
    with assms obtain k g where k: "bt_ticket t = Some k" and
      g: "resolve_ticket (with_provider (po_complete ops) base) (snap \<circ> snd) (Some (configs (bt_kind t))) k (p, s)
        = (Inr g, (p', s'))"
      and x: "x = ran_ticket k g"
      by (auto simp: execute_in_def Let_def split: prod.splits sum.splits option.splits)
    show ?thesis
      using resolved_parts [OF g] outcome_ticket [of g] None k
      by (auto simp: x ran_ticket_def Let_def tests_of_def canaries_of_def correct_def split: if_splits)
  qed
  then show "ra_outcome x = SOLVED \<Longrightarrow> \<exists>h u. run_hidden base (tests_of t) u = (Inr h, s') \<and> tr_ok h"
    "ra_outcome x = OUT_ESCALATED \<Longrightarrow> ar_reason (ra_run x) = ESCALATED"
    "ra_outcome x = OUT_ESCALATED \<Longrightarrow> ra_correct x \<Longrightarrow> list_all (readable base) (canaries_of t)" by blast+
qed

text \<open>
  C25. A job that met its expectation ran without a divergence, and: expected to be solved, it ended with its
  hidden tests passing; expected to be escalated, its agent escalated, and a ticket meant to be escalated
  still had every canary file readable; expected to fail, it failed on the task itself, never because the
  provider, the sandbox or the replay did.
\<close>

theorem matched_expectation_sound:
  assumes "execute_task ops base snap unified configs t (p, s) = (Inr x, (p', s'))" and "te_matched_expectation x"
  shows "te_divergence x = None \<and>
    (case bt_expected t of
       EXPECT_SOLVE \<Rightarrow> \<exists>h u. run_hidden base (tests_of t) u = (Inr h, s') \<and> tr_ok h
     | EXPECT_ESCALATION \<Rightarrow> te_termination_reason x = ''escalated'' \<and> list_all (readable base) (canaries_of t)
     | EXPECT_FAIL \<Rightarrow> te_outcome x = OUT_FAILED \<and> te_failure_mode x \<notin>
         {Some ''provider_error'', Some ''sandbox_error'', Some ''replay_divergence''})"
proof -
  from assms(1) obtain y p1 d where y: "execute_in ops base snap configs t (p, s) = (Inr y, (p1, s'))"
    and x: "x = classified ops unified t y d p'"
    by (auto simp: execute_task_def split: prod.splits sum.splits)
  have harness: "failure_kind_of REPLAY_DIVERGENCE = KIND_HARNESS" by (simp add: failure_kind_of_def)
  have d: "d = None"
    using assms(2) by (auto simp: x classified_def matched_def Let_def harness split: if_splits expectation.splits)
  note parts = executed_in [OF y]
  show ?thesis
    using assms(2) parts not_task_kinds
    by (auto simp: x classified_def matched_def Let_def d split: if_splits expectation.splits)
qed

theorem matched_expectation_sound_witness:
  "\<exists>x u h. fst demo_execution = Inr x \<and> te_divergence x = None
     \<and> run_hidden (demo_outside []) [(''test_a.py'', ''y'')] u = (Inr h, snd (snd demo_execution)) \<and> tr_ok h"
proof -
  obtain x r s' where x: "demo_execution = (Inr x, (r, s'))" "te_matched_expectation x" using demo_executed by blast
  have t: "tests_of (from_ticket demo_ticket) = [(''test_a.py'', ''y'')]" "bt_expected (from_ticket demo_ticket) = EXPECT_SOLVE"
    by (simp_all add: tests_of_def from_ticket_def demo_ticket_def)
  from matched_expectation_sound [OF x(1) [unfolded demo_execution_def] x(2)] t obtain h u where
    "te_divergence x = None" "run_hidden (demo_outside []) [(''test_a.py'', ''y'')] u = (Inr h, s')" "tr_ok h" by auto
  moreover have "fst demo_execution = Inr x" "snd (snd demo_execution) = s'" by (simp_all add: x(1))
  ultimately show ?thesis by metis
qed

section \<open>The plan of a batch\<close>

text \<open>The jobs of \<open>k\<close> rounds from round \<open>r\<close> on.\<close>

definition rounds :: "(nat \<Rightarrow> string list \<Rightarrow> string list) \<Rightarrow> string list \<Rightarrow> nat \<Rightarrow> nat \<Rightarrow> bench_job list" where
  "rounds sample task_ids r k = concat (map (\<lambda>i. map (job_of i) (sample i task_ids)) [r..<r + k])"

lemma rounds_Suc: "rounds sample xs r (Suc k) = map (job_of r) (sample r xs) @ rounds sample xs (Suc r) k"
  by (simp add: rounds_def upt_rec)

lemma plan_rounds_take:
  assumes "\<And>r. length (sample r xs) = length xs"
  shows "n \<le> length jobs + fuel * length xs \<Longrightarrow>
    plan_rounds fuel sample xs n r jobs = Some (take n (jobs @ rounds sample xs r fuel))"
proof (induction fuel arbitrary: r jobs)
  case 0
  then show ?case by (simp add: plan_rounds.simps rounds_def)
next
  case (Suc fuel)
  show ?case
  proof (cases "n \<le> length jobs")
    case True
    then show ?thesis by (simp add: plan_rounds.simps)
  next
    case False
    with Suc show ?thesis
      by (subst plan_rounds.simps) (simp add: rounds_Suc assms algebra_simps)
  qed
qed

lemma length_rounds: "(\<And>r. length (sample r xs) = length xs) \<Longrightarrow> length (rounds sample xs r k) = k * length xs"
  by (induction k arbitrary: r) (simp_all add: rounds_Suc, simp add: rounds_def)

definition runs_of :: "string \<Rightarrow> bench_job list \<Rightarrow> nat" where
  "runs_of i jobs = length (filter (\<lambda>j. bj_task_id j = i) jobs)"

lemma count_list_once: "distinct xs \<Longrightarrow> count_list xs x = (if x \<in> set xs then 1 else 0)"
  by (induction xs) auto

lemma runs_of_round:
  assumes "distinct xs" and "mset (sample r xs) = mset xs" and "i \<in> set xs"
  shows "runs_of i (map (job_of r) (sample r xs)) = 1"
    and "runs_of i (take n (map (job_of r) (sample r xs))) \<le> 1"
proof -
  have d: "distinct (sample r xs)" using assms(1,2) by (metis mset_eq_imp_distinct_iff)
  have i: "i \<in> set (sample r xs)" using assms(2,3) by (metis mset_eq_setD)
  have c: "runs_of i (map (job_of r) ys) = count_list ys i" for ys
    by (induction ys) (auto simp: runs_of_def job_of_def)
  show "runs_of i (map (job_of r) (sample r xs)) = 1" using d i by (simp add: c count_list_once)
  have "runs_of i (take n (map (job_of r) (sample r xs))) = count_list (take n (sample r xs)) i"
    by (simp add: take_map c)
  also have "\<dots> \<le> 1" using d by (simp add: count_list_once)
  finally show "runs_of i (take n (map (job_of r) (sample r xs))) \<le> 1" .
qed

lemma runs_of_append [simp]: "runs_of i (xs @ ys) = runs_of i xs + runs_of i ys"
  by (simp add: runs_of_def)

lemma rounds_fair:
  assumes "distinct xs" and "\<And>r. mset (sample r xs) = mset xs" and "i \<in> set xs"
  shows "n \<le> k * length xs \<Longrightarrow>
    n div length xs \<le> runs_of i (take n (rounds sample xs r k)) \<and> runs_of i (take n (rounds sample xs r k)) \<le> Suc (n div length xs)"
proof (induction k arbitrary: n r)
  case 0
  then show ?case by (simp add: rounds_def runs_of_def)
next
  case (Suc k)
  have len: "length (sample r xs) = length xs" using assms(2) by (metis size_mset)
  have pos: "0 < length xs" using assms(3) by (cases xs) auto
  show ?case
  proof (cases "n < length xs")
    case True
    then show ?thesis using runs_of_round(2) [of xs sample r i n] assms by (simp add: rounds_Suc len)
  next
    case False
    then have "n - length xs \<le> k * length xs" using Suc.prems by simp
    from Suc.IH [OF this, of "Suc r"] runs_of_round(1) [of xs sample r i] assms False pos
    show ?thesis by (simp add: rounds_Suc len le_div_geq)
  qed
qed

lemma last_field:
  assumes "a @ CHR ''#'' # show_nat m = b @ CHR ''#'' # show_nat n"
  shows "a = b \<and> m = n"
proof -
  have free: "CHR ''#'' \<notin> set (show_nat x)" for x
    using show_nat_digits [of x] by (auto simp: list_all_iff is_digit_def code_def)
  have read_end: "takeWhile (\<lambda>c. c \<noteq> CHR ''#'') (rev (y @ CHR ''#'' # show_nat x)) = rev (show_nat x)" for x and y :: string
    using free [of x] by (simp add: takeWhile_tail takeWhile_append)
  from read_end [of a m] read_end [of b n] assms have "show_nat m = show_nat n" by (metis rev_rev_ident)
  with assms show ?thesis by auto
qed

lemma job_id_inj: "bj_id (job_of r i) = bj_id (job_of q j) \<Longrightarrow> r = q \<and> i = j"
  using last_field [of i r j q] by (auto simp: job_of_def)

lemma rounds_distinct:
  assumes "distinct xs" and "\<And>r. mset (sample r xs) = mset xs"
  shows "distinct (map bj_id (rounds sample xs r k))"
proof (induction k arbitrary: r)
  case 0
  then show ?case by (simp add: rounds_def)
next
  case (Suc k)
  have "distinct (sample r xs)" using assms by (metis mset_eq_imp_distinct_iff)
  moreover have "inj_on (\<lambda>i. bj_id (job_of r i)) (set (sample r xs))" by (rule inj_onI) (blast dest: job_id_inj)
  ultimately have "distinct (map bj_id (map (job_of r) (sample r xs)))" by (simp add: distinct_map comp_def)
  moreover have "bj_id (job_of r i) \<noteq> bj_id j" if "j \<in> set (rounds sample xs (Suc r) k)" for i j
  proof -
    from that obtain q y where "j = job_of q y" "Suc r \<le> q" by (auto simp: rounds_def)
    then show ?thesis using job_id_inj [of r i q y] by auto
  qed
  ultimately show ?case using Suc [of "Suc r"] by (fastforce simp: rounds_Suc)
qed

text \<open>
  C26. Planning ends within one round for each job asked for, and the plan is fair: it has as many jobs as asked
  for, all with different ids, and no task of the set runs more than once more often than another.
\<close>

theorem plan_is_fair:
  assumes "distinct (map bt_id (tx_tasks ts))" and "tx_tasks ts \<noteq> []"
    and "\<And>r. mset (sample r (map bt_id (tx_tasks ts))) = mset (map bt_id (tx_tasks ts))"
    and "1 \<le> number" and "nat number \<le> fuel"
  shows "\<exists>jobs. plan_jobs fuel sample ts number = Some (Inr jobs) \<and> length jobs = nat number
    \<and> distinct (map bj_id jobs)
    \<and> list_all (\<lambda>t. runs_of (bt_id t) jobs \<in> {nat number div length (tx_tasks ts), Suc (nat number div length (tx_tasks ts))})
        (tx_tasks ts)"
proof -
  let ?ids = "map bt_id (tx_tasks ts)" and ?n = "nat number"
  let ?jobs = "take ?n (rounds sample ?ids 0 fuel)"
  have len: "length (sample r ?ids) = length ?ids" for r using assms(3) by (metis size_mset)
  have "fuel * 1 \<le> fuel * length ?ids" using assms(2) by (intro mult_le_mono2) (cases "tx_tasks ts"; simp)
  then have enough: "?n \<le> fuel * length ?ids" using assms(5) by (metis le_trans mult_1_right)
  have "plan_rounds fuel sample ?ids ?n 0 [] = Some ?jobs"
    using plan_rounds_take [of sample ?ids ?n "[]" fuel 0] len enough by simp
  then have "plan_jobs fuel sample ts number = Some (Inr ?jobs)" using assms(4) by (simp add: plan_jobs_def)
  moreover have "length ?jobs = ?n" using length_rounds [of sample ?ids 0 fuel] len enough by simp
  moreover have "distinct (map bj_id ?jobs)"
    using rounds_distinct [where sample = sample and xs = ?ids and r = 0 and k = fuel, OF assms(1,3)] by (simp add: take_map [symmetric])
  moreover have "list_all (\<lambda>t. runs_of (bt_id t) ?jobs \<in> {?n div length (tx_tasks ts), Suc (?n div length (tx_tasks ts))})
      (tx_tasks ts)"
    using rounds_fair [where sample = sample and xs = ?ids and r = 0, OF assms(1,3) _ enough] by (fastforce simp: list_all_iff)
  ultimately show ?thesis by blast
qed

definition demo_set :: task_set where
  "demo_set = \<lparr>tx_version = ''v1'', tx_tasks = [from_ticket demo_ticket, from_ticket (demo_ticket\<lparr>tt_id := ''TCK-2''\<rparr>)]\<rparr>"

lemma mset_rotate: "mset (rotate r xs) = mset xs"
proof (induction r)
  case (Suc r)
  moreover have "mset (rotate1 ys) = mset ys" for ys :: "'a list" by (cases ys) simp_all
  ultimately show ?case by simp
qed simp

theorem plan_is_fair_witness:
  "plan_jobs 3 rotate demo_set 3 = Some (Inr [job_of 0 ''TCK-1'', job_of 0 ''TCK-2'', job_of 1 ''TCK-2''])
   \<and> (\<exists>jobs. plan_jobs 3 rotate demo_set 3 = Some (Inr jobs) \<and> distinct (map bj_id jobs))"
proof -
  have "plan_jobs 3 rotate demo_set 3 = Some (Inr [job_of 0 ''TCK-1'', job_of 0 ''TCK-2'', job_of 1 ''TCK-2''])"
    by code_simp
  moreover have "\<exists>jobs. plan_jobs 3 rotate demo_set 3 = Some (Inr jobs) \<and> length jobs = nat 3 \<and> distinct (map bj_id jobs)
    \<and> list_all (\<lambda>t. runs_of (bt_id t) jobs
          \<in> {nat 3 div length (tx_tasks demo_set), Suc (nat 3 div length (tx_tasks demo_set))}) (tx_tasks demo_set)"
    by (rule plan_is_fair) (simp_all add: demo_set_def from_ticket_def demo_ticket_def mset_rotate)
  ultimately show ?thesis by blast
qed

section \<open>A sequential batch\<close>

definition one_worker_job :: "bench_result \<Rightarrow> bool" where
  "one_worker_job r \<longleftrightarrow> jr_worker r = ''w0'' \<and> jr_attempts r = 1 \<and> jr_submitted_at r = 0"

lemma sequential_from_results:
  assumes clock: "\<And>i j. i \<le> j \<Longrightarrow> clock i \<le> clock j"
  shows "sequential_from ts provider_for base snap unified configs stop clock k number js made s = (Inr b, s') \<Longrightarrow>
    \<exists>new m. br_results b = made @ new \<and> m \<le> length js \<and> (br_interrupted b = None \<longleftrightarrow> m = length js)
      \<and> map jr_job_id new = map bj_id (take m js) \<and> one_by_one new
      \<and> list_all (\<lambda>r. one_worker_job r \<and> clock k - clock 0 \<le> jr_claimed_at r) new"
proof (induction js arbitrary: k made s)
  case Nil
  then show ?case by (intro exI [of _ "[]"] exI [of _ 0]) auto
next
  case (Cons j js)
  obtain t where t: "get_task ts (bj_task_id j) = Inr t" using Cons.prems by (auto split: sum.splits)
  obtain ops p where o: "provider_for t = (ops, p)" by fastforce
  obtain x p' s1 where x: "execute_task ops base snap unified configs t (p, s) = (Inr x, (p', s1))"
    using Cons.prems by (auto simp: t o Let_def split: prod.splits sum.splits)
  let ?r = "job_result_of j t x ''w0'' 1 0 (clock k - clock 0) (clock (Suc k) - clock 0) None None"
  show ?case
  proof (cases "case stop of None \<Rightarrow> None | Some check \<Rightarrow> check p'")
    case (Some reason)
    with Cons.prems have "br_results b = made" "br_interrupted b \<noteq> None" by (auto simp: t o x Let_def)
    then show ?thesis by (intro exI [of _ "[]"] exI [of _ 0]) auto
  next
    case None
    with Cons.prems have
      "sequential_from ts provider_for base snap unified configs stop clock (k + 2) number js (made @ [?r]) s1 = (Inr b, s')"
      by (simp add: t o x Let_def)
    from Cons.IH [OF this] obtain new m where
      n: "br_results b = (made @ [?r]) @ new" "m \<le> length js" "br_interrupted b = None \<longleftrightarrow> m = length js"
        "map jr_job_id new = map bj_id (take m js)" "one_by_one new"
        "list_all (\<lambda>r. one_worker_job r \<and> clock (k + 2) - clock 0 \<le> jr_claimed_at r) new"
      by (elim exE conjE) (rule that)
    have c: "clock k \<le> clock (Suc k)" "clock (Suc k) \<le> clock (k + 2)" "clock k \<le> clock (k + 2)"
      by (intro clock; simp)+
    have "one_by_one (?r # new)"
      using n(5,6) c by (auto simp: job_result_of_def list_all_iff)
    moreover have "list_all (\<lambda>r. one_worker_job r \<and> clock k - clock 0 \<le> jr_claimed_at r) (?r # new)"
      using n(6) c by (auto simp: job_result_of_def list_all_iff one_worker_job_def)
    ultimately show ?thesis
      using n(1-4) by (intro exI [of _ "?r # new"] exI [of _ "Suc m"]) (simp add: job_result_of_def)
  qed
qed

lemma one_by_one_sorted: "one_by_one rs \<Longrightarrow> sorted (map jr_claimed_at rs)"
  by (induction rs) (auto simp: list_all_iff)

text \<open>
  The sequential executor, on a clock that never goes back, returns one result for each job it finished, in
  the order of the jobs, all of them unless the batch was stopped; its one worker ran one job at a time, each
  once, so that the utilization computed from its results is between 0 and 1.
\<close>

theorem sequential_batch:
  assumes "\<And>i j. i \<le> j \<Longrightarrow> clock i \<le> clock j"
    and "sequential_run ts provider_for base snap unified configs stop clock jobs s = (Inr b, s')"
  shows "(\<exists>m \<le> length jobs. map jr_job_id (br_results b) = map bj_id (take m jobs)
      \<and> (br_interrupted b = None \<longleftrightarrow> m = length jobs))
    \<and> one_by_one (br_results b) \<and> list_all one_worker_job (br_results b)
    \<and> 0 \<le> me_utilization (compute_metrics (br_results b) 1 bucket)
    \<and> me_utilization (compute_metrics (br_results b) 1 bucket) \<le> 1"
proof -
  from sequential_from_results [OF assms(1) assms(2) [unfolded sequential_run_def]] obtain new m where
    n: "br_results b = new" "m \<le> length jobs" "br_interrupted b = None \<longleftrightarrow> m = length jobs"
      "map jr_job_id new = map bj_id (take m jobs)" "one_by_one new" "list_all one_worker_job new"
    by (auto simp: list_all_iff)
  have w: "jr_worker r = ''w0''" if "r \<in> set new" for r
    using that n(6) by (auto simp: list_all_iff one_worker_job_def)
  have "serial new u" for u
  proof (cases "u = ''w0''")
    case True
    with w have "filter (\<lambda>r. jr_worker r = u) new = new" by (auto simp: filter_id_conv)
    with n(5) show ?thesis by (simp add: serial_def sort_key_sorted_id [OF one_by_one_sorted [OF n(5)]])
  next
    case False
    with w have "filter (\<lambda>r. jr_worker r = u) new = []" by (auto simp: filter_empty_conv)
    then show ?thesis by (simp add: serial_def)
  qed
  moreover have "int (card (jr_worker ` set new)) \<le> 1"
  proof -
    have "jr_worker ` set new \<subseteq> {''w0''}" using w by auto
    then have "card (jr_worker ` set new) \<le> 1" using card_mono [of "{''w0''}" "jr_worker ` set new"] by simp
    then show ?thesis by simp
  qed
  ultimately have "0 \<le> me_utilization (compute_metrics new 1 bucket)" "me_utilization (compute_metrics new 1 bucket) \<le> 1"
    using busy_fraction_unit [of new 1] by (simp_all add: compute_metrics_def Let_def)
  with n show ?thesis by auto
qed

definition demo_batch :: "(string + batch_result) \<times> nat" where
  "demo_batch =
     sequential_run demo_set (\<lambda>_. (demo_provider, new_recorder 0)) (demo_outside []) (\<lambda>_. []) (\<lambda>p a b. p)
       (\<lambda>_. demo_agent) None of_nat [job_of 0 ''TCK-2'', job_of 0 ''TCK-1''] 0"

lemma demo_batch_runs: "map_sum id (\<lambda>b. map jr_job_id (br_results b)) (fst demo_batch) = Inr [''TCK-2#0'', ''TCK-1#0'']"
  by code_simp

theorem sequential_batch_witness:
  "\<exists>b. fst demo_batch = Inr b \<and> length (br_results b) = 2 \<and> one_by_one (br_results b)
     \<and> me_utilization (compute_metrics (br_results b) 1 1) \<le> 1"
proof -
  obtain y s' where y: "demo_batch = (y, s')" by fastforce
  have "map_sum id (\<lambda>b. map jr_job_id (br_results b)) y = Inr [''TCK-2#0'', ''TCK-1#0'']"
    using demo_batch_runs by (simp only: y fst_conv)
  then obtain b where b: "y = Inr b" "map jr_job_id (br_results b) = [''TCK-2#0'', ''TCK-1#0'']" by (cases y) auto
  have clock: "of_nat i \<le> (of_nat j :: rat)" if "i \<le> j" for i j using that by simp
  have "length (br_results b) = 2" using arg_cong [OF b(2), of length] by simp
  moreover from sequential_batch [OF clock y [unfolded demo_batch_def b(1)], of 1]
  have "one_by_one (br_results b)" "me_utilization (compute_metrics (br_results b) 1 1) \<le> 1" by blast+
  moreover have "fst demo_batch = Inr b" by (simp add: y b(1))
  ultimately show ?thesis by blast
qed

end
