(* ===== verification/Comparison.thy ===== *)
theory Comparison
  imports Json
begin

text \<open>
  Comparing two runs row by row, as \<^verbatim>\<open>app/eval/compare.py\<close> and \<^verbatim>\<open>app/tickets/compare.py\<close> both do: the
  rows of each run by their ids (\<open>by_id\<close>, where the last row of an id wins), the ids one run has and
  the other lacks, and \<open>keyed_comparison\<close>, the contract the two comparisons share. Its lemmas say what
  a comparison without a regression means, that such comparisons compose, and how the change of the
  success rate splits into the two kinds of transition. \<open>row_deltas\<close> compares the rows of each id with a
  given function and meets the contract whenever that function does.
\<close>

definition by_id :: "('r \<Rightarrow> string) \<Rightarrow> 'r list \<Rightarrow> (string \<times> 'r) list" where
  "by_id key rows = dict_of (map (\<lambda>r. (key r, r)) rows)"

definition ids :: "('r \<Rightarrow> string) \<Rightarrow> 'r list \<Rightarrow> string list" where
  "ids key rows = sort (dict_keys (by_id key rows))"

text \<open>\<^verbatim>\<open>sorted(xs.keys() - ys.keys())\<close>.\<close>

definition only_in :: "('r \<Rightarrow> string) \<Rightarrow> 'r list \<Rightarrow> 'r list \<Rightarrow> string list" where
  "only_in key xs ys = filter (\<lambda>k. k \<notin> set (ids key ys)) (ids key xs)"

definition row_of :: "('r \<Rightarrow> string) \<Rightarrow> 'r list \<Rightarrow> string \<Rightarrow> 'r option" where
  "row_of key rows k = dict_get (by_id key rows) k"

text \<open>\<^verbatim>\<open>count / total if rows else 0.0\<close>.\<close>

definition rate :: "nat \<Rightarrow> nat \<Rightarrow> rat" where
  "rate n m = (if m = 0 then 0 else of_nat n / of_nat m)"

lemma set_ids [simp]: "set (ids key rows) = key ` set rows"
  using set_keys_dict_of [of "map (\<lambda>r. (key r, r)) rows"] by (simp add: ids_def by_id_def image_image)

lemma distinct_ids [simp]: "distinct (ids key rows)"
  using distinct_dict_of [of "map (\<lambda>r. (key r, r)) rows"] by (simp add: ids_def by_id_def)

lemma sorted_ids [simp]: "sorted (ids key rows)"
  by (simp add: ids_def)

lemma ids_cong: "key ` set xs = key ` set ys \<Longrightarrow> ids key xs = ids key ys"
  by (rule sorted_distinct_set_unique) simp_all

lemma row_of_None_iff: "row_of key rows k = None \<longleftrightarrow> k \<notin> key ` set rows"
proof -
  have "row_of key rows k = None \<longleftrightarrow> k \<notin> set (ids key rows)"
    by (simp add: row_of_def dict_get_None_iff ids_def)
  then show ?thesis by simp
qed

lemma dict_get_dict_of_mem: "dict_get (dict_of kvs) k = Some v \<Longrightarrow> (k, v) \<in> set kvs"
proof (induction kvs rule: rev_induct)
  case Nil
  then show ?case by (simp add: dict_of_def)
next
  case (snoc kv kvs)
  then show ?case by (cases kv) (auto simp: dict_of_snoc split: if_splits)
qed

lemma row_of_mem: "row_of key rows k = Some r \<Longrightarrow> r \<in> set rows \<and> key r = k"
  unfolding row_of_def by_id_def by (drule dict_get_dict_of_mem) auto

locale keyed_comparison =
  fixes key :: "'r \<Rightarrow> string" and good :: "'r \<Rightarrow> bool"
    and compare :: "'r list \<Rightarrow> 'r list \<Rightarrow> 'e + 'd list"
    and d_key :: "'d \<Rightarrow> string" and d_base :: "'d \<Rightarrow> bool" and d_cand :: "'d \<Rightarrow> bool"
  assumes succeeds_iff: "(\<exists>ds. compare b c = Inr ds) \<longleftrightarrow> key ` set b = key ` set c"
    and keys_of: "compare b c = Inr ds \<Longrightarrow> map d_key ds = ids key b"
    and rows_of: "compare b c = Inr ds \<Longrightarrow> d \<in> set ds \<Longrightarrow>
      \<exists>rb rc. row_of key b (d_key d) = Some rb \<and> row_of key c (d_key d) = Some rc
        \<and> d_base d = good rb \<and> d_cand d = good rc"
begin

definition regresses :: "'d list \<Rightarrow> bool" where
  "regresses ds \<longleftrightarrow> (\<exists>d\<in>set ds. d_base d \<and> \<not> d_cand d)"

lemma no_regression_iff:
  assumes "compare b c = Inr ds"
  shows "\<not> regresses ds \<longleftrightarrow>
    (\<forall>k rb. row_of key b k = Some rb \<longrightarrow> good rb \<longrightarrow> (\<exists>rc. row_of key c k = Some rc \<and> good rc))"
proof
  assume n: "\<not> regresses ds"
  show "\<forall>k rb. row_of key b k = Some rb \<longrightarrow> good rb \<longrightarrow> (\<exists>rc. row_of key c k = Some rc \<and> good rc)"
  proof (intro allI impI)
    fix k rb assume r: "row_of key b k = Some rb" "good rb"
    then have "k \<in> set (ids key b)" using row_of_mem [OF r(1)] by force
    then obtain d where d: "d \<in> set ds" "d_key d = k" by (auto simp: keys_of [OF assms, symmetric])
    from rows_of [OF assms d(1)] n d r show "\<exists>rc. row_of key c k = Some rc \<and> good rc"
      by (auto simp: regresses_def)
  qed
next
  assume "\<forall>k rb. row_of key b k = Some rb \<longrightarrow> good rb \<longrightarrow> (\<exists>rc. row_of key c k = Some rc \<and> good rc)"
  then show "\<not> regresses ds" using rows_of [OF assms] by (fastforce simp: regresses_def)
qed

lemma self_unchanged: "compare b b = Inr ds \<Longrightarrow> d \<in> set ds \<Longrightarrow> d_base d = d_cand d"
  by (drule (1) rows_of) auto

lemma no_regression_trans:
  assumes "compare a b = Inr ab" and "compare b c = Inr bc"
    and "\<not> regresses ab" and "\<not> regresses bc"
  shows "\<exists>ac. compare a c = Inr ac \<and> \<not> regresses ac"
proof -
  have "key ` set a = key ` set b" "key ` set b = key ` set c"
    using succeeds_iff [of a b] succeeds_iff [of b c] assms(1,2) by blast+
  then obtain ac where ac: "compare a c = Inr ac" using succeeds_iff [of a c] by auto
  have "\<not> regresses ac"
    using assms(3,4) unfolding no_regression_iff [OF ac] no_regression_iff [OF assms(1)]
      no_regression_iff [OF assms(2)] by metis
  with ac show ?thesis by blast
qed

text \<open>The two kinds of transition account for the whole change of the number of successes.\<close>

lemma change_of_count:
  "int (length (filter d_cand ds)) - int (length (filter d_base ds)) =
     int (length (filter (\<lambda>d. \<not> d_base d \<and> d_cand d) ds)) - int (length (filter (\<lambda>d. d_base d \<and> \<not> d_cand d) ds))"
  by (induction ds) auto

lemma count_of_ids:
  assumes "compare b c = Inr ds"
  shows "length ds = card (key ` set b)"
    and "length (filter d_base ds) = card {k. \<exists>r. row_of key b k = Some r \<and> good r}"
    and "length (filter d_cand ds) = card {k. \<exists>r. row_of key c k = Some r \<and> good r}"
proof -
  have k: "map d_key ds = ids key b" by (rule keys_of [OF assms])
  then have dist: "distinct (map d_key ds)" by simp
  have "length ds = length (ids key b)" using k by (metis length_map)
  then show "length ds = card (key ` set b)" by (metis distinct_card distinct_ids set_ids)
  have count: "length (filter P ds) = card (d_key ` {d \<in> set ds. P d})" for P
  proof -
    have "distinct (map d_key (filter P ds))" using dist by (simp add: distinct_map_filter)
    from distinct_card [OF this] show ?thesis by simp
  qed
  have in_ds: "\<exists>d\<in>set ds. d_key d = k" if "row_of key b k = Some r" for k r
  proof -
    have "k \<in> set (ids key b)" using row_of_mem [OF that] by force
    then show ?thesis unfolding k [symmetric] by auto
  qed
  have cand: "\<exists>r. row_of key b k = Some r" if "row_of key c k = Some r" for k r
  proof -
    have "k \<in> key ` set c" using row_of_mem [OF that] by force
    then have "k \<in> key ` set b" using succeeds_iff [of b c] assms by blast
    then show ?thesis using row_of_None_iff [of key b k] by (cases "row_of key b k") auto
  qed
  have base_rows: "k \<in> d_key ` {d \<in> set ds. d_base d} \<longleftrightarrow> (\<exists>r. row_of key b k = Some r \<and> good r)" for k
  proof
    assume "k \<in> d_key ` {d \<in> set ds. d_base d}"
    then show "\<exists>r. row_of key b k = Some r \<and> good r" using rows_of [OF assms] by fastforce
  next
    assume "\<exists>r. row_of key b k = Some r \<and> good r"
    then obtain r where r: "row_of key b k = Some r" "good r" by blast
    from in_ds [OF r(1)] obtain d where d: "d \<in> set ds" "d_key d = k" by blast
    from rows_of [OF assms d(1)] d r show "k \<in> d_key ` {d \<in> set ds. d_base d}" by auto
  qed
  then have "d_key ` {d \<in> set ds. d_base d} = {k. \<exists>r. row_of key b k = Some r \<and> good r}" by blast
  with count [of d_base] show "length (filter d_base ds) = card {k. \<exists>r. row_of key b k = Some r \<and> good r}"
    by simp
  have cand_rows: "k \<in> d_key ` {d \<in> set ds. d_cand d} \<longleftrightarrow> (\<exists>r. row_of key c k = Some r \<and> good r)" for k
  proof
    assume "k \<in> d_key ` {d \<in> set ds. d_cand d}"
    then show "\<exists>r. row_of key c k = Some r \<and> good r" using rows_of [OF assms] by fastforce
  next
    assume "\<exists>r. row_of key c k = Some r \<and> good r"
    then obtain r where r: "row_of key c k = Some r" "good r" by blast
    from cand [OF r(1)] in_ds obtain d where d: "d \<in> set ds" "d_key d = k" by blast
    from rows_of [OF assms d(1)] d r show "k \<in> d_key ` {d \<in> set ds. d_cand d}" by auto
  qed
  then have "d_key ` {d \<in> set ds. d_cand d} = {k. \<exists>r. row_of key c k = Some r \<and> good r}" by blast
  with count [of d_cand] show "length (filter d_cand ds) = card {k. \<exists>r. row_of key c k = Some r \<and> good r}"
    by simp
qed

end

section \<open>Comparing the rows of each id\<close>

definition row_deltas ::
  "('r \<Rightarrow> string) \<Rightarrow> ('r \<Rightarrow> 'r \<Rightarrow> 'd) \<Rightarrow> 'r list \<Rightarrow> 'r list \<Rightarrow> (string list \<times> string list) + 'd list" where
  "row_deltas key delta b c =
     (if set (ids key b) \<noteq> set (ids key c) then Inl (only_in key b c, only_in key c b)
      else Inr (map (\<lambda>i. delta (the (row_of key b i)) (the (row_of key c i))) (ids key b)))"

lemma row_there: "k \<in> key ` set rows \<Longrightarrow> \<exists>r. row_of key rows k = Some r \<and> key r = k"
  using row_of_None_iff [of key rows k] row_of_mem [of key rows k] by fastforce

lemma row_deltas_keyed:
  assumes delta: "\<And>rb rc. d_key (delta rb rc) = key rb" "\<And>rb rc. d_base (delta rb rc) = good rb"
    "\<And>rb rc. d_cand (delta rb rc) = good rc"
  shows "keyed_comparison key good (row_deltas key delta) d_key d_base d_cand"
proof
  fix b c
  show "(\<exists>ds. row_deltas key delta b c = Inr ds) \<longleftrightarrow> key ` set b = key ` set c"
    by (simp add: row_deltas_def)
  fix ds
  assume i: "row_deltas key delta b c = Inr ds"
  then have same: "key ` set b = key ` set c" and
    ds: "ds = map (\<lambda>i. delta (the (row_of key b i)) (the (row_of key c i))) (ids key b)"
    by (auto simp: row_deltas_def split: if_splits)
  have row: "\<exists>rb rc. row_of key b k = Some rb \<and> key rb = k \<and> row_of key c k = Some rc"
    if "k \<in> set (ids key b)" for k
    using that row_there [of k key b] row_there [of k key c] same by auto
  show "map d_key ds = ids key b"
    unfolding ds map_map by (rule map_idI) (use row in \<open>force simp: delta\<close>)
  fix d
  assume "d \<in> set ds"
  then obtain k where k: "k \<in> set (ids key b)" "d = delta (the (row_of key b k)) (the (row_of key c k))"
    unfolding ds by auto
  from row [OF k(1)] k(2)
  show "\<exists>rb rc. row_of key b (d_key d) = Some rb \<and> row_of key c (d_key d) = Some rc
      \<and> d_base d = good rb \<and> d_cand d = good rc"
    by (auto simp: delta)
qed

end
