(* ===== verification/Eval_Compare.thy ===== *)
theory Eval_Compare
  imports Comparison
begin

text \<open>
  Comparing two benchmark runs and gating on the result: \<^verbatim>\<open>app/eval/compare.py\<close> and
  \<^verbatim>\<open>app/eval/gate.py\<close>. The left of \<open>compare_runs\<close> is its \<^verbatim>\<open>ValueError\<close>, with the two lists of ids its
  message names; \<open>percent\<close> stands for the format \<^verbatim>\<open>.1%\<close>. Reading a committed baseline file is not
  modelled.
\<close>

datatype transition = CONVERTED | REGRESSED | UNCHANGED_PASS | UNCHANGED_FAIL

record task_row =
  tw_task_id :: string
  tw_category :: string
  tw_difficulty :: string
  tw_solved :: bool
  tw_failure_mode :: "string option"
  tw_iterations :: int
  tw_total_tokens :: int

record task_delta =
  td_task_id :: string
  td_category :: string
  td_difficulty :: string
  td_transition :: transition
  td_baseline_solved :: bool
  td_candidate_solved :: bool
  td_baseline_failure :: "string option"
  td_candidate_failure :: "string option"
  td_iteration_delta :: int
  td_token_delta :: int

record run_comparison =
  cm_baseline_label :: string
  cm_candidate_label :: string
  cm_deltas :: "task_delta list"

definition converted :: "run_comparison \<Rightarrow> task_delta list" where
  "converted c = filter (\<lambda>d. td_transition d = CONVERTED) (cm_deltas c)"

definition regressed :: "run_comparison \<Rightarrow> task_delta list" where
  "regressed c = filter (\<lambda>d. td_transition d = REGRESSED) (cm_deltas c)"

definition has_regression :: "run_comparison \<Rightarrow> bool" where
  "has_regression c \<longleftrightarrow> regressed c \<noteq> []"

definition total_tasks :: "run_comparison \<Rightarrow> nat" where
  "total_tasks c = length (cm_deltas c)"

definition baseline_solved_count :: "run_comparison \<Rightarrow> nat" where
  "baseline_solved_count c = length (filter td_baseline_solved (cm_deltas c))"

definition candidate_solved_count :: "run_comparison \<Rightarrow> nat" where
  "candidate_solved_count c = length (filter td_candidate_solved (cm_deltas c))"

definition baseline_solve_rate :: "run_comparison \<Rightarrow> rat" where
  "baseline_solve_rate c = rate (baseline_solved_count c) (total_tasks c)"

definition candidate_solve_rate :: "run_comparison \<Rightarrow> rat" where
  "candidate_solve_rate c = rate (candidate_solved_count c) (total_tasks c)"

definition solve_rate_delta :: "run_comparison \<Rightarrow> rat" where
  "solve_rate_delta c = candidate_solve_rate c - baseline_solve_rate c"

definition token_delta :: "run_comparison \<Rightarrow> int" where
  "token_delta c = sum_list (map td_token_delta (cm_deltas c))"

definition transition_of :: "bool \<Rightarrow> bool \<Rightarrow> transition" where
  "transition_of baseline candidate =
     (if baseline \<and> candidate then UNCHANGED_PASS
      else if \<not> baseline \<and> \<not> candidate then UNCHANGED_FAIL
      else if candidate then CONVERTED else REGRESSED)"

definition task_delta_of :: "task_row \<Rightarrow> task_row \<Rightarrow> task_delta" where
  "task_delta_of b c =
     \<lparr>td_task_id = tw_task_id b, td_category = tw_category b, td_difficulty = tw_difficulty b,
      td_transition = transition_of (tw_solved b) (tw_solved c),
      td_baseline_solved = tw_solved b, td_candidate_solved = tw_solved c,
      td_baseline_failure = tw_failure_mode b, td_candidate_failure = tw_failure_mode c,
      td_iteration_delta = tw_iterations c - tw_iterations b,
      td_token_delta = tw_total_tokens c - tw_total_tokens b\<rparr>"

definition compare_runs ::
  "string \<Rightarrow> string \<Rightarrow> task_row list \<Rightarrow> task_row list \<Rightarrow> (string list \<times> string list) + run_comparison" where
  "compare_runs baseline_label candidate_label baseline candidate =
     (if set (ids tw_task_id baseline) \<noteq> set (ids tw_task_id candidate)
      then Inl (only_in tw_task_id baseline candidate, only_in tw_task_id candidate baseline)
      else Inr \<lparr>cm_baseline_label = baseline_label, cm_candidate_label = candidate_label,
        cm_deltas = map (\<lambda>i. task_delta_of (the (row_of tw_task_id baseline i)) (the (row_of tw_task_id candidate i)))
          (ids tw_task_id baseline)\<rparr>)"

section \<open>The gate\<close>

record gate_outcome =
  go_passed :: bool
  go_reasons :: "string list"
  go_comparison :: run_comparison
  go_min_solve_rate :: rat

definition evaluate_gate :: "(rat \<Rightarrow> string) \<Rightarrow> run_comparison \<Rightarrow> rat \<Rightarrow> gate_outcome" where
  "evaluate_gate percent c floor_rate =
     (let reasons =
        (if has_regression c
         then [show_nat (length (regressed c)) @ '' task(s) regressed: '' @ join '', '' (map td_task_id (regressed c))]
         else [])
        @ (if candidate_solve_rate c < floor_rate
           then [''solve rate '' @ percent (candidate_solve_rate c) @ '' is below the floor '' @ percent floor_rate]
           else [])
      in \<lparr>go_passed = (reasons = []), go_reasons = reasons, go_comparison = c, go_min_solve_rate = floor_rate\<rparr>)"

section \<open>What a comparison says\<close>

interpretation runs: keyed_comparison tw_task_id tw_solved "row_deltas tw_task_id task_delta_of"
  td_task_id td_baseline_solved td_candidate_solved
  by (rule row_deltas_keyed) (simp_all add: task_delta_of_def)

lemma compare_runs_deltas:
  "compare_runs x y b c = Inr r \<Longrightarrow> row_deltas tw_task_id task_delta_of b c = Inr (cm_deltas r)"
  by (auto simp: row_deltas_def compare_runs_def split: if_splits)

lemma delta_transition:
  "compare_runs x y b c = Inr r \<Longrightarrow> d \<in> set (cm_deltas r) \<Longrightarrow>
     td_transition d = transition_of (td_baseline_solved d) (td_candidate_solved d)"
  by (auto simp: compare_runs_def task_delta_of_def split: if_splits)

lemma has_regression_iff: "compare_runs x y b c = Inr r \<Longrightarrow> has_regression r \<longleftrightarrow> runs.regresses (cm_deltas r)"
  using delta_transition [of x y b c r]
  by (auto simp: has_regression_def regressed_def runs.regresses_def filter_empty_conv transition_of_def)

lemma gate_passes_iff:
  assumes "compare_runs x y baseline candidate = Inr c"
  shows "go_passed (evaluate_gate percent c floor_rate) \<longleftrightarrow>
    (\<forall>i b. row_of tw_task_id baseline i = Some b \<longrightarrow> tw_solved b \<longrightarrow>
       (\<exists>r. row_of tw_task_id candidate i = Some r \<and> tw_solved r))
    \<and> floor_rate \<le> rate (card {i. \<exists>r. row_of tw_task_id candidate i = Some r \<and> tw_solved r})
                       (card (tw_task_id ` set candidate))"
proof -
  note d = compare_runs_deltas [OF assms]
  have same: "tw_task_id ` set baseline = tw_task_id ` set candidate"
    using assms by (simp add: compare_runs_def split: if_splits)
  have "candidate_solve_rate c =
      rate (card {i. \<exists>r. row_of tw_task_id candidate i = Some r \<and> tw_solved r}) (card (tw_task_id ` set candidate))"
    using runs.count_of_ids [OF d] by (simp add: candidate_solve_rate_def candidate_solved_count_def total_tasks_def same)
  moreover have "go_passed (evaluate_gate percent c floor_rate) \<longleftrightarrow>
      \<not> has_regression c \<and> floor_rate \<le> candidate_solve_rate c"
    by (auto simp: evaluate_gate_def Let_def)
  ultimately show ?thesis
    unfolding has_regression_iff [OF assms] using runs.no_regression_iff [OF d] by simp
qed

text \<open>
  The gate passes exactly when every task the baseline solved is solved by the candidate and the share
  of its tasks the candidate solved is no less than the floor.
\<close>

theorem gate_exact:
  assumes "compare_runs x y baseline candidate = Inr c"
  shows "go_passed (evaluate_gate percent c floor_rate) \<longleftrightarrow>
    (\<forall>i b. row_of tw_task_id baseline i = Some b \<longrightarrow> tw_solved b \<longrightarrow>
       (\<exists>r. row_of tw_task_id candidate i = Some r \<and> tw_solved r))
    \<and> floor_rate \<le> rate (card {i. \<exists>r. row_of tw_task_id candidate i = Some r \<and> tw_solved r})
                       (card (tw_task_id ` set candidate))"
  by (rule gate_passes_iff [OF assms])

definition demo_row :: "string \<Rightarrow> bool \<Rightarrow> task_row" where
  "demo_row i ok = \<lparr>tw_task_id = i, tw_category = ''bugfix'', tw_difficulty = ''easy'', tw_solved = ok,
     tw_failure_mode = (if ok then None else Some ''wrong_solution''), tw_iterations = 3, tw_total_tokens = 100\<rparr>"

theorem gate_exact_witness:
  "\<exists>c. compare_runs ''main'' ''pr'' [demo_row ''b'' False, demo_row ''a'' True] [demo_row ''a'' True, demo_row ''b'' True] = Inr c
     \<and> go_passed (evaluate_gate (\<lambda>_. []) c 1)"
proof -
  let ?b = "[demo_row ''b'' False, demo_row ''a'' True]" and ?c = "[demo_row ''a'' True, demo_row ''b'' True]"
  have "\<exists>c. compare_runs ''main'' ''pr'' ?b ?c = Inr c"
    by (simp add: compare_runs_def demo_row_def insert_commute)
  then obtain c where c: "compare_runs ''main'' ''pr'' ?b ?c = Inr c" by blast
  have rows: "row_of tw_task_id ?c i = (if i = ''a'' then Some (demo_row ''a'' True)
      else if i = ''b'' then Some (demo_row ''b'' True) else None)" for i
    by (auto simp: row_of_def by_id_def dict_of_def demo_row_def)
  have old: "row_of tw_task_id ?b i = (if i = ''b'' then Some (demo_row ''b'' False)
      else if i = ''a'' then Some (demo_row ''a'' True) else None)" for i
    by (auto simp: row_of_def by_id_def dict_of_def demo_row_def)
  have solved: "{i. \<exists>r. row_of tw_task_id ?c i = Some r \<and> tw_solved r} = {''a'', ''b''}"
    unfolding rows by (auto simp: demo_row_def split: if_splits)
  have all: "tw_task_id ` set ?c = {''a'', ''b''}" by (auto simp: demo_row_def)
  have full: "rate (card {''a'', ''b'' :: string}) (card {''a'', ''b'' :: string}) = 1" by (simp add: rate_def)
  have kept: "\<exists>r. row_of tw_task_id ?c i = Some r \<and> tw_solved r"
    if o: "row_of tw_task_id ?b i = Some b" for i b
  proof -
    have "i = ''a'' \<or> i = ''b''" using o unfolding old by (simp split: if_splits)
    then show ?thesis unfolding rows by (elim disjE) (simp_all add: demo_row_def)
  qed
  have "go_passed (evaluate_gate (\<lambda>_. []) c 1)"
    unfolding gate_exact [OF c] solved all full using kept by (intro conjI allI impI) (assumption | rule order.refl)+
  with c show ?thesis by blast
qed

end
