(* ===== verification/Eval_Report.thy ===== *)
theory Eval_Report
  imports Ticket_Eval Eval_Compare
begin

text \<open>
  The benchmark from its task directories to the gate: loading tasks (\<^verbatim>\<open>app/benchmark/loader.py\<close>), running them
  and reporting (\<^verbatim>\<open>app/eval/report.py\<close>, \<^verbatim>\<open>harness.py\<close>), storing runs and reading them back
  (\<^verbatim>\<open>app/db/models.py\<close>, \<^verbatim>\<open>app/eval/store.py\<close>), importing a committed results file
  (\<^verbatim>\<open>app/eval/import_results.py\<close>), and the gate over such a file (\<^verbatim>\<open>app/eval/gate.py\<close>, \<^verbatim>\<open>gate_cli.py\<close>).

  A task's provider and sandbox are its \<open>outside\<close>, \<open>clock k\<close> the \<open>k\<close>-th reading of the monotonic clock. The
  database is its two tables with their next ids; a query without an order answers in the table's order.
  \<open>nums\<close> stands for Python's \<^verbatim>\<open>int\<close> and \<^verbatim>\<open>float\<close> of a string and \<open>rep\<close> for \<^verbatim>\<open>repr\<close>; an
  exception is \<^verbatim>\<open>None\<close> where it has no text the program shows, and the left of a sum where it has.
\<close>

section \<open>Loading tasks\<close>

type_synonym tree = "(string list \<times> string) list"

record task_dir =
  dir_name :: string
  dir_metadata :: "(string + task_metadata) option"
  dir_tests :: tree
  dir_reference :: tree
  dir_workspace :: tree

definition read_tree :: "tree \<Rightarrow> files" where
  "read_tree t =
     map (\<lambda>(p, content). (join ''/'' p, content)) (filter (\<lambda>(p, _). last p \<noteq> ''.gitkeep'') (sort_key fst t))"

definition in_quotes :: "string \<Rightarrow> string" where
  "in_quotes t = CHR 0x27 # t @ [CHR 0x27]"

definition load_task :: "task_dir \<Rightarrow> string + task" where
  "load_task d =
     (case dir_metadata d of
        None \<Rightarrow> Inl ''task.json''
      | Some (Inl e) \<Rightarrow> Inl e
      | Some (Inr m) \<Rightarrow>
          (if read_tree (dir_tests d) = [] then Inl (''task '' @ in_quotes (dir_name d) @ '' has no hidden tests'')
           else if read_tree (dir_reference d) = [] then Inl (''task '' @ in_quotes (dir_name d) @ '' has no reference solution'')
           else Inr \<lparr>tk_metadata = m, tk_workspace_files = read_tree (dir_workspace d),
                     tk_test_files = read_tree (dir_tests d), tk_reference_files = read_tree (dir_reference d)\<rparr>))"

fun load_each :: "task_dir list \<Rightarrow> string + task list" where
  "load_each [] = Inr []"
| "load_each (d # ds) =
     (case load_task d of
        Inl e \<Rightarrow> Inl e
      | Inr t \<Rightarrow> (case load_each ds of Inl e \<Rightarrow> Inl e | Inr ts \<Rightarrow> Inr (t # ts)))"

abbreviation task_id :: "task \<Rightarrow> string" where
  "task_id t \<equiv> tm_id (tk_metadata t)"

text \<open>\<open>dirs\<close> is what the version's directory \<open>base\<close> holds, if there is one.\<close>

definition load_benchmark :: "(json \<Rightarrow> string) \<Rightarrow> string \<Rightarrow> task_dir list option \<Rightarrow> string + task list" where
  "load_benchmark rep base dirs =
     (case dirs of
        None \<Rightarrow> Inl (''benchmark directory not found: '' @ base)
      | Some ds \<Rightarrow>
          (case load_each (filter (\<lambda>d. dir_metadata d \<noteq> None) (sort_key dir_name ds)) of
             Inl e \<Rightarrow> Inl e
           | Inr tasks \<Rightarrow>
               (let ids = map task_id tasks; duplicates = sort (remdups (filter (\<lambda>i. count_list ids i > 1) ids))
                in if duplicates \<noteq> [] then Inl (''duplicate task ids: '' @ rep (JList (map JStr duplicates)))
                   else Inr tasks)))"

section \<open>Outcomes and the report\<close>

fun category_value :: "task_category \<Rightarrow> string" where
  "category_value ALGORITHMS = ''algorithms''"
| "category_value BUGFIX = ''bugfix''"
| "category_value REFACTOR = ''refactor''"
| "category_value DATA_STRUCTURES = ''data_structures''"
| "category_value STRING_MANIPULATION = ''string_manipulation''"

fun difficulty_value :: "task_difficulty \<Rightarrow> string" where
  "difficulty_value EASY = ''easy''"
| "difficulty_value MEDIUM = ''medium''"
| "difficulty_value HARD = ''hard''"

record task_outcome =
  eo_task_id :: string
  eo_category :: string
  eo_difficulty :: string
  eo_solved :: bool
  eo_iterations :: int
  eo_prompt_tokens :: int
  eo_completion_tokens :: int
  eo_total_tokens :: int
  eo_wall_clock_seconds :: seconds
  eo_failure_mode :: "failure_mode option"
  eo_tool_counts :: "(string \<times> json) list"
  eo_trace :: "json list"
  eo_eval_exit_code :: "int option"
  eo_eval_output :: string

definition from_result :: "graded_task \<Rightarrow> seconds \<Rightarrow> task_outcome" where
  "from_result g wall_clock_seconds =
     (let run = ts_run g
      in \<lparr>eo_task_id = ts_task_id g, eo_category = category_value (ts_category g),
          eo_difficulty = difficulty_value (ts_difficulty g), eo_solved = ts_solved g,
          eo_iterations = int (iterations run), eo_prompt_tokens = ar_prompt_tokens run,
          eo_completion_tokens = ar_completion_tokens run, eo_total_tokens = Agent_Loop.total_tokens run,
          eo_wall_clock_seconds = wall_clock_seconds, eo_failure_mode = classify_failure g,
          eo_tool_counts = map (\<lambda>(k, n). (k, JInt (int n))) (tool_counts run), eo_trace = serialize_run run,
          eo_eval_exit_code = ev_exit_code (ts_evaluation g), eo_eval_output = ev_output (ts_evaluation g)\<rparr>)"

record benchmark_report =
  bp_label :: string
  bp_provider :: string
  bp_model :: string
  bp_version :: string
  bp_outcomes :: "task_outcome list"

definition report_tasks :: "benchmark_report \<Rightarrow> nat" where
  "report_tasks r = length (bp_outcomes r)"

definition solved_count :: "benchmark_report \<Rightarrow> nat" where
  "solved_count r = length (filter eo_solved (bp_outcomes r))"

definition solve_rate :: "benchmark_report \<Rightarrow> rat" where
  "solve_rate r = (if bp_outcomes r \<noteq> [] then of_nat (solved_count r) / of_nat (report_tasks r) else 0)"

definition report_tokens :: "benchmark_report \<Rightarrow> int" where
  "report_tokens r = sum_list (map eo_total_tokens (bp_outcomes r))"

definition average_iterations :: "benchmark_report \<Rightarrow> rat" where
  "average_iterations r =
     (if bp_outcomes r = [] then 0
      else of_int (sum_list (map eo_iterations (bp_outcomes r))) / of_nat (report_tasks r))"

text \<open>The two counters by category; a category that was never solved counts zero.\<close>

definition category_totals :: "benchmark_report \<Rightarrow> (string \<times> nat) list" where
  "category_totals r = fold (\<lambda>t. count_label (Some (eo_category t))) (bp_outcomes r) []"

definition category_solved :: "benchmark_report \<Rightarrow> (string \<times> nat) list" where
  "category_solved r =
     fold (\<lambda>t. count_label (if eo_solved t then Some (eo_category t) else None)) (bp_outcomes r) []"

definition solve_rate_by_category :: "benchmark_report \<Rightarrow> (string \<times> rat) list" where
  "solve_rate_by_category r =
     map (\<lambda>(c, n). (c, of_nat (case dict_get (category_solved r) c of None \<Rightarrow> 0 | Some m \<Rightarrow> m) / of_nat n))
       (category_totals r)"

definition report_taxonomy :: "benchmark_report \<Rightarrow> (string \<times> nat) list" where
  "report_taxonomy r =
     fold (\<lambda>t. count_label (map_option failure_value (eo_failure_mode t))) (bp_outcomes r) []"

definition report_stats :: "benchmark_report \<Rightarrow> json" where
  "report_stats r =
     JObj [(''solve_rate'', JFloat (solve_rate r)), (''average_iterations'', JFloat (average_iterations r)),
           (''total_tokens'', JInt (report_tokens r)),
           (''solve_rate_by_category'', JObj (map (\<lambda>(c, x). (c, JFloat x)) (solve_rate_by_category r))),
           (''failure_taxonomy'', counts_json (report_taxonomy r))]"

section \<open>Running the benchmark\<close>

fun eval_tasks ::
  "(task \<Rightarrow> 'w outside) \<Rightarrow> ('w \<Rightarrow> files) \<Rightarrow> agent_config \<Rightarrow> (nat \<Rightarrow> seconds) \<Rightarrow> nat \<Rightarrow> task list \<Rightarrow> 'w
    \<Rightarrow> (string + task_outcome list) \<times> 'w" where
  "eval_tasks env_of snap config clock k [] w = (Inr [], w)"
| "eval_tasks env_of snap config clock k (t # ts) w =
     (case run_task (env_of t) snap config t w of
        (Inl e, w1) \<Rightarrow> (Inl e, w1)
      | (Inr g, w1) \<Rightarrow>
          (let elapsed = clock (Suc k) - clock k
           in case eval_tasks env_of snap config clock (k + 2) ts w1 of
                (Inl e, w2) \<Rightarrow> (Inl e, w2)
              | (Inr rest, w2) \<Rightarrow> (Inr (from_result g elapsed # rest), w2)))"

definition run_benchmark ::
  "(task \<Rightarrow> 'w outside) \<Rightarrow> ('w \<Rightarrow> files) \<Rightarrow> agent_config \<Rightarrow> (nat \<Rightarrow> seconds)
    \<Rightarrow> string \<Rightarrow> string \<Rightarrow> string \<Rightarrow> string \<Rightarrow> task list \<Rightarrow> 'w \<Rightarrow> (string + benchmark_report) \<times> 'w" where
  "run_benchmark env_of snap config clock label provider_name model version tasks w =
     (case eval_tasks env_of snap config clock 0 tasks w of
        (Inl e, w') \<Rightarrow> (Inl e, w')
      | (Inr outcomes, w') \<Rightarrow>
          (Inr \<lparr>bp_label = label, bp_provider = provider_name, bp_model = model, bp_version = version,
                bp_outcomes = outcomes\<rparr>, w'))"

section \<open>The database of runs\<close>

record stored_run =
  br_id :: int
  br_created_at :: time
  br_label :: string
  br_provider :: string
  br_model :: string
  br_benchmark_version :: string
  br_total_tasks :: nat
  br_solved_count :: nat
  br_solve_rate :: rat
  br_stats :: json

record stored_result =
  sr_id :: int
  sr_run_id :: int
  sr_task_id :: string
  sr_category :: string
  sr_difficulty :: string
  sr_solved :: bool
  sr_iterations :: int
  sr_prompt_tokens :: int
  sr_completion_tokens :: int
  sr_total_tokens :: int
  sr_wall_clock_seconds :: seconds
  sr_failure_mode :: "string option"
  sr_tool_counts :: "(string \<times> json) list"
  sr_trace :: "json list"
  sr_eval_exit_code :: "int option"
  sr_eval_output :: string

record eval_db =
  ed_runs :: "stored_run list"
  ed_results :: "stored_result list"
  ed_next_run :: int
  ed_next_result :: int

definition stored_result_of :: "int \<Rightarrow> int \<Rightarrow> task_outcome \<Rightarrow> stored_result" where
  "stored_result_of i run_id t =
     \<lparr>sr_id = i, sr_run_id = run_id, sr_task_id = eo_task_id t, sr_category = eo_category t,
      sr_difficulty = eo_difficulty t, sr_solved = eo_solved t, sr_iterations = eo_iterations t,
      sr_prompt_tokens = eo_prompt_tokens t, sr_completion_tokens = eo_completion_tokens t,
      sr_total_tokens = eo_total_tokens t, sr_wall_clock_seconds = eo_wall_clock_seconds t,
      sr_failure_mode = map_option failure_value (eo_failure_mode t), sr_tool_counts = eo_tool_counts t,
      sr_trace = eo_trace t, sr_eval_exit_code = eo_eval_exit_code t, sr_eval_output = eo_eval_output t\<rparr>"

definition persist_report :: "time option \<Rightarrow> time \<Rightarrow> benchmark_report \<Rightarrow> eval_db \<Rightarrow> int \<times> eval_db" where
  "persist_report created_at now r db =
     (let i = ed_next_run db; k = ed_next_result db;
          run = \<lparr>br_id = i, br_created_at = (case created_at of None \<Rightarrow> now | Some t \<Rightarrow> t), br_label = bp_label r,
                 br_provider = bp_provider r, br_model = bp_model r, br_benchmark_version = bp_version r,
                 br_total_tasks = report_tasks r, br_solved_count = solved_count r, br_solve_rate = solve_rate r,
                 br_stats = report_stats r\<rparr>;
          rows = map (\<lambda>(n, t). stored_result_of (k + int n) i t) (enumerate 0 (bp_outcomes r))
      in (i, \<lparr>ed_runs = ed_runs db @ [run], ed_results = ed_results db @ rows, ed_next_run = i + 1,
              ed_next_result = k + int (length rows)\<rparr>))"

definition load_runs :: "eval_db \<Rightarrow> stored_run list" where
  "load_runs db = rev (sort_key br_id (ed_runs db))"

definition results_of_run :: "eval_db \<Rightarrow> int \<Rightarrow> stored_result list" where
  "results_of_run db i = filter (\<lambda>x. sr_run_id x = i) (ed_results db)"

definition load_run_detail :: "eval_db \<Rightarrow> int \<Rightarrow> (stored_run \<times> stored_result list) option" where
  "load_run_detail db i = map_option (\<lambda>r. (r, results_of_run db i)) (find (\<lambda>r. br_id r = i) (ed_runs db))"

definition load_task_result :: "eval_db \<Rightarrow> int \<Rightarrow> string \<Rightarrow> stored_result option" where
  "load_task_result db i t = find (\<lambda>x. sr_run_id x = i \<and> sr_task_id x = t) (ed_results db)"

definition task_row_of :: "stored_result \<Rightarrow> task_row" where
  "task_row_of x =
     \<lparr>tw_task_id = sr_task_id x, tw_category = sr_category x, tw_difficulty = sr_difficulty x, tw_solved = sr_solved x,
      tw_failure_mode = sr_failure_mode x, tw_iterations = sr_iterations x, tw_total_tokens = sr_total_tokens x\<rparr>"

definition load_run_rows :: "(string \<Rightarrow> string) \<Rightarrow> eval_db \<Rightarrow> string \<Rightarrow> string + string \<times> task_row list" where
  "load_run_rows rep db label =
     (case filter (\<lambda>r. br_label r = label) (load_runs db) of
        [] \<Rightarrow> Inl (''no benchmark run found with label '' @ rep label)
      | run # _ \<Rightarrow> Inr (br_label run, map task_row_of (results_of_run db (br_id run))))"

section \<open>A committed results file\<close>

record numbers =
  int_of_text :: "string \<Rightarrow> int option"
  float_of_text :: "string \<Rightarrow> rat option"

text \<open>\<^verbatim>\<open>int(v)\<close>, which cuts a float towards zero, \<^verbatim>\<open>float(v)\<close> and \<^verbatim>\<open>bool(v)\<close>.\<close>

fun py_int :: "numbers \<Rightarrow> json \<Rightarrow> int option" where
  "py_int nums (JInt n) = Some n"
| "py_int nums (JFloat x) = Some (if x \<ge> 0 then \<lfloor>x\<rfloor> else \<lceil>x\<rceil>)"
| "py_int nums (JBool b) = Some (if b then 1 else 0)"
| "py_int nums (JStr t) = int_of_text nums t"
| "py_int nums _ = None"

fun py_float :: "numbers \<Rightarrow> json \<Rightarrow> rat option" where
  "py_float nums (JInt n) = Some (of_int n)"
| "py_float nums (JFloat x) = Some x"
| "py_float nums (JBool b) = Some (if b then 1 else 0)"
| "py_float nums (JStr t) = float_of_text nums t"
| "py_float nums _ = None"

fun py_bool :: "json \<Rightarrow> bool" where
  "py_bool JNull = False"
| "py_bool (JBool b) = b"
| "py_bool (JInt n) = (n \<noteq> 0)"
| "py_bool (JFloat x) = (x \<noteq> 0)"
| "py_bool (JStr t) = (t \<noteq> [])"
| "py_bool (JList xs) = (xs \<noteq> [])"
| "py_bool (JObj kvs) = (kvs \<noteq> [])"

text \<open>\<^verbatim>\<open>FailureMode(value)\<close>, and \<^verbatim>\<open>dict(value)\<close> of an object; of any other value it is taken to fail.\<close>

definition failure_of_value :: "json \<Rightarrow> failure_mode option" where
  "failure_of_value v =
     find (\<lambda>m. v = JStr (failure_value m))
       [F_TIMED_OUT, F_EXHAUSTED_ITERATIONS, F_WRONG_SOLUTION, F_MALFORMED_TOOL_CALL, F_PROVIDER_ERROR, F_SANDBOX_ERROR]"

fun as_dict :: "json \<Rightarrow> (string \<times> json) list option" where
  "as_dict (JObj kvs) = Some kvs"
| "as_dict _ = None"

text \<open>\<^verbatim>\<open>value.get(key, default)\<close> on a dictionary.\<close>

definition get_default :: "json \<Rightarrow> string \<Rightarrow> json \<Rightarrow> json" where
  "get_default v k dflt = (case obj_get v k of None \<Rightarrow> dflt | Some x \<Rightarrow> x)"

definition imported_outcome :: "(json \<Rightarrow> string) \<Rightarrow> numbers \<Rightarrow> json \<Rightarrow> task_outcome option" where
  "imported_outcome rep nums v = do {
     i \<leftarrow> member v ''task_id'' (Some \<circ> py_str rep);
     c \<leftarrow> member v ''category'' (Some \<circ> py_str rep);
     d \<leftarrow> member v ''difficulty'' (Some \<circ> py_str rep);
     ok \<leftarrow> member v ''solved'' (Some \<circ> py_bool);
     n \<leftarrow> py_int nums (get_default v ''iterations'' (JInt 0));
     p \<leftarrow> py_int nums (get_default v ''prompt_tokens'' (JInt 0));
     q \<leftarrow> py_int nums (get_default v ''completion_tokens'' (JInt 0));
     tot \<leftarrow> py_int nums (get_default v ''total_tokens'' (JInt 0));
     secs \<leftarrow> py_float nums (get_default v ''wall_clock_seconds'' (JFloat 0));
     mode \<leftarrow> (let m = get_or_none v ''failure_mode''
              in if m = JNull then Some None else map_option Some (failure_of_value m));
     tools \<leftarrow> as_dict (get_default v ''tool_counts'' (JObj []));
     Some \<lparr>eo_task_id = i, eo_category = c, eo_difficulty = d, eo_solved = ok, eo_iterations = n,
           eo_prompt_tokens = p, eo_completion_tokens = q, eo_total_tokens = tot, eo_wall_clock_seconds = secs,
           eo_failure_mode = mode, eo_tool_counts = tools, eo_trace = [],
           eo_eval_exit_code = Some (if ok then 0 else 1), eo_eval_output = []\<rparr> }"

definition report_from_results_json :: "(json \<Rightarrow> string) \<Rightarrow> numbers \<Rightarrow> json \<Rightarrow> benchmark_report option" where
  "report_from_results_json rep nums data = do {
     items \<leftarrow> member data ''tasks'' as_list;
     outcomes \<leftarrow> those (map (imported_outcome rep nums) items);
     l \<leftarrow> member data ''label'' (Some \<circ> py_str rep);
     p \<leftarrow> member data ''provider'' (Some \<circ> py_str rep);
     m \<leftarrow> member data ''model'' (Some \<circ> py_str rep);
     Some \<lparr>bp_label = l, bp_provider = p, bp_model = m,
           bp_version = py_str rep (get_default data ''benchmark_version'' (JStr ''v1'')), bp_outcomes = outcomes\<rparr> }"

text \<open>\<open>run_date\<close> is \<^verbatim>\<open>recorded_run_date\<close>, the time in the file if it records one.\<close>

definition import_results ::
  "(json \<Rightarrow> string) \<Rightarrow> numbers \<Rightarrow> time option \<Rightarrow> time \<Rightarrow> json \<Rightarrow> eval_db \<Rightarrow> (int \<times> eval_db) option" where
  "import_results rep nums run_date now data db =
     map_option (\<lambda>r. persist_report run_date now r db) (report_from_results_json rep nums data)"

section \<open>The gate over a results file\<close>

definition baseline_row :: "(json \<Rightarrow> string) \<Rightarrow> numbers \<Rightarrow> json \<Rightarrow> task_row option" where
  "baseline_row rep nums v = do {
     i \<leftarrow> member v ''task_id'' (Some \<circ> py_str rep);
     c \<leftarrow> member v ''category'' (Some \<circ> py_str rep);
     d \<leftarrow> member v ''difficulty'' (Some \<circ> py_str rep);
     ok \<leftarrow> member v ''solved'' (Some \<circ> py_bool);
     n \<leftarrow> py_int nums (get_default v ''iterations'' (JInt 0));
     tot \<leftarrow> py_int nums (get_default v ''total_tokens'' (JInt 0));
     (let m = get_or_none v ''failure_mode''
      in Some \<lparr>tw_task_id = i, tw_category = c, tw_difficulty = d, tw_solved = ok,
               tw_failure_mode = (if m = JNull then None else Some (py_str rep m)),
               tw_iterations = n, tw_total_tokens = tot\<rparr>) }"

definition load_baseline_rows ::
  "(json \<Rightarrow> string) \<Rightarrow> numbers \<Rightarrow> string \<Rightarrow> json \<Rightarrow> (string \<times> task_row list) option" where
  "load_baseline_rows rep nums file_name data = do {
     items \<leftarrow> member data ''tasks'' as_list;
     rows \<leftarrow> those (map (baseline_row rep nums) items);
     Some (py_str rep (get_default data ''label'' (JStr file_name)), rows) }"

datatype gate_error = Bad_baseline | No_run string | Not_comparable "string list" "string list"

definition run_gate ::
  "(json \<Rightarrow> string) \<Rightarrow> numbers \<Rightarrow> (rat \<Rightarrow> string) \<Rightarrow> string \<Rightarrow> json \<Rightarrow> string \<Rightarrow> rat \<Rightarrow> eval_db \<Rightarrow> gate_error + gate_outcome" where
  "run_gate rep nums percent file_name data candidate min_solve_rate db =
     (case load_baseline_rows rep nums file_name data of
        None \<Rightarrow> Inl Bad_baseline
      | Some (baseline_label, baseline_rows) \<Rightarrow>
          (case load_run_rows (\<lambda>t. rep (JStr t)) db candidate of
             Inl e \<Rightarrow> Inl (No_run e)
           | Inr (candidate_label, candidate_rows) \<Rightarrow>
               (case compare_runs baseline_label candidate_label baseline_rows candidate_rows of
                  Inl (gone, new) \<Rightarrow> Inl (Not_comparable gone new)
                | Inr c \<Rightarrow> Inr (evaluate_gate percent c min_solve_rate))))"

section \<open>What is stored is what was reported\<close>

text \<open>Ids are given in order, and results belong to runs that are there.\<close>

definition eval_db_ok :: "eval_db \<Rightarrow> bool" where
  "eval_db_ok db \<longleftrightarrow>
     (\<forall>r \<in> set (ed_runs db). br_id r < ed_next_run db) \<and> (\<forall>x \<in> set (ed_results db). sr_run_id x < ed_next_run db)
     \<and> sorted_wrt (<) (map br_id (ed_runs db))"

definition new_eval_db :: eval_db where
  "new_eval_db = \<lparr>ed_runs = [], ed_results = [], ed_next_run = 1, ed_next_result = 1\<rparr>"

lemma new_eval_db_ok: "eval_db_ok new_eval_db"
  by (simp add: eval_db_ok_def new_eval_db_def)

lemma map_enumerate: "map (\<lambda>(n, t). f t) (enumerate k xs) = map f xs"
  by (induction xs arbitrary: k) simp_all

lemma stored_rows:
  assumes "\<And>n i t. g (stored_result_of n i t) = f i t"
  shows "map g (map (\<lambda>(n, t). stored_result_of (k + int n) i t) (enumerate m ts)) = map (f i) ts"
  by (induction ts arbitrary: m) (simp_all add: assms)

lemma persist_ok:
  assumes "eval_db_ok db" and "persist_report created_at now r db = (i, db')"
  shows "eval_db_ok db'" and "i = ed_next_run db"
  using assms
  by (auto simp: eval_db_ok_def persist_report_def Let_def sorted_wrt_append stored_result_of_def less_imp_le
      intro: less_trans)

lemma persist_results:
  assumes "eval_db_ok db" and "persist_report created_at now r db = (i, db')"
    and "\<And>n i t. g (stored_result_of n i t) = f i t"
  shows "map g (results_of_run db' i) = map (f i) (bp_outcomes r)"
    and "j \<noteq> i \<Longrightarrow> results_of_run db' j = results_of_run db j"
proof -
  let ?rows = "map (\<lambda>(n, t). stored_result_of (ed_next_result db + int n) i t) (enumerate 0 (bp_outcomes r))"
  have db': "ed_results db' = ed_results db @ ?rows" "i = ed_next_run db"
    using assms(2) by (auto simp: persist_report_def Let_def)
  have old: "filter (\<lambda>x. sr_run_id x = i) (ed_results db) = []"
    using assms(1) by (auto simp: eval_db_ok_def db'(2) filter_empty_conv)
  have new: "sr_run_id x = i" if "x \<in> set ?rows" for x using that by (auto simp: stored_result_of_def)
  then have "results_of_run db' i = ?rows" using old by (simp add: results_of_run_def db'(1) filter_id_conv)
  then show "map g (results_of_run db' i) = map (f i) (bp_outcomes r)" using stored_rows [of g f, OF assms(3)] by simp
  show "j \<noteq> i \<Longrightarrow> results_of_run db' j = results_of_run db j"
    using new by (auto simp: results_of_run_def db'(1) filter_empty_conv)
qed

definition report_row :: "task_outcome \<Rightarrow> task_row" where
  "report_row t =
     \<lparr>tw_task_id = eo_task_id t, tw_category = eo_category t, tw_difficulty = eo_difficulty t, tw_solved = eo_solved t,
      tw_failure_mode = map_option failure_value (eo_failure_mode t), tw_iterations = eo_iterations t,
      tw_total_tokens = eo_total_tokens t\<rparr>"

lemma persisted_rows:
  assumes "eval_db_ok db" and "persist_report created_at now r db = (i, db')"
  shows "load_run_rows rep db' (bp_label r) = Inr (bp_label r, map report_row (bp_outcomes r))"
    and "label \<noteq> bp_label r \<Longrightarrow> load_run_rows rep db' label = load_run_rows rep db label"
proof -
  have i: "i = ed_next_run db" using persist_ok(2) [OF assms] .
  obtain run where runs: "ed_runs db' = ed_runs db @ [run]" "br_id run = i" "br_label run = bp_label r"
    using assms(2) by (auto simp: persist_report_def Let_def)
  have sorted: "sorted (map br_id (ed_runs db'))"
    using persist_ok(1) [OF assms] by (simp add: eval_db_ok_def strict_sorted_iff)
  then have desc: "load_runs db' = run # load_runs db"
    unfolding load_runs_def by (simp add: sort_key_sorted_id runs(1) sorted_append)
  have rows: "map task_row_of (results_of_run db' i) = map report_row (bp_outcomes r)"
    by (rule persist_results(1) [OF assms]) (simp add: task_row_of_def report_row_def stored_result_of_def)
  then show "load_run_rows rep db' (bp_label r) = Inr (bp_label r, map report_row (bp_outcomes r))"
    by (simp add: load_run_rows_def desc runs)
  have "results_of_run db' (br_id x) = results_of_run db (br_id x)" if "x \<in> set (ed_runs db)" for x
    using persist_results(2) [OF assms, of task_row_of "\<lambda>_. report_row" "br_id x"] that assms(1)
    by (auto simp: i eval_db_ok_def task_row_of_def report_row_def stored_result_of_def)
  moreover have "set (load_runs db) = set (ed_runs db)" by (simp add: load_runs_def)
  ultimately show "label \<noteq> bp_label r \<Longrightarrow> load_run_rows rep db' label = load_run_rows rep db label"
    by (auto simp: load_run_rows_def desc runs(3) split: list.split dest!: filter_eq_ConsD) (metis insertI1)
qed

section \<open>What the gate says of a run\<close>

text \<open>An outcome of a task: its id, and that it counts as solved only on hidden tests that passed.\<close>

definition honest_outcome :: "(task \<Rightarrow> 'w outside) \<Rightarrow> task \<Rightarrow> task_outcome \<Rightarrow> bool" where
  "honest_outcome env_of t x \<longleftrightarrow>
     eo_task_id x = task_id t
     \<and> (eo_solved x \<longrightarrow> (\<exists>u h u'. run_hidden (env_of t) (tk_test_files t) u = (Inr h, u') \<and> tr_ok h))"

lemma run_task_honest:
  assumes "run_task env snap config t w = (Inr g, w')"
  shows "ts_task_id g = task_id t"
    and "ts_solved g \<Longrightarrow> \<exists>u h. run_hidden env (tk_test_files t) u = (Inr h, w') \<and> tr_ok h"
proof -
  from assms obtain w2 ev where "grade env t w2 = (Inr ev, w')" "ts_solved g = ev_solved ev" "ts_task_id g = task_id t"
    by (auto simp: run_task_def split: prod.splits sum.splits)
  note graded = this
  show "ts_task_id g = task_id t" by (rule graded(3))
  from graded(1) obtain h where "run_hidden env (tk_test_files t) w2 = (Inr h, w')" "ev_solved ev = tr_ok h"
    by (auto simp: grade_def split: prod.splits sum.splits)
  then show "ts_solved g \<Longrightarrow> \<exists>u h. run_hidden env (tk_test_files t) u = (Inr h, w') \<and> tr_ok h"
    using graded(2) by blast
qed

lemma eval_tasks_honest:
  "eval_tasks env_of snap config clock k ts w = (Inr outs, w') \<Longrightarrow> list_all2 (honest_outcome env_of) ts outs"
proof (induction ts arbitrary: k w outs)
  case (Cons t ts)
  from Cons.prems obtain g w1 rest where g: "run_task (env_of t) snap config t w = (Inr g, w1)"
    and rest: "eval_tasks env_of snap config clock (k + 2) ts w1 = (Inr rest, w')"
    and outs: "outs = from_result g (clock (Suc k) - clock k) # rest"
    by (auto simp: Let_def split: prod.splits sum.splits)
  have "honest_outcome env_of t (from_result g secs)" for secs
    using run_task_honest [OF g] by (auto simp: honest_outcome_def from_result_def Let_def)
  with Cons.IH [OF rest] show ?case by (simp add: outs)
qed simp

lemma those_rows:
  "list_all2 (honest_outcome env_of) ts outs \<Longrightarrow> map eo_task_id outs = map task_id ts"
  by (induction rule: list_all2_induct) (simp_all add: honest_outcome_def)

text \<open>With one row for each id, the row of an id is the row that has it.\<close>

lemma row_of_distinct:
  assumes "distinct (map key xs)"
  shows "row_of key xs i = Some x \<longleftrightarrow> x \<in> set xs \<and> key x = i"
proof -
  have "by_id key xs = map (\<lambda>r. (key r, r)) xs"
    unfolding by_id_def using assms by (intro dict_of_distinct) (simp add: comp_def)
  then have "row_of key xs i = Some x \<longleftrightarrow> (i, x) \<in> set (map (\<lambda>r. (key r, r)) xs)"
    unfolding row_of_def dict_get_map_of using assms
    by (simp add: map_of_eq_Some_iff comp_def)
  then show ?thesis by auto
qed

lemma report_row_simps [simp]: "tw_task_id (report_row x) = eo_task_id x" "tw_solved (report_row x) = eo_solved x"
  by (simp_all add: report_row_def)

text \<open>
  C30. The gate on a benchmark run judges that run: over any database of runs, with the run just stored among
  them, it passes exactly when every task its baseline file solved is solved by this run and the share of
  the tasks solved is no less than the floor; and no task counts as solved unless its hidden tests passed.
\<close>

theorem gate_of_benchmark_run:
  assumes "run_benchmark env_of snap config clock label provider model version tasks w = (Inr r, w')"
    and "distinct (map task_id tasks)" and "eval_db_ok db" and "persist_report created_at now r db = (i, db')"
    and "run_gate rep nums percent file data label floor_rate db' = Inr g"
  shows "\<exists>name base. load_baseline_rows rep nums file data = Some (name, base)
    \<and> (go_passed g \<longleftrightarrow>
        (\<forall>k b. row_of tw_task_id base k = Some b \<longrightarrow> tw_solved b \<longrightarrow> (\<exists>x \<in> set (bp_outcomes r). eo_task_id x = k \<and> eo_solved x))
        \<and> floor_rate \<le> rate (length (filter eo_solved (bp_outcomes r))) (length tasks))
    \<and> list_all2 (honest_outcome env_of) tasks (bp_outcomes r)"
proof -
  have r: "bp_label r = label" and honest: "list_all2 (honest_outcome env_of) tasks (bp_outcomes r)"
    using assms(1) eval_tasks_honest by (auto simp: run_benchmark_def split: prod.splits sum.splits)
  have ids: "map eo_task_id (bp_outcomes r) = map task_id tasks" by (rule those_rows [OF honest])
  let ?rows = "map report_row (bp_outcomes r)"
  have dist: "distinct (map tw_task_id ?rows)" using assms(2) by (simp add: comp_def ids)
  note rows = persisted_rows(1) [OF assms(3,4), unfolded r]
  from assms(5) obtain name base c where base: "load_baseline_rows rep nums file data = Some (name, base)"
    and c: "compare_runs name label base ?rows = Inr c" and g: "g = evaluate_gate percent c floor_rate"
    by (auto simp: run_gate_def rows split: option.splits sum.splits prod.splits)
  have solved: "(\<exists>x. row_of tw_task_id ?rows k = Some x \<and> tw_solved x) \<longleftrightarrow>
      (\<exists>x \<in> set (bp_outcomes r). eo_task_id x = k \<and> eo_solved x)" for k
    unfolding row_of_distinct [OF dist] by auto
  have count: "card {k. \<exists>x. row_of tw_task_id ?rows k = Some x \<and> tw_solved x} = length (filter eo_solved (bp_outcomes r))"
  proof -
    have "{k. \<exists>x. row_of tw_task_id ?rows k = Some x \<and> tw_solved x} = set (map eo_task_id (filter eo_solved (bp_outcomes r)))"
      unfolding solved by auto
    moreover have "distinct (map eo_task_id (filter eo_solved (bp_outcomes r)))"
      using dist by (intro distinct_map_filter) (simp add: comp_def)
    ultimately show ?thesis by (metis distinct_card length_map)
  qed
  have size: "card (tw_task_id ` set ?rows) = length tasks"
    using distinct_card [OF dist] ids by (metis length_map list.set_map)
  have "go_passed g \<longleftrightarrow>
      (\<forall>k b. row_of tw_task_id base k = Some b \<longrightarrow> tw_solved b \<longrightarrow> (\<exists>x. row_of tw_task_id ?rows k = Some x \<and> tw_solved x))
      \<and> floor_rate \<le> rate (length (filter eo_solved (bp_outcomes r))) (length tasks)"
    unfolding g gate_passes_iff [OF c] count size by simp
  then show ?thesis using base honest unfolding solved by blast
qed

definition demo_task :: task where
  "demo_task =
     \<lparr>tk_metadata = \<lparr>tm_id = ''t1'', tm_title = ''t'', tm_description = ''d'', tm_category = BUGFIX, tm_difficulty = EASY,
        tm_tags = []\<rparr>,
      tk_workspace_files = [], tk_test_files = [(''test_t1.py'', ''x'')], tk_reference_files = [(''s.py'', ''y'')]\<rparr>"

definition demo_benchmark :: "(string + benchmark_report) \<times> nat" where
  "demo_benchmark =
     run_benchmark (\<lambda>_. demo_outside [''{t}'', ''{f}'']) (\<lambda>_. []) demo_agent of_nat ''now'' ''mock'' ''m'' ''v1''
       [demo_task] 0"

definition demo_numbers :: numbers where
  "demo_numbers = \<lparr>int_of_text = (\<lambda>_. None), float_of_text = (\<lambda>_. None)\<rparr>"

definition demo_baseline :: json where
  "demo_baseline =
     JObj [(''label'', JStr ''before''),
           (''tasks'', JList [JObj [(''task_id'', JStr ''t1''), (''category'', JStr ''bugfix''),
              (''difficulty'', JStr ''easy''), (''solved'', JBool True), (''iterations'', JInt 2)]])]"

definition demo_gate :: "benchmark_report \<Rightarrow> gate_error + gate_outcome" where
  "demo_gate r =
     run_gate (\<lambda>_. []) demo_numbers (\<lambda>_. []) ''f.json'' demo_baseline ''now'' 1 (snd (persist_report None 5 r new_eval_db))"

lemma demo_benchmark_runs:
  "map_sum id (\<lambda>r. map_sum id go_passed (demo_gate r)) (fst demo_benchmark) = Inr (Inr True)"
  by code_simp

theorem gate_of_benchmark_run_witness:
  "\<exists>r g. fst demo_benchmark = Inr r \<and> demo_gate r = Inr g \<and> go_passed g
     \<and> (\<exists>x \<in> set (bp_outcomes r). eo_task_id x = ''t1'' \<and> eo_solved x)"
proof -
  obtain x w' where x: "demo_benchmark = (x, w')" by fastforce
  have "map_sum id (\<lambda>r. map_sum id go_passed (demo_gate r)) x = Inr (Inr True)"
    using demo_benchmark_runs by (simp only: x fst_conv)
  then obtain r where r: "x = Inr r" "map_sum id go_passed (demo_gate r) = Inr True" by (cases x) auto
  then obtain g where g: "demo_gate r = Inr g" "go_passed g" by (cases "demo_gate r") auto
  obtain i db' where db': "persist_report None 5 r new_eval_db = (i, db')" by fastforce
  have ids: "distinct (map task_id [demo_task])" by simp
  from gate_of_benchmark_run [OF x [unfolded demo_benchmark_def r(1)] ids new_eval_db_ok db'
      g(1) [unfolded demo_gate_def db' snd_conv]] g(2)
  obtain name base where base: "load_baseline_rows (\<lambda>_. []) demo_numbers ''f.json'' demo_baseline = Some (name, base)"
    and solved: "\<forall>k b. row_of tw_task_id base k = Some b \<longrightarrow> tw_solved b \<longrightarrow>
        (\<exists>x \<in> set (bp_outcomes r). eo_task_id x = k \<and> eo_solved x)" by blast
  have "map_option (\<lambda>(n, b). map_option tw_solved (row_of tw_task_id b ''t1''))
      (load_baseline_rows (\<lambda>_. []) demo_numbers ''f.json'' demo_baseline) = Some (Some True)" by code_simp
  then have "map_option tw_solved (row_of tw_task_id base ''t1'') = Some True" by (simp only: base option.map prod.case option.inject)
  then have "\<exists>x \<in> set (bp_outcomes r). eo_task_id x = ''t1'' \<and> eo_solved x" using solved by auto
  with r(1) g show ?thesis by (auto simp: x)
qed

end
