(* ===== verification/Eval_Api.thy ===== *)
theory Eval_Api
  imports Eval_Report
begin

text \<open>
  What the dashboard reads: the four endpoints over the stored runs (\<^verbatim>\<open>app/api/runs.py\<close>, with the response models of
  \<^verbatim>\<open>app/api/schemas.py\<close>) and the same answers written as files (\<^verbatim>\<open>app/api/static_export.py\<close>), so the dashboard
  can run without a server. A read is an \<open>api_read\<close>; \<open>stamp\<close> is the text of a time and \<open>rep\<close> Python's \<^verbatim>\<open>repr\<close>. Written files are
  a dictionary from paths to JSON values.

  The lemmas show that the files are the api's answers, each under a path of its own, as long as no label could be
  read as two; and that otherwise one comparison is written over another.
\<close>

section \<open>The endpoints\<close>

fun transition_value :: "transition \<Rightarrow> string" where
  "transition_value CONVERTED = ''converted''"
| "transition_value REGRESSED = ''regressed''"
| "transition_value UNCHANGED_PASS = ''unchanged_pass''"
| "transition_value UNCHANGED_FAIL = ''unchanged_fail''"

definition text_json :: "string option \<Rightarrow> json" where
  "text_json x = (case x of None \<Rightarrow> JNull | Some s \<Rightarrow> JStr s)"

definition run_summary :: "(time \<Rightarrow> string) \<Rightarrow> stored_run \<Rightarrow> (string \<times> json) list" where
  "run_summary stamp r =
     [(''id'', JInt (br_id r)), (''created_at'', JStr (stamp (br_created_at r))), (''label'', JStr (br_label r)),
      (''provider'', JStr (br_provider r)), (''model'', JStr (br_model r)),
      (''benchmark_version'', JStr (br_benchmark_version r)), (''total_tasks'', JInt (int (br_total_tasks r))),
      (''solved_count'', JInt (int (br_solved_count r))), (''solve_rate'', JFloat (br_solve_rate r)),
      (''stats'', br_stats r)]"

definition task_summary :: "stored_result \<Rightarrow> (string \<times> json) list" where
  "task_summary x =
     [(''task_id'', JStr (sr_task_id x)), (''category'', JStr (sr_category x)), (''difficulty'', JStr (sr_difficulty x)),
      (''solved'', JBool (sr_solved x)), (''iterations'', JInt (sr_iterations x)),
      (''prompt_tokens'', JInt (sr_prompt_tokens x)), (''completion_tokens'', JInt (sr_completion_tokens x)),
      (''total_tokens'', JInt (sr_total_tokens x)), (''wall_clock_seconds'', JFloat (sr_wall_clock_seconds x)),
      (''failure_mode'', text_json (sr_failure_mode x)), (''tool_counts'', JObj (sr_tool_counts x))]"

definition run_detail :: "(time \<Rightarrow> string) \<Rightarrow> stored_run \<times> stored_result list \<Rightarrow> (string \<times> json) list" where
  "run_detail stamp rx = run_summary stamp (fst rx) @ [(''results'', JList (map (JObj \<circ> task_summary) (snd rx)))]"

definition task_detail :: "stored_result \<Rightarrow> (string \<times> json) list" where
  "task_detail x =
     task_summary x
     @ [(''run_id'', JInt (sr_run_id x)), (''trace'', JList (sr_trace x)),
        (''eval_exit_code'', case sr_eval_exit_code x of None \<Rightarrow> JNull | Some n \<Rightarrow> JInt n),
        (''eval_output'', JStr (sr_eval_output x))]"

definition task_delta_out :: "task_delta \<Rightarrow> json" where
  "task_delta_out d =
     JObj [(''task_id'', JStr (td_task_id d)), (''category'', JStr (td_category d)), (''difficulty'', JStr (td_difficulty d)),
           (''transition'', JStr (transition_value (td_transition d))), (''baseline_solved'', JBool (td_baseline_solved d)),
           (''candidate_solved'', JBool (td_candidate_solved d)), (''baseline_failure'', text_json (td_baseline_failure d)),
           (''candidate_failure'', text_json (td_candidate_failure d)), (''iteration_delta'', JInt (td_iteration_delta d)),
           (''token_delta'', JInt (td_token_delta d))]"

definition compare_response :: "run_comparison \<Rightarrow> json" where
  "compare_response c =
     JObj [(''baseline_label'', JStr (cm_baseline_label c)), (''candidate_label'', JStr (cm_candidate_label c)),
           (''baseline_solve_rate'', JFloat (baseline_solve_rate c)), (''candidate_solve_rate'', JFloat (candidate_solve_rate c)),
           (''solve_rate_delta'', JFloat (solve_rate_delta c)), (''token_delta'', JInt (token_delta c)),
           (''converted'', JList (map (JStr \<circ> td_task_id) (converted c))),
           (''regressed'', JList (map (JStr \<circ> td_task_id) (regressed c))),
           (''deltas'', JList (map task_delta_out (cm_deltas c)))]"

datatype api_read = List_runs | Run_of int | Task_of int string | Compare string string

text \<open>An exception: its status and detail, or of the export, a name it refuses or results it cannot import.\<close>

datatype api_error = Http int string | Unsafe_name string | Bad_results

definition list_runs :: "(time \<Rightarrow> string) \<Rightarrow> eval_db \<Rightarrow> json" where
  "list_runs stamp db = JList (map (JObj \<circ> run_summary stamp) (load_runs db))"

definition get_run :: "(time \<Rightarrow> string) \<Rightarrow> eval_db \<Rightarrow> int \<Rightarrow> api_error + json" where
  "get_run stamp db i =
     (case load_run_detail db i of
        None \<Rightarrow> Inl (Http 404 (''run '' @ show_int i @ '' not found''))
      | Some rx \<Rightarrow> Inr (JObj (run_detail stamp rx)))"

definition get_task_result :: "(json \<Rightarrow> string) \<Rightarrow> eval_db \<Rightarrow> int \<Rightarrow> string \<Rightarrow> api_error + json" where
  "get_task_result rep db i t =
     (case load_task_result db i t of
        None \<Rightarrow> Inl (Http 404 (''task '' @ rep (JStr t) @ '' not found in run '' @ show_int i))
      | Some x \<Rightarrow> Inr (JObj (task_detail x)))"

definition compare_answer :: "(json \<Rightarrow> string) \<Rightarrow> eval_db \<Rightarrow> string \<Rightarrow> string \<Rightarrow> api_error + json" where
  "compare_answer rep db baseline candidate =
     (case load_run_rows (\<lambda>t. rep (JStr t)) db baseline of
        Inl e \<Rightarrow> Inl (Http 404 e)
      | Inr (baseline_label, baseline_rows) \<Rightarrow>
          (case load_run_rows (\<lambda>t. rep (JStr t)) db candidate of
             Inl e \<Rightarrow> Inl (Http 404 e)
           | Inr (candidate_label, candidate_rows) \<Rightarrow>
               (case compare_runs baseline_label candidate_label baseline_rows candidate_rows of
                  Inl (gone, new) \<Rightarrow>
                    Inl (Http 422 (''runs cover different tasks: only in baseline='' @ rep (JList (map JStr gone))
                           @ '', only in candidate='' @ rep (JList (map JStr new))))
                | Inr c \<Rightarrow> Inr (compare_response c))))"

fun api_answer :: "(time \<Rightarrow> string) \<Rightarrow> (json \<Rightarrow> string) \<Rightarrow> eval_db \<Rightarrow> api_read \<Rightarrow> api_error + json" where
  "api_answer stamp rep db List_runs = Inr (list_runs stamp db)"
| "api_answer stamp rep db (Run_of i) = get_run stamp db i"
| "api_answer stamp rep db (Task_of i t) = get_task_result rep db i t"
| "api_answer stamp rep db (Compare b c) = compare_answer rep db b c"

section \<open>The same answers as files\<close>

definition safe_char :: "char \<Rightarrow> bool" where
  "safe_char c \<longleftrightarrow> is_alnum c \<or> c = CHR ''.'' \<or> c = CHR ''_'' \<or> c = CHR ''-''"

definition safe_name :: "string \<Rightarrow> bool" where
  "safe_name n \<longleftrightarrow> n \<noteq> [] \<and> list_all safe_char n"

text \<open>Where a read is written and the path it stands for; quoting leaves a safe name as it is.\<close>

fun request_file :: "api_read \<Rightarrow> string" where
  "request_file List_runs = ''runs.json''"
| "request_file (Run_of i) = ''runs/'' @ show_int i @ ''.json''"
| "request_file (Task_of i t) = ''runs/'' @ show_int i @ ''/tasks/'' @ t @ ''.json''"
| "request_file (Compare b c) = ''compare/'' @ b @ ''__'' @ c @ ''.json''"

fun request_path :: "api_read \<Rightarrow> string" where
  "request_path List_runs = ''/runs''"
| "request_path (Run_of i) = ''/runs/'' @ show_int i"
| "request_path (Task_of i t) = ''/runs/'' @ show_int i @ ''/tasks/'' @ t"
| "request_path (Compare b c) = ''/compare?baseline='' @ b @ ''&candidate='' @ c"

text \<open>What the export does in turn: check a name, or write the answer to a read.\<close>

datatype action = Check string | Emit api_read

record exported =
  xp_written :: "api_read list"
  xp_files :: "(string \<times> json) list"

fun perform :: "(time \<Rightarrow> string) \<Rightarrow> (json \<Rightarrow> string) \<Rightarrow> eval_db \<Rightarrow> action list \<Rightarrow> exported \<Rightarrow> api_error + exported" where
  "perform stamp rep db [] x = Inr x"
| "perform stamp rep db (Check n # rest) x = (if safe_name n then perform stamp rep db rest x else Inl (Unsafe_name n))"
| "perform stamp rep db (Emit q # rest) x =
     (case api_answer stamp rep db q of
        Inl e \<Rightarrow> Inl e
      | Inr v \<Rightarrow>
          perform stamp rep db rest \<lparr>xp_written = xp_written x @ [q], xp_files = dict_put (xp_files x) (request_file q) v\<rparr>)"

definition run_labels :: "eval_db \<Rightarrow> string list" where
  "run_labels db = fold (\<lambda>r ls. if br_label r \<in> set ls then ls else ls @ [br_label r]) (load_runs db) []"

definition run_actions :: "eval_db \<Rightarrow> stored_run \<Rightarrow> action list" where
  "run_actions db r =
     Emit (Run_of (br_id r))
     # concat (map (\<lambda>x. [Check (sr_task_id x), Emit (Task_of (br_id r) (sr_task_id x))]) (results_of_run db (br_id r)))
     @ [Check (br_label r)]"

definition export_actions :: "eval_db \<Rightarrow> action list" where
  "export_actions db =
     Emit List_runs # concat (map (run_actions db) (load_runs db))
     @ concat (map (\<lambda>b. map (\<lambda>c. Emit (Compare b c)) (run_labels db)) (run_labels db))"

definition export_runs :: "(time \<Rightarrow> string) \<Rightarrow> (json \<Rightarrow> string) \<Rightarrow> eval_db \<Rightarrow> api_error + exported" where
  "export_runs stamp rep db = perform stamp rep db (export_actions db) \<lparr>xp_written = [], xp_files = []\<rparr>"

text \<open>The results files are imported first, into a new database, each with the time it records.\<close>

fun import_all ::
  "(json \<Rightarrow> string) \<Rightarrow> numbers \<Rightarrow> time \<Rightarrow> (time option \<times> json) list \<Rightarrow> eval_db \<Rightarrow> eval_db option" where
  "import_all rep nums now [] db = Some db"
| "import_all rep nums now ((date, data) # rest) db =
     do { (i, db') \<leftarrow> import_results rep nums date now data db; import_all rep nums now rest db' }"

definition export_static_api ::
  "(time \<Rightarrow> string) \<Rightarrow> (json \<Rightarrow> string) \<Rightarrow> numbers \<Rightarrow> time \<Rightarrow> (time option \<times> json) list \<Rightarrow> api_error + exported" where
  "export_static_api stamp rep nums now results =
     (case import_all rep nums now results new_eval_db of None \<Rightarrow> Inl Bad_results | Some db \<Rightarrow> export_runs stamp rep db)"

section \<open>One file, one read\<close>

text \<open>A label after which \<^verbatim>\<open>__\<close> can only be the separator.\<close>

definition plain_label :: "string \<Rightarrow> bool" where
  "plain_label b \<longleftrightarrow> \<not> contains_sub ''__'' (b @ ''_'')"

lemma split_at_separator:
  assumes "b @ ''__'' @ x = b' @ ''__'' @ y" and "plain_label b" and "plain_label b'"
  shows "b = b' \<and> x = y"
proof -
  have no: "\<not> (\<exists>u v. b = b' @ u \<and> u \<noteq> [] \<and> ''__'' @ y = u @ ''__'' @ v)"
    if "plain_label b" for b b' :: string and y
  proof clarify
    fix u v assume u: "b = b' @ u" "u \<noteq> []" "''__'' @ y = u @ ''__'' @ v"
    have "contains_sub ''__'' (b @ ''_'')"
    proof (cases "tl u")
      case Nil
      then have "u = ''_''" using u(2,3) by (cases u) auto
      then show ?thesis unfolding contains_sub_iff u(1) by (intro exI [of _ b'] exI [of _ "[]"]) simp
    next
      case (Cons c w)
      then have "u = ''__'' @ w" using u(2,3) by (cases u) auto
      then show ?thesis unfolding contains_sub_iff u(1) by (intro exI [of _ b'] exI [of _ "w @ ''_''"]) simp
    qed
    with that show False by (simp add: plain_label_def)
  qed
  from assms(1) consider u where "b = b' @ u" "u @ ''__'' @ x = ''__'' @ y" | u where "b' = b @ u" "''__'' @ x = u @ ''__'' @ y"
    by (auto simp: append_eq_append_conv2)
  then show ?thesis
  proof cases
    case 1
    then have "u = []" using no [OF assms(2), of b' y] by metis
    with 1 show ?thesis by simp
  next
    case 2
    then have "u = []" using no [OF assms(3), of b x] by metis
    with 2 show ?thesis by simp
  qed
qed

lemma show_int_chars: "c \<in> set (show_int i) \<Longrightarrow> is_digit c \<or> c = CHR ''-''"
  using show_nat_digits [of "nat i"] show_nat_digits [of "nat (- i)"] by (auto simp: show_int_def list_all_iff split: if_splits)

lemma show_nat_no_minus: "show_nat n \<noteq> CHR ''-'' # x"
  using show_nat_digits [of n] by (cases "show_nat n") (auto simp: is_digit_def code_def)

lemma show_int_inj: "show_int i = show_int j \<longleftrightarrow> i = j"
  by (auto simp: show_int_def show_nat_no_minus show_nat_no_minus [symmetric])

text \<open>An id ends where its digits end.\<close>

lemma split_after_id:
  assumes "show_int i @ c # x = show_int j @ d # y" and "c \<in> {CHR ''.'', CHR ''/''}" and "d \<in> {CHR ''.'', CHR ''/''}"
  shows "i = j" and "c = d" and "x = y"
proof -
  let ?P = "\<lambda>e. is_digit e \<or> e = CHR ''-''"
  have part: "takeWhile ?P (show_int k @ e # z) = show_int k" "dropWhile ?P (show_int k @ e # z) = e # z"
    if "e \<in> {CHR ''.'', CHR ''/''}" for k e z
    using that by (auto simp: takeWhile_append dropWhile_append dest: show_int_chars) (auto simp: is_digit_def code_def)
  have "show_int i = show_int j" "c # x = d # y" using part [OF assms(2)] part [OF assms(3)] assms(1) by metis+
  then show "i = j" "c = d" "x = y" by (simp_all add: show_int_inj)
qed

definition plain_request :: "api_read \<Rightarrow> bool" where
  "plain_request q = (case q of Compare b _ \<Rightarrow> plain_label b | _ \<Rightarrow> True)"

lemma run_is_no_task: "request_file (Run_of i) \<noteq> request_file (Task_of j t)"
proof
  assume "request_file (Run_of i) = request_file (Task_of j t)"
  then have "show_int i @ CHR ''.'' # ''json'' = show_int j @ CHR ''/'' # (''tasks/'' @ t @ ''.json'')"
    unfolding request_file.simps by (simp only: append_Cons append_Nil same_append_eq list.inject simp_thms)
  from split_after_id(2) [OF this] show False by simp
qed

lemma request_file_inj:
  assumes "plain_request p" and "plain_request q" and "request_file p = request_file q"
  shows "p = q"
proof (cases p; cases q)
  fix i j assume "p = Run_of i" "q = Run_of j"
  then show ?thesis using assms(3) split_after_id(1) [of i "CHR ''.''" "''json''" j "CHR ''.''"] by simp
next
  fix i j t assume "p = Run_of i" "q = Task_of j t"
  then show ?thesis using assms(3) run_is_no_task by metis
next
  fix i j t assume "p = Task_of i t" "q = Run_of j"
  then show ?thesis using assms(3) run_is_no_task by metis
next
  fix i j t u assume pq: "p = Task_of i t" "q = Task_of j u"
  have "show_int i @ CHR ''/'' # (''tasks/'' @ t @ ''.json'') = show_int j @ CHR ''/'' # (''tasks/'' @ u @ ''.json'')"
    using assms(3) unfolding pq request_file.simps by (simp only: append_Cons append_Nil same_append_eq list.inject simp_thms)
  from split_after_id(1,3) [OF this] show ?thesis by (simp add: pq)
next
  fix b c b' c' assume pq: "p = Compare b c" "q = Compare b' c'"
  then have "b @ ''__'' @ (c @ ''.json'') = b' @ ''__'' @ (c' @ ''.json'')" using assms(3) by simp
  then have "b = b' \<and> c @ ''.json'' = c' @ ''.json''"
    by (rule split_at_separator) (use assms(1,2) in \<open>simp_all add: pq plain_request_def\<close>)
  then show ?thesis by (simp add: pq)
qed (use assms(3) in simp_all)

section \<open>The files are the answers\<close>

definition emitted :: "action list \<Rightarrow> api_read list" where
  "emitted as = [q. Emit q \<leftarrow> as]"

text \<open>Every read written so far has its answer in its file.\<close>

definition answers_kept :: "(time \<Rightarrow> string) \<Rightarrow> (json \<Rightarrow> string) \<Rightarrow> eval_db \<Rightarrow> exported \<Rightarrow> bool" where
  "answers_kept stamp rep db x \<longleftrightarrow>
     (\<forall>q \<in> set (xp_written x). \<exists>v. api_answer stamp rep db q = Inr v \<and> dict_get (xp_files x) (request_file q) = Some v)"

lemma performed:
  assumes "import_all rep nums now results new_eval_db = Some db" and "export_static_api stamp rep nums now results = Inr x"
  shows "perform stamp rep db (export_actions db) \<lparr>xp_written = [], xp_files = []\<rparr> = Inr x"
  using assms by (simp add: export_static_api_def export_runs_def)

lemma perform_keeps:
  "perform stamp rep db as x = Inr y \<Longrightarrow> answers_kept stamp rep db x \<Longrightarrow> list_all plain_request (xp_written x) \<Longrightarrow>
     list_all plain_request (emitted as) \<Longrightarrow>
     answers_kept stamp rep db y \<and> xp_written y = xp_written x @ emitted as
     \<and> fst ` set (xp_files y) = fst ` set (xp_files x) \<union> request_file ` set (emitted as)"
proof (induction stamp rep db as x rule: perform.induct)
  case (3 stamp rep db q rest x)
  obtain v where v: "api_answer stamp rep db q = Inr v" using "3.prems"(1) by (auto split: sum.splits)
  let ?x = "\<lparr>xp_written = xp_written x @ [q], xp_files = dict_put (xp_files x) (request_file q) v\<rparr>"
  have plain: "plain_request q" "list_all plain_request (emitted rest)" using "3.prems"(4) by (simp_all add: emitted_def)
  have "answers_kept stamp rep db ?x"
    using "3.prems"(2,3) plain(1) v unfolding answers_kept_def list_all_iff
    by (auto simp: dest: request_file_inj)
  moreover have "fst ` set (dict_put (xp_files x) (request_file q) v) = insert (request_file q) (fst ` set (xp_files x))"
    by (induction "xp_files x" "request_file q" v rule: dict_put.induct) (auto simp: keys_dict_put)
  ultimately show ?case
    using "3.IH" [OF v, of] "3.prems"(1,3) plain by (simp add: v emitted_def)
qed (auto simp: emitted_def split: if_splits)

lemma run_labels_set: "set (run_labels db) = br_label ` set (ed_runs db)"
proof -
  have "set (fold (\<lambda>r ls. if br_label r \<in> set ls then ls else ls @ [br_label r]) rs acc) = set acc \<union> br_label ` set rs" for rs acc
    by (induction rs arbitrary: acc) auto
  from this [of "load_runs db" "[]"] show ?thesis unfolding run_labels_def by (simp add: load_runs_def)
qed

lemma emitted_parts:
  "emitted (export_actions db) =
     List_runs # concat (map (\<lambda>r. Run_of (br_id r) # map (\<lambda>x. Task_of (br_id r) (sr_task_id x)) (results_of_run db (br_id r))) (load_runs db))
     @ concat (map (\<lambda>b. map (Compare b) (run_labels db)) (run_labels db))"
proof -
  have append: "emitted (as @ bs) = emitted as @ emitted bs" for as bs by (simp add: emitted_def)
  have concats: "emitted (concat (map f xs)) = concat (map (emitted \<circ> f) xs)" for f :: "'b \<Rightarrow> action list" and xs
    by (induction xs) (simp_all add: append, simp add: emitted_def)
  have run: "emitted (run_actions db r) = Run_of (br_id r) # map (\<lambda>x. Task_of (br_id r) (sr_task_id x)) (results_of_run db (br_id r))" for r
  proof -
    have "emitted (concat (map (\<lambda>x. [Check (sr_task_id x), Emit (Task_of (br_id r) (sr_task_id x))]) xs)) =
        map (\<lambda>x. Task_of (br_id r) (sr_task_id x)) xs" for xs
      unfolding concats by (induction xs) (simp_all add: emitted_def)
    then show ?thesis using append by (simp add: run_actions_def) (simp add: emitted_def)
  qed
  have pairs: "emitted (map (\<lambda>c. Emit (Compare b c)) ls) = map (Compare b) ls" for b ls
    by (induction ls) (simp_all add: emitted_def)
  show ?thesis
    unfolding export_actions_def using concats [of "run_actions db"] concats [of "\<lambda>b. map (\<lambda>c. Emit (Compare b c)) (run_labels db)"]
    by (simp add: append comp_def run pairs) (simp add: emitted_def append)
qed

lemma export_reads:
  "set (emitted (export_actions db)) =
    {List_runs} \<union> (\<lambda>r. Run_of (br_id r)) ` set (ed_runs db)
    \<union> {Task_of (br_id r) (sr_task_id t) | r t. r \<in> set (ed_runs db) \<and> t \<in> set (ed_results db) \<and> sr_run_id t = br_id r}
    \<union> {Compare (br_label r) (br_label s) | r s. r \<in> set (ed_runs db) \<and> s \<in> set (ed_runs db)}"
  by (auto simp: emitted_parts run_labels_set load_runs_def results_of_run_def)

text \<open>
  C38. The static export. When every run's label is plain, an export that ends has written the list of runs, each run,
  each task of a run and each pair of labels compared, and nothing else; and the file of each of them holds exactly
  what the api answers to it, no other answer having been written over it.
\<close>

theorem static_export_exact:
  assumes "import_all rep nums now results new_eval_db = Some db" and "export_static_api stamp rep nums now results = Inr x"
    and "\<forall>r \<in> set (ed_runs db). plain_label (br_label r)"
  shows "set (xp_written x) =
      {List_runs} \<union> (\<lambda>r. Run_of (br_id r)) ` set (ed_runs db)
      \<union> {Task_of (br_id r) (sr_task_id t) | r t. r \<in> set (ed_runs db) \<and> t \<in> set (ed_results db) \<and> sr_run_id t = br_id r}
      \<union> {Compare (br_label r) (br_label s) | r s. r \<in> set (ed_runs db) \<and> s \<in> set (ed_runs db)}
    \<and> fst ` set (xp_files x) = request_file ` set (xp_written x)
    \<and> (\<forall>q \<in> set (xp_written x). \<exists>v. api_answer stamp rep db q = Inr v \<and> dict_get (xp_files x) (request_file q) = Some v)"
proof -
  have "list_all plain_request (emitted (export_actions db))"
    using assms(3) unfolding list_all_iff export_reads by (auto simp: plain_request_def)
  from perform_keeps [OF performed [OF assms(1,2)] _ _ this]
  have "answers_kept stamp rep db x" "xp_written x = emitted (export_actions db)"
    "fst ` set (xp_files x) = request_file ` set (emitted (export_actions db))"
    by (simp_all add: answers_kept_def)
  with export_reads [of db] show ?thesis unfolding answers_kept_def by simp
qed

text \<open>Two results files of one task, under two labels.\<close>

definition demo_file :: "string \<Rightarrow> bool \<Rightarrow> time option \<times> json" where
  "demo_file l ok =
     (None, JObj [(''label'', JStr l), (''provider'', JStr ''mock''), (''model'', JStr ''m''),
        (''tasks'', JList [JObj [(''task_id'', JStr ''t1''), (''category'', JStr ''bugfix''), (''difficulty'', JStr ''easy''),
           (''solved'', JBool ok), (''iterations'', JInt 2), (''total_tokens'', JInt 15)]])])"

definition demo_files :: "string \<Rightarrow> string \<Rightarrow> (time option \<times> json) list" where
  "demo_files l m = [demo_file l True, demo_file m False]"

definition demo_imported :: "string \<Rightarrow> string \<Rightarrow> eval_db option" where
  "demo_imported l m = import_all (\<lambda>_. []) demo_numbers 5 (demo_files l m) new_eval_db"

definition demo_export :: "string \<Rightarrow> string \<Rightarrow> api_error + exported" where
  "demo_export l m = export_static_api (\<lambda>_. []) (\<lambda>_. []) demo_numbers 5 (demo_files l m)"

lemma demo_imports:
  "map_option (\<lambda>db. map br_label (ed_runs db)) (demo_imported ''v1'' ''v2'') = Some [''v1'', ''v2'']"
  "map_option (\<lambda>db. map br_label (ed_runs db)) (demo_imported ''a'' ''a__a'') = Some [''a'', ''a__a'']"
  by code_simp+

lemma demo_exports:
  "map_sum id (length \<circ> xp_files) (demo_export ''v1'' ''v2'') = Inr 9"
  "map_sum id (length \<circ> xp_files) (demo_export ''a'' ''a__a'') = Inr 8"
  by code_simp+

theorem static_export_exact_witness:
  "\<exists>db x. demo_imported ''v1'' ''v2'' = Some db \<and> demo_export ''v1'' ''v2'' = Inr x
     \<and> Compare ''v2'' ''v1'' \<in> set (xp_written x) \<and> dict_get (xp_files x) ''runs.json'' = Some (list_runs (\<lambda>_. []) db)"
proof -
  obtain x where x: "demo_export ''v1'' ''v2'' = Inr x" using demo_exports(1) by (cases "demo_export ''v1'' ''v2''") auto
  obtain db where db: "demo_imported ''v1'' ''v2'' = Some db" and labels: "map br_label (ed_runs db) = [''v1'', ''v2'']"
    using demo_imports(1) by (cases "demo_imported ''v1'' ''v2''") auto
  have "\<not> contains_sub ''__'' (''v1'' @ ''_'')" "\<not> contains_sub ''__'' (''v2'' @ ''_'')" by code_simp+
  then have plain: "\<forall>r \<in> set (ed_runs db). plain_label (br_label r)"
    using labels by (auto simp: plain_label_def)
  note exact = static_export_exact [OF db [unfolded demo_imported_def] x [unfolded demo_export_def] plain]
  have "br_label ` set (ed_runs db) = {''v1'', ''v2''}" using arg_cong [OF labels, of set] by simp
  then have "''v2'' \<in> br_label ` set (ed_runs db)" "''v1'' \<in> br_label ` set (ed_runs db)" by simp_all
  then have w: "Compare ''v2'' ''v1'' \<in> set (xp_written x)" "List_runs \<in> set (xp_written x)"
    unfolding conjunct1 [OF exact] by fast+
  have kept: "\<forall>q \<in> set (xp_written x). \<exists>v. api_answer (\<lambda>_. []) (\<lambda>_. []) db q = Inr v
      \<and> dict_get (xp_files x) (request_file q) = Some v"
    using exact by blast
  from bspec [OF kept w(2)] x db w(1) show ?thesis by auto
qed

section \<open>One file, two reads\<close>

lemma perform_written: "perform stamp rep db as x = Inr y \<Longrightarrow> xp_written y = xp_written x @ emitted as"
  by (induction stamp rep db as x rule: perform.induct) (auto simp: emitted_def split: sum.splits if_splits)

text \<open>An answer to a comparison names the two runs.\<close>

lemma rows_label: "load_run_rows rep db b = Inr (l, rows) \<Longrightarrow> l = b"
  by (cases "filter (\<lambda>r. br_label r = b) (load_runs db)") (auto simp: load_run_rows_def dest: filter_eq_ConsD)

lemma compare_names:
  assumes "api_answer stamp rep db (Compare b c) = Inr v"
  shows "\<exists>fields. v = JObj ((''baseline_label'', JStr b) # (''candidate_label'', JStr c) # fields)"
proof -
  obtain l xs m ys d where rows: "load_run_rows (\<lambda>t. rep (JStr t)) db b = Inr (l, xs)"
      "load_run_rows (\<lambda>t. rep (JStr t)) db c = Inr (m, ys)"
    and d: "compare_runs l m xs ys = Inr d" "v = compare_response d"
    using assms by (auto simp: compare_answer_def split: sum.splits prod.splits)
  have "cm_baseline_label d = b" "cm_candidate_label d = c"
    using d(1) rows_label [OF rows(1)] rows_label [OF rows(2)] by (auto simp: compare_runs_def split: if_splits)
  then show ?thesis by (simp add: d(2) compare_response_def)
qed

text \<open>
  C39. Where the export goes wrong. Two different pairs of labels that read the same once joined with \<^verbatim>\<open>__\<close>, as \<open>a\<close>
  compared with \<open>a__a\<close> and \<open>a__a\<close> with \<open>a\<close>, share one file although their answers differ: the export ends without an
  error, lists both reads as written, and some file does not hold the answer to a read it is listed for.
\<close>

theorem export_clash:
  assumes "import_all rep nums now results new_eval_db = Some db" and "export_static_api stamp rep nums now results = Inr x"
    and "{b, c, b', c'} \<subseteq> br_label ` set (ed_runs db)" and "(b, c) \<noteq> (b', c')" and "b @ ''__'' @ c = b' @ ''__'' @ c'"
  shows "{Compare b c, Compare b' c'} \<subseteq> set (xp_written x)
    \<and> (\<exists>q \<in> {Compare b c, Compare b' c'}. \<exists>v. api_answer stamp rep db q = Inr v
         \<and> dict_get (xp_files x) (request_file q) \<noteq> Some v)"
proof -
  have written: "xp_written x = emitted (export_actions db)"
    using perform_written [OF performed [OF assms(1,2)]] by simp
  have "Compare l m \<in> set (xp_written x)" if "l \<in> br_label ` set (ed_runs db)" "m \<in> br_label ` set (ed_runs db)" for l m
    using that unfolding written export_reads by fast
  with assms(3) have both: "{Compare b c, Compare b' c'} \<subseteq> set (xp_written x)" by simp
  have answered: "\<exists>v. api_answer stamp rep db q = Inr v" if "q \<in> set (emitted as)" "perform stamp rep db as y = Inr z"
    for q as y z
    using that by (induction stamp rep db as y rule: perform.induct) (auto simp: emitted_def split: sum.splits if_splits)
  note answered = answered [OF _ performed [OF assms(1,2)], folded written]
  obtain v where v: "api_answer stamp rep db (Compare b c) = Inr v" using answered [of "Compare b c"] both by auto
  obtain v' where v': "api_answer stamp rep db (Compare b' c') = Inr v'" using answered [of "Compare b' c'"] both by auto
  have "v \<noteq> v'" using compare_names [OF v] compare_names [OF v'] assms(4) by auto
  moreover have "request_file (Compare b c) = request_file (Compare b' c')"
    using arg_cong [OF assms(5), of "\<lambda>t. ''compare/'' @ t @ ''.json''"] by simp
  ultimately have "\<not> (dict_get (xp_files x) (request_file (Compare b c)) = Some v
      \<and> dict_get (xp_files x) (request_file (Compare b' c')) = Some v')" by (metis option.inject)
  with both v v' show ?thesis by blast
qed

theorem export_clash_witness:
  "\<exists>db x. demo_imported ''a'' ''a__a'' = Some db \<and> demo_export ''a'' ''a__a'' = Inr x
     \<and> (\<exists>q v. q \<in> set (xp_written x) \<and> api_answer (\<lambda>_. []) (\<lambda>_. []) db q = Inr v
          \<and> dict_get (xp_files x) (request_file q) \<noteq> Some v)"
proof -
  obtain x where x: "demo_export ''a'' ''a__a'' = Inr x" using demo_exports(2) by (cases "demo_export ''a'' ''a__a''") auto
  obtain db where db: "demo_imported ''a'' ''a__a'' = Some db" and labels: "map br_label (ed_runs db) = [''a'', ''a__a'']"
    using demo_imports(2) by (cases "demo_imported ''a'' ''a__a''") auto
  have "{''a'', ''a__a'', ''a__a'', ''a''} \<subseteq> br_label ` set (ed_runs db)" using arg_cong [OF labels, of set] by auto
  from export_clash [OF db [unfolded demo_imported_def] x [unfolded demo_export_def] this] x db show ?thesis by auto
qed

end
