(* ===== verification/Chaos_Scenarios.thy ===== *)
theory Chaos_Scenarios
  imports Fleet_Failpoints
begin

text \<open>
  The fault scenarios of the chaos tests, \<^verbatim>\<open>chaos/scenarios.py\<close>: the effects a fault may be asked to leave,
  the scenarios themselves, and the failpoints each arms in the workers it starts. \<open>draw k\<close> is the \<open>k\<close>-th
  number \<^verbatim>\<open>rng.randint(*self.hits)\<close> gives. What is armed is text in a process's environment, which
  \<open>parse\<close> of the failpoints reads: the theorem follows an arming from the scenario to the fault.
\<close>

section \<open>The scenarios\<close>

definition EFFECTS :: "(string \<times> string) list" where
  "EFFECTS =
    [(''died'', ''the process the fault hit was killed''),
     (''survived'', ''the process the fault hit kept running to the end''),
     (''claim_undone'', ''the claim the fault interrupted left no attempt behind''),
     (''retried'', ''the attempt the fault hit ended with its lease lapsed, and a later one finished, or the job was dead-lettered there if it was its last''),
     (''same_attempt'', ''the attempt the fault hit went on to publish the job's result''),
     (''stands'', ''the result the attempt published before the fault stands, and nothing ran again''),
     (''fenced'', ''the paused worker woke to find its lease gone, and stopped the run''),
     (''refused'', ''the paused worker woke and tried to publish, and its late result was refused''),
     (''counted'', ''the worker counted the result it had committed as published, not refused''),
     (''unblocked'', ''the job a hung worker held mid-transaction was finished by another worker''),
     (''reaped_once'', ''each lapsed attempt the fault interrupted was ended once, by a later reap''),
     (''cancelled'', ''the job ended cancelled with no result, its attempt ended by the reaper''),
     (''one_batch'', ''the batch the client sent again exists once, and the client got it back''),
     (''all_survived'', ''every worker kept running to the end, through every restart'')]"

record scenario =
  sc_name :: string
  sc_point :: string
  sc_action :: string
  sc_summary :: string
  sc_effects :: "string list"
  sc_faults :: nat
  sc_workload :: string
  sc_execution :: string
  sc_hits :: "nat \<times> nat"
  sc_wake :: string
  sc_spares :: nat
  sc_replace :: string

text \<open>\<^verbatim>\<open>Scenario(name, point, action, summary, effects)\<close>, with the defaults of the other fields.\<close>

definition scenario_of :: "string \<Rightarrow> string \<Rightarrow> string \<Rightarrow> string \<Rightarrow> string list \<Rightarrow> scenario" where
  "scenario_of name point act summary effects =
     \<lparr>sc_name = name, sc_point = point, sc_action = act, sc_summary = summary, sc_effects = effects,
      sc_faults = 3, sc_workload = ''sleep'', sc_execution = ''process'', sc_hits = (1, 2), sc_wake = ''timer'',
      sc_spares = 0, sc_replace = ''at_once''\<rparr>"

text \<open>\<^verbatim>\<open>s.replace(c, "-")\<close> for a character.\<close>

definition dashed :: "char \<Rightarrow> string \<Rightarrow> string" where
  "dashed c s = map (\<lambda>x. if x = c then CHR ''-'' else x) s"

text \<open>\<^verbatim>\<open>_kill\<close>.\<close>

definition kill_at :: "string \<Rightarrow> string \<Rightarrow> string list \<Rightarrow> string \<Rightarrow> nat \<times> nat \<Rightarrow> string \<Rightarrow> scenario" where
  "kill_at point summary effects workload hits replaced =
     (let name = dashed (CHR ''_'') (dashed (CHR ''.'') point) @ ''-kill''
      in (scenario_of name point ''kill'' summary (''died'' # effects))
           \<lparr>sc_workload := workload, sc_hits := hits, sc_replace := replaced\<rparr>)"

definition SCENARIOS :: "scenario list" where
  "SCENARIOS =
    [kill_at ''claim.before'' ''a worker is killed as it is about to claim''
       [] ''sleep'' (1, 2) ''at_once'',
     kill_at ''claim.before_commit'' ''a worker is killed with its claim written but not committed''
       [''claim_undone''] ''sleep'' (1, 2) ''at_once'',
     scenario_of ''claim-before-commit-drop'' ''claim.before_commit'' ''drop''
       ''the connection drops with a claim written but not committed''
       [''survived''],
     (scenario_of ''claim-before-commit-hang'' ''claim.before_commit'' ''hang''
       ''a worker hangs for good with its claim written but not committed''
       [''unblocked''])
       \<lparr>sc_faults := 1, sc_hits := (1, 1)\<rparr>,
     kill_at ''claim.after_commit'' ''a worker is killed just after its claim commits''
       [''retried''] ''sleep'' (1, 2) ''at_once'',
     scenario_of ''claim-after-commit-drop'' ''claim.after_commit'' ''drop''
       ''a claim commits, but its answer never reaches the worker''
       [''survived'', ''retried''],
     kill_at ''start.after_commit'' ''a worker is killed just after it marks the job running''
       [''retried''] ''sleep'' (1, 2) ''at_once'',
     kill_at ''heartbeat.before'' ''a worker is killed mid-task''
       [''retried''] ''sleep'' (1, 2) ''at_once'',
     scenario_of ''heartbeat-before-stop'' ''heartbeat.before'' ''stop''
       ''a worker is paused mid-task until well past its lease''
       [''retried'', ''fenced''],
     scenario_of ''heartbeat-before-drop'' ''heartbeat.before'' ''drop''
       ''a heartbeat mid-task fails with the error a dropped connection raises''
       [''survived'', ''same_attempt''],
     kill_at ''publish.before_commit'' ''a worker is killed with its result written but not committed''
       [''retried''] ''sleep'' (1, 2) ''at_once'',
     (scenario_of ''publish-before-stop'' ''publish.before'' ''stop''
       ''a worker is paused well past its lease after its job ran, before it publishes''
       [''retried'', ''refused''])
       \<lparr>sc_workload := ''long'', sc_wake := ''overtaken'', sc_spares := 2\<rparr>,
     scenario_of ''publish-before-commit-stop'' ''publish.before_commit'' ''stop''
       ''a worker is paused well past its lease with its result written but not committed''
       [''retried''],
     (scenario_of ''publish-before-commit-hang'' ''publish.before_commit'' ''hang''
       ''a worker hangs for good with its result written but not committed''
       [''unblocked''])
       \<lparr>sc_faults := 1, sc_hits := (1, 1)\<rparr>,
     scenario_of ''publish-before-commit-drop'' ''publish.before_commit'' ''drop''
       ''the connection drops with a result written but not committed''
       [''survived'', ''same_attempt''],
     kill_at ''publish.after_commit'' ''a worker is killed just after its result commits''
       [''stands''] ''sleep'' (1, 2) ''at_once'',
     scenario_of ''publish-after-commit-drop'' ''publish.after_commit'' ''drop''
       ''a result commits, but its answer never reaches the worker''
       [''survived'', ''stands'', ''counted''],
     kill_at ''release.before_commit'' ''a worker is killed giving back a job whose runner crashed, before the commit''
       [''retried''] ''crash'' (1, 2) ''at_once'',
     kill_at ''reap.before_commit'' ''a worker is killed reaping lapsed leases, before the commit''
       [''reaped_once''] ''ghost'' (1, 1) ''after_faults'',
     kill_at ''cancel.before_commit'' ''a worker is killed ending a cancelled job, before the commit''
       [''cancelled''] ''cancel'' (1, 1) ''after_faults'',
     kill_at ''api.submit.after_commit'' ''the api is killed after a batch commits, before it answers''
       [''one_batch''] ''api'' (1, 2) ''at_once'',
     scenario_of ''postgres-restart'' ''postgres.restart'' ''restart''
       ''Postgres stops the way a crash would and starts again, mid-batch''
       [''all_survived''],
     (scenario_of ''agent-heartbeat-before-kill'' ''heartbeat.before'' ''kill''
       ''a worker is killed mid-task, running the real agent on recorded tasks''
       [''died'', ''retried''])
       \<lparr>sc_workload := ''agent''\<rparr>,
     (scenario_of ''agent-publish-before-commit-kill'' ''publish.before_commit'' ''kill''
       ''a worker is killed with an agent's result written but not committed''
       [''died'', ''retried''])
       \<lparr>sc_workload := ''agent''\<rparr>,
     (scenario_of ''container-heartbeat-before-kill'' ''heartbeat.before'' ''kill''
       ''a worker is killed mid-task while its job runs in a container of its own''
       [''died'', ''retried''])
       \<lparr>sc_execution := ''container''\<rparr>,
     (scenario_of ''container-publish-before-commit-kill'' ''publish.before_commit'' ''kill''
       ''a worker is killed with a container's result written but not committed''
       [''died'', ''retried''])
       \<lparr>sc_execution := ''container''\<rparr>]"

definition BY_NAME :: "(string \<times> scenario) list" where
  "BY_NAME = dict_of (map (\<lambda>s. (sc_name s, s)) SCENARIOS)"

section \<open>What a scenario arms\<close>

definition arms_nothing :: "scenario \<Rightarrow> bool" where
  "arms_nothing s \<longleftrightarrow> sc_point s \<in> set [''postgres.restart'', ''ghost.claim''] \<or> startswith (sc_point s) ''api.''"

definition armed_action :: "scenario \<Rightarrow> string" where
  "armed_action s = (if sc_action s = ''hang'' then ''stop'' else sc_action s)"

definition arms :: "scenario \<Rightarrow> (nat \<Rightarrow> nat) \<Rightarrow> string list" where
  "arms s draw =
     (if arms_nothing s then []
      else map (\<lambda>k. sc_point s @ ''='' @ armed_action s @ ''@'' @ show_nat (draw k)) [0..<sc_faults s])"

definition sound_scenario :: "scenario \<Rightarrow> bool" where
  "sound_scenario s \<longleftrightarrow>
     (arms_nothing s \<or> sc_point s \<in> set POINTS \<and> armed_action s \<in> set ACTIONS)
     \<and> 1 \<le> fst (sc_hits s) \<and> set (sc_effects s) \<subseteq> set (map fst EFFECTS)"

lemma scenarios_sound: "list_all sound_scenario SCENARIOS"
  by code_simp

lemma scenario_names: "distinct (map sc_name SCENARIOS)"
  by code_simp

lemma scenario_by_name: "s \<in> set SCENARIOS \<Longrightarrow> dict_get BY_NAME (sc_name s) = Some s"
  using scenario_names unfolding BY_NAME_def
  by (subst dict_of_distinct) (simp_all add: comp_def dict_get_distinct image_iff)

lemma parse_one:
  assumes "p \<in> set POINTS" and "act \<in> set ACTIONS" and "1 \<le> n"
  shows "parse (item_text p act n) = Inr [(p, \<lparr>action = act, hit = n, seen = 0\<rparr>)]"
  using parse_items [of "[(p, act, n)]"] assms by (simp add: dict_of_def)

text \<open>
  What a scenario arms happens: each text it puts in a worker's environment is read back there as one point
  to fire at, with a hit within the scenario's range, and a worker armed so meets the fault exactly when
  it reaches that point for that time; every effect the scenario then asks for is a known one.
\<close>

theorem scenario_faults_fire:
  assumes "s \<in> set SCENARIOS" and "\<And>k. draw k \<in> {fst (sc_hits s)..snd (sc_hits s)}" and "t \<in> set (arms s draw)"
  shows "\<exists>n \<in> {fst (sc_hits s)..snd (sc_hits s)}.
      parse t = Inr [(sc_point s, \<lparr>action = armed_action s, hit = n, seen = 0\<rparr>)]
      \<and> (\<forall>ps. fires (sc_point s) (snd (arrivals ps
              \<lparr>armed_points = [(sc_point s, \<lparr>action = armed_action s, hit = n, seen = 0\<rparr>)], fired = []\<rparr>))
            = (if n \<le> length (filter (\<lambda>(q, _). q = sc_point s) ps) then [armed_action s] else []))
      \<and> set (sc_effects s) \<subseteq> fst ` set EFFECTS"
proof -
  have sound: "sound_scenario s" using scenarios_sound assms(1) by (simp add: list_all_iff)
  from assms(3) obtain k where "\<not> arms_nothing s" and t: "t = item_text (sc_point s) (armed_action s) (draw k)"
    by (auto simp: arms_def item_text_def split: if_splits)
  with sound have p: "sc_point s \<in> set POINTS" "armed_action s \<in> set ACTIONS" and h: "1 \<le> fst (sc_hits s)"
    and e: "set (sc_effects s) \<subseteq> fst ` set EFFECTS"
    by (simp_all add: sound_scenario_def)
  have n: "1 \<le> draw k" using h assms(2) [of k] by simp
  let ?a = "\<lparr>action = armed_action s, hit = draw k, seen = 0\<rparr>"
  have "fires (sc_point s) (snd (arrivals ps \<lparr>armed_points = [(sc_point s, ?a)], fired = []\<rparr>)) =
      (if draw k \<le> length (filter (\<lambda>(q, _). q = sc_point s) ps) then [armed_action s] else [])" for ps
    using fires_on_its_hit [of "\<lparr>armed_points = [(sc_point s, ?a)], fired = []\<rparr>" "sc_point s" ?a ps] n
    by (simp add: fires_def)
  with parse_one [OF p n] assms(2) [of k] e show ?thesis unfolding t by blast
qed

theorem scenario_faults_fire_witness:
  "\<exists>n \<in> {1..2}. parse ''heartbeat.before=kill@2'' = Inr [(''heartbeat.before'', \<lparr>action = ''kill'', hit = n, seen = 0\<rparr>)]"
proof -
  let ?s = "kill_at ''heartbeat.before'' ''a worker is killed mid-task'' [''retried''] ''sleep'' (1, 2) ''at_once''"
  have s: "?s \<in> set SCENARIOS" unfolding SCENARIOS_def by simp
  have "arms ?s (\<lambda>_. 2) = replicate 3 ''heartbeat.before=kill@2''" by code_simp
  then have t: "''heartbeat.before=kill@2'' \<in> set (arms ?s (\<lambda>_. 2))" by simp
  have d: "2 \<in> {fst (sc_hits ?s)..snd (sc_hits ?s)}" by (simp add: kill_at_def scenario_of_def Let_def)
  from scenario_faults_fire [OF s d t] show ?thesis
    by (simp add: kill_at_def scenario_of_def armed_action_def Let_def) blast
qed

end
