(* ===== verification/Chaos_Checks.thy ===== *)
theory Chaos_Checks
  imports Chaos_Scenarios Fleet_Calls
begin

text \<open>
  What a chaos run is judged by, \<^verbatim>\<open>chaos/harness.py\<close>: the evidence read back once a batch has drained, the
  check of each effect a fault must leave, the check of published outcomes and the verdict.

  A logged fault is a record whose context is optional: a check that reads a part its failpoint did not
  log is a \<^verbatim>\<open>KeyError\<close>, the left of the sum, with the key. The text of a problem is data (\<open>problem\<close>, one
  constructor per message). The theorems evaluate the checks on a database the fleet can reach: which
  of them an honest fleet can fail at all, and when.
\<close>

section \<open>Faults and evidence\<close>

record fault =
  fa_point :: string
  fa_action :: string
  fa_pid :: int
  fa_job :: "int option"
  fa_attempt :: "int option"
  fa_jobs :: "int list option"
  fa_batch :: "int option"
  fa_process :: string
  fa_woke :: "string option"

record evidence =
  ev_taken :: snapshot
  ev_names :: "(int \<times> string) list"
  ev_divergences :: "(int \<times> string option) list"
  ev_jobs :: "(int \<times> chk_job) list"
  ev_attempts :: "((int \<times> int) \<times> chk_attempt) list"
  ev_results :: "(int \<times> chk_result) list"
  ev_exits :: "(string \<times> int option) list"
  ev_alive_at_end :: "string set"
  ev_logs :: "(string \<times> string) list"
  ev_submissions :: "(string \<times> int) list"
  ev_batches_by_key :: "(string \<times> int list) list"

text \<open>\<^verbatim>\<open>{key(x): x for x in xs}\<close>.\<close>

definition keyed :: "('a \<Rightarrow> 'k) \<Rightarrow> 'a list \<Rightarrow> ('k \<times> 'a) list" where
  "keyed k xs = dict_of (map (\<lambda>x. (k x, x)) xs)"

definition get_key :: "string \<Rightarrow> 'a option \<Rightarrow> ('a \<Rightarrow> string + 'b) \<Rightarrow> string + 'b" where
  "get_key name v use_it = (case v of None \<Rightarrow> Inl name | Some x \<Rightarrow> use_it x)"

section \<open>The checks of the effects\<close>

datatype problem =
    Ended_with string "int option"
  | Exited_with string "int option"
  | Kept_claim int int
  | No_attempt_by int int string
  | Not_by_lease int int "ending option"
  | Spent_last_yet int job_state int
  | Never_finished_later int job_state int
  | Result_not_from int int
  | Result_not_published_by int int
  | Ran_after_result int
  | Never_reported_lost string int
  | Never_refused string int
  | Counted_as_refused string int
  | Never_finished_while_hung int string
  | Finished_only_by_hung int string
  | Lapsed_not_reaped int
  | Never_finished_after_reap int
  | Not_cancelled_without_result int
  | Not_ended_by_reaper int int
  | Never_got_batch int
  | Key_made string "int list option"
  | Exited_during_run "string list"

type_synonym effect_check = "fault \<Rightarrow> evidence \<Rightarrow> string + problem option"

definition SIGKILL :: int where
  "SIGKILL = 9"

text \<open>\<^verbatim>\<open>dictionary.get(key)\<close> where the value may itself be \<^verbatim>\<open>None\<close>.\<close>

definition get_flat :: "('k \<times> 'v option) list \<Rightarrow> 'k \<Rightarrow> 'v option" where
  "get_flat d k = (case dict_get d k of None \<Rightarrow> None | Some v \<Rightarrow> v)"

definition the_log :: "fault \<Rightarrow> evidence \<Rightarrow> string" where
  "the_log f e = (case dict_get (ev_logs e) (fa_process f) of None \<Rightarrow> [] | Some l \<Rightarrow> l)"

definition died :: effect_check where
  "died f e =
     (let c = get_flat (ev_exits e) (fa_process f)
      in Inr (if c = Some (- SIGKILL) then None else Some (Ended_with (fa_process f) c)))"

definition survived :: effect_check where
  "survived f e =
     Inr (if fa_process f \<in> ev_alive_at_end e then None
          else Some (Exited_with (fa_process f) (get_flat (ev_exits e) (fa_process f))))"

definition claim_undone :: effect_check where
  "claim_undone f e =
     get_key ''job'' (fa_job f) (\<lambda>j. get_key ''attempt'' (fa_attempt f) (\<lambda>n.
       Inr (case dict_get (ev_attempts e) (j, n) of
              None \<Rightarrow> None
            | Some found \<Rightarrow> if ca_worker_id found = fa_process f then Some (Kept_claim j n) else None)))"

definition retried_problem :: "int \<Rightarrow> int \<Rightarrow> string \<Rightarrow> evidence \<Rightarrow> problem option" where
  "retried_problem j n process e =
     (case (dict_get (ev_attempts e) (j, n), dict_get (ev_jobs e) j) of
        (Some found, Some job) \<Rightarrow>
          if ca_worker_id found \<noteq> process then Some (No_attempt_by j n process)
          else if ca_ended_by found \<noteq> Some Lease_expired
          then Some (Not_by_lease (cj_id job) (ca_attempt found) (ca_ended_by found))
          else if ca_attempt found = cj_max_attempts job
          then (if cj_state job = Dead_lettered \<and> cj_attempt job = ca_attempt found then None
                else Some (Spent_last_yet (cj_id job) (cj_state job) (cj_attempt job)))
          else if cj_attempt job \<le> ca_attempt found \<or> cj_state job \<in> set UNFINISHED_STATES
          then Some (Never_finished_later (cj_id job) (cj_state job) (cj_attempt job))
          else None
      | _ \<Rightarrow> Some (No_attempt_by j n process))"

definition retried_check :: effect_check where
  "retried_check f e =
     get_key ''job'' (fa_job f) (\<lambda>j. get_key ''attempt'' (fa_attempt f) (\<lambda>n.
       Inr (retried_problem j n (fa_process f) e)))"

text \<open>A job without a result is reported before its fault's attempt is read, which the message then reads.\<close>

definition same_attempt :: effect_check where
  "same_attempt f e =
     get_key ''job'' (fa_job f) (\<lambda>j. get_key ''attempt'' (fa_attempt f) (\<lambda>n.
       Inr (case dict_get (ev_results e) j of
              None \<Rightarrow> Some (Result_not_from j n)
            | Some r \<Rightarrow> if cr_attempt r = n then None else Some (Result_not_from j n))))"

definition stands_problem :: "int \<Rightarrow> int \<Rightarrow> evidence \<Rightarrow> problem option" where
  "stands_problem j n e =
     (case (dict_get (ev_results e) j, dict_get (ev_jobs e) j) of
        (Some r, Some job) \<Rightarrow>
          if cr_attempt r \<noteq> n then Some (Result_not_published_by j n)
          else if cj_attempt job \<noteq> n then Some (Ran_after_result (cj_id job)) else None
      | _ \<Rightarrow> Some (Result_not_published_by j n))"

definition stands :: effect_check where
  "stands f e =
     get_key ''job'' (fa_job f) (\<lambda>j. get_key ''attempt'' (fa_attempt f) (\<lambda>n. Inr (stands_problem j n e)))"

definition fenced :: effect_check where
  "fenced f e =
     get_key ''job'' (fa_job f) (\<lambda>j.
       Inr (if contains_sub (''lost the lease on job '' @ show_int j) (the_log f e) then None
            else Some (Never_reported_lost (fa_process f) j)))"

definition refusal :: "fault \<Rightarrow> evidence \<Rightarrow> string + bool" where
  "refusal f e =
     get_key ''job'' (fa_job f) (\<lambda>j. get_key ''attempt'' (fa_attempt f) (\<lambda>n.
       Inr (contains_sub (''result for job '' @ show_int j @ '' attempt '' @ show_int n @ '' refused'') (the_log f e))))"

definition refused_check :: effect_check where
  "refused_check f e =
     (case refusal f e of
        Inl k \<Rightarrow> Inl k
      | Inr True \<Rightarrow> Inr None
      | Inr False \<Rightarrow> get_key ''job'' (fa_job f) (\<lambda>j. Inr (Some (Never_refused (fa_process f) j))))"

definition counted_check :: effect_check where
  "counted_check f e =
     (case refusal f e of
        Inl k \<Rightarrow> Inl k
      | Inr False \<Rightarrow> Inr None
      | Inr True \<Rightarrow> get_key ''job'' (fa_job f) (\<lambda>j. Inr (Some (Counted_as_refused (fa_process f) j))))"

definition unblocked_problem :: "int \<Rightarrow> string \<Rightarrow> evidence \<Rightarrow> problem option" where
  "unblocked_problem j process e =
     (case dict_get (ev_jobs e) j of
        None \<Rightarrow> Some (Never_finished_while_hung j process)
      | Some job \<Rightarrow>
          if cj_state job \<in> set UNFINISHED_STATES then Some (Never_finished_while_hung j process)
          else (case dict_get (ev_results e) j of
                  None \<Rightarrow> None
                | Some r \<Rightarrow> if cr_worker_id r = process then Some (Finished_only_by_hung (cj_id job) process) else None))"

definition unblocked :: effect_check where
  "unblocked f e = get_key ''job'' (fa_job f) (\<lambda>j. Inr (unblocked_problem j (fa_process f) e))"

definition reaped_problem :: "evidence \<Rightarrow> int \<Rightarrow> problem option" where
  "reaped_problem e i =
     (let lapsed = map snd (filter (\<lambda>((j, _), _). j = i) (ev_attempts e));
          ghost = filter (\<lambda>a. ca_worker_id a = ''ghost'') lapsed
      in if ghost = [] \<or> list_ex (\<lambda>a. ca_ended_by a \<noteq> Some Lease_expired) ghost then Some (Lapsed_not_reaped i)
         else case dict_get (ev_jobs e) i of
                None \<Rightarrow> Some (Never_finished_after_reap i)
              | Some job \<Rightarrow>
                  if cj_state job \<in> set UNFINISHED_STATES then Some (Never_finished_after_reap i) else None)"

fun first_problem :: "('a \<Rightarrow> problem option) \<Rightarrow> 'a list \<Rightarrow> problem option" where
  "first_problem p [] = None"
| "first_problem p (x # xs) = (case p x of None \<Rightarrow> first_problem p xs | Some y \<Rightarrow> Some y)"

definition reaped_once :: effect_check where
  "reaped_once f e = get_key ''jobs'' (fa_jobs f) (\<lambda>is. Inr (first_problem (reaped_problem e) is))"

definition cancelled_problem :: "int \<Rightarrow> int \<Rightarrow> evidence \<Rightarrow> problem option" where
  "cancelled_problem j n e =
     (case dict_get (ev_jobs e) j of
        None \<Rightarrow> Some (Not_cancelled_without_result j)
      | Some job \<Rightarrow>
          if cj_state job \<noteq> Cancelled \<or> dict_get (ev_results e) j \<noteq> None
          then Some (Not_cancelled_without_result j)
          else (case dict_get (ev_attempts e) (j, n) of
                  None \<Rightarrow> Some (Not_ended_by_reaper (cj_id job) n)
                | Some found \<Rightarrow>
                    if ca_ended_by found \<noteq> Some Lease_expired then Some (Not_ended_by_reaper (cj_id job) n) else None))"

definition cancelled_check :: effect_check where
  "cancelled_check f e =
     get_key ''job'' (fa_job f) (\<lambda>j. get_key ''attempt'' (fa_attempt f) (\<lambda>n. Inr (cancelled_problem j n e)))"

definition one_batch_problem :: "int \<Rightarrow> evidence \<Rightarrow> problem option" where
  "one_batch_problem b e =
     (case map fst (filter (\<lambda>(_, x). x = b) (ev_submissions e)) of
        [k] \<Rightarrow> if dict_get (ev_batches_by_key e) k \<noteq> Some [b]
               then Some (Key_made k (dict_get (ev_batches_by_key e) k)) else None
      | _ \<Rightarrow> Some (Never_got_batch b))"

definition one_batch :: effect_check where
  "one_batch f e = get_key ''batch'' (fa_batch f) (\<lambda>b. Inr (one_batch_problem b e))"

definition all_survived :: effect_check where
  "all_survived f e =
     (let lost = sort (filter (\<lambda>n. startswith n ''w'' \<and> n \<notin> ev_alive_at_end e) (dict_keys (ev_exits e)))
      in Inr (if lost = [] then None else Some (Exited_during_run lost)))"

definition EFFECT_CHECKS :: "(string \<times> effect_check) list" where
  "EFFECT_CHECKS =
     [(''died'', died), (''survived'', survived), (''claim_undone'', claim_undone), (''retried'', retried_check),
      (''same_attempt'', same_attempt), (''stands'', stands), (''fenced'', fenced), (''refused'', refused_check),
      (''counted'', counted_check), (''unblocked'', unblocked), (''reaped_once'', reaped_once),
      (''cancelled'', cancelled_check), (''one_batch'', one_batch), (''all_survived'', all_survived)]"

section \<open>Reading the evidence\<close>

text \<open>\<^verbatim>\<open>body->>'divergence'\<close>, for the string or null a result holds there.\<close>

definition body_divergence :: "json \<Rightarrow> string option" where
  "body_divergence body = (case obj_get body ''divergence'' of Some (JStr s) \<Rightarrow> Some s | _ \<Rightarrow> None)"

definition add_batch :: "batch_row \<Rightarrow> (string \<times> int list) list \<Rightarrow> (string \<times> int list) list" where
  "add_batch b m =
     (case b_idempotency_key b of
        None \<Rightarrow> m
      | Some k \<Rightarrow> dict_put m k ((case dict_get m k of None \<Rightarrow> [] | Some ids \<Rightarrow> ids) @ [b_id b]))"

definition evidence_of ::
  "int list \<Rightarrow> snapshot \<Rightarrow> db \<Rightarrow> (string \<times> int option) list \<Rightarrow> string set \<Rightarrow> (string \<times> string) list
    \<Rightarrow> (string \<times> int) list \<Rightarrow> evidence" where
  "evidence_of ids taken d exits alive logs submissions =
     \<lparr>ev_taken = taken,
      ev_names = dict_of (map (\<lambda>j. (j_id j, j_name j)) (filter (\<lambda>j. j_id j \<in> set ids) (jobs d))),
      ev_divergences = dict_of (map (\<lambda>r. (r_job_id r, body_divergence (r_body r)))
        (filter (\<lambda>r. r_job_id r \<in> set ids) (results d))),
      ev_jobs = keyed cj_id (sn_jobs taken),
      ev_attempts = keyed (\<lambda>a. (ca_job_id a, ca_attempt a)) (sn_attempts taken),
      ev_results = keyed cr_job_id (sn_results taken),
      ev_exits = exits, ev_alive_at_end = alive, ev_logs = logs, ev_submissions = submissions,
      ev_batches_by_key = fold add_batch (batches d) []\<rparr>"

section \<open>The verdict\<close>

record plan =
  pl_batches :: "new_job list list"
  pl_keys :: "(string \<times> string) list"
  pl_outcomes :: "(string \<times> outcome) list"
  pl_long_jobs :: "string set"

datatype outcome_problem =
    Published_other int string "outcome option" outcome
  | Diverged int string string

definition outcome_problems :: "plan \<Rightarrow> evidence \<Rightarrow> int \<times> string \<Rightarrow> outcome_problem list" where
  "outcome_problems p e job =
     (let (i, name) = job
      in case dict_get (pl_outcomes p) name of
           None \<Rightarrow> []
         | Some expected \<Rightarrow>
             (case dict_get (ev_results e) i of
                None \<Rightarrow> [Published_other i name None expected]
              | Some r \<Rightarrow> if cr_outcome r \<noteq> expected then [Published_other i name (Some (cr_outcome r)) expected] else [])
             @ (case get_flat (ev_divergences e) i of
                  None \<Rightarrow> []
                | Some x \<Rightarrow> if x \<noteq> [] then [Diverged i name x] else []))"

definition outcome_checks :: "plan \<Rightarrow> evidence \<Rightarrow> outcome_problem list" where
  "outcome_checks p e = concat (map (outcome_problems p e) (sort (ev_names e)))"

fun effect_problems :: "evidence \<Rightarrow> (fault \<times> string) list \<Rightarrow> string + (string \<times> problem) list" where
  "effect_problems e [] = Inr []"
| "effect_problems e ((f, eff) # fs) =
     (case dict_get EFFECT_CHECKS eff of
        None \<Rightarrow> Inl eff
      | Some chk \<Rightarrow>
          (case chk f e of
             Inl k \<Rightarrow> Inl k
           | Inr found \<Rightarrow>
               map_sum id ((@) (case found of None \<Rightarrow> [] | Some p \<Rightarrow> [(eff, p)])) (effect_problems e fs)))"

datatype chaos_problem =
    Faults_happened nat nat
  | Woke_early string "int option"
  | Not_drained
  | Containers_left nat

definition chaos_problems :: "scenario \<Rightarrow> nat \<Rightarrow> fault list \<Rightarrow> bool \<Rightarrow> nat \<Rightarrow> chaos_problem list" where
  "chaos_problems s planned own drained containers_left =
     (if length own \<noteq> planned then [Faults_happened (length own) planned] else [])
     @ [Woke_early (fa_process f) (fa_job f). f \<leftarrow> own, sc_wake s = ''overtaken'' \<and> fa_woke f \<noteq> Some ''overtaken'']
     @ (if \<not> drained then [Not_drained] else [])
     @ (if containers_left > 0 then [Containers_left containers_left] else [])"

record verdict =
  vd_invariants :: "violation list"
  vd_outcomes :: "outcome_problem list"
  vd_effects :: "(string \<times> problem) list"
  vd_chaos :: "chaos_problem list"

definition expected_keys :: "plan \<Rightarrow> evidence \<Rightarrow> (int \<times> string option) list" where
  "expected_keys p e =
     [(i, Some k). (i, name) \<leftarrow> ev_names e, Some k \<leftarrow> [dict_get (pl_keys p) name]]"

definition verdict_of ::
  "scenario \<Rightarrow> nat \<Rightarrow> fault list \<Rightarrow> plan \<Rightarrow> int list \<Rightarrow> evidence \<Rightarrow> bool \<Rightarrow> nat \<Rightarrow> string + verdict" where
  "verdict_of s planned faults p ids e drained containers_left =
     (let ks = expected_keys p e;
          invs = check (ev_taken e) ids (if ks = [] then None else Some (get_flat ks));
          own = filter (\<lambda>f. fa_point f = sc_point s) faults
      in map_sum id
           (\<lambda>effs. \<lparr>vd_invariants = invs, vd_outcomes = outcome_checks p e, vd_effects = effs,
                     vd_chaos = chaos_problems s planned own drained containers_left\<rparr>)
           (effect_problems e (List.product own (sc_effects s))))"

definition verdict_passed :: "verdict \<Rightarrow> bool" where
  "verdict_passed v \<longleftrightarrow> vd_invariants v = [] \<and> vd_outcomes v = [] \<and> vd_effects v = [] \<and> vd_chaos v = []"

section \<open>What the evidence of a drained run says\<close>

lemma keyed_get:
  assumes "distinct (map k xs)"
  shows "dict_get (keyed k xs) i = Some x \<longleftrightarrow> x \<in> set xs \<and> k x = i"
proof
  assume "dict_get (keyed k xs) i = Some x"
  then have "(i, x) \<in> set (map (\<lambda>x. (k x, x)) xs)"
    unfolding keyed_def by (blast dest: dict_get_mem set_dict_of)
  then show "x \<in> set xs \<and> k x = i" by auto
next
  assume "x \<in> set xs \<and> k x = i"
  then show "dict_get (keyed k xs) i = Some x" using dict_get_last [OF assms] by (force simp: keyed_def)
qed

lemma keyed_None:
  assumes "distinct (map k xs)"
  shows "dict_get (keyed k xs) i = None \<longleftrightarrow> (\<forall>x \<in> set xs. k x \<noteq> i)"
  using keyed_get [OF assms, of i] by (cases "dict_get (keyed k xs) i") auto

lemma mset_rows:
  assumes "mset xs = mset (map f (filter P ys))"
  shows "x \<in> set xs \<longleftrightarrow> (\<exists>y \<in> set ys. P y \<and> x = f y)"
proof -
  have "set xs = set (map f (filter P ys))" using assms by (rule mset_eq_setD)
  then show ?thesis by auto
qed

lemma mset_keys_distinct:
  assumes "mset xs = mset (map f (filter P ys))" and "\<And>y. k (f y) = g y" and "distinct (map g ys)"
  shows "distinct (map k xs)"
proof -
  have "mset (map k xs) = mset (map g (filter P ys))"
    using assms(1) by (simp add: image_mset.compositionality comp_def assms(2))
  moreover have "distinct (map g (filter P ys))" using assms(3) by (rule distinct_map_filter)
  ultimately show ?thesis using mset_eq_imp_distinct_iff by blast
qed

text \<open>What each look-up of the evidence finds, in terms of the database it was read from.\<close>

lemma evidence_rows:
  assumes inv: "db_inv now d" and run: "is_snapshot ids d taken" and i: "i \<in> set ids"
    and e: "e = evidence_of ids taken d exits alive logs subs"
  shows "dict_get (ev_jobs e) i = Some c \<longleftrightarrow> (\<exists>j \<in> set (jobs d). j_id j = i \<and> c = chk_job_of j)"
    and "dict_get (ev_attempts e) (i, n) = Some a \<longleftrightarrow>
      (\<exists>x \<in> set (attempts d). a_job_id x = i \<and> a_attempt x = n \<and> a = chk_attempt_of x)"
    and "dict_get (ev_results e) i = Some r \<longleftrightarrow> (\<exists>x \<in> set (results d). r_job_id x = i \<and> r = chk_result_of x)"
    and "distinct (map (\<lambda>a. (ca_job_id a, ca_attempt a)) (sn_attempts taken))"
proof -
  note keys = inv_keys [OF inv, unfolded keys_ok_def]
  have m: "mset (sn_jobs taken) = mset (map chk_job_of (filter (\<lambda>j. j_id j \<in> set ids) (jobs d)))"
    "mset (sn_attempts taken) = mset (map chk_attempt_of (filter (\<lambda>a. a_job_id a \<in> set ids) (attempts d)))"
    "mset (sn_results taken) = mset (map chk_result_of (filter (\<lambda>r. r_job_id r \<in> set ids) (results d)))"
    using run by (simp_all add: is_snapshot_def snapshot_of_def)
  have "distinct (map cj_id (sn_jobs taken))"
    by (rule mset_keys_distinct [OF m(1), where g = j_id]) (simp_all add: chk_simps keys)
  moreover have "distinct (map cr_job_id (sn_results taken))"
    by (rule mset_keys_distinct [OF m(3), where g = r_job_id]) (simp_all add: chk_simps keys)
  moreover show "distinct (map (\<lambda>a. (ca_job_id a, ca_attempt a)) (sn_attempts taken))"
    by (rule mset_keys_distinct [OF m(2), where g = "\<lambda>a. (a_job_id a, a_attempt a)"]) (simp_all add: chk_simps keys)
  ultimately show "dict_get (ev_jobs e) i = Some c \<longleftrightarrow> (\<exists>j \<in> set (jobs d). j_id j = i \<and> c = chk_job_of j)"
    and "dict_get (ev_attempts e) (i, n) = Some a \<longleftrightarrow>
      (\<exists>x \<in> set (attempts d). a_job_id x = i \<and> a_attempt x = n \<and> a = chk_attempt_of x)"
    and "dict_get (ev_results e) i = Some r \<longleftrightarrow> (\<exists>x \<in> set (results d). r_job_id x = i \<and> r = chk_result_of x)"
    using i by (auto simp: e evidence_of_def keyed_get mset_rows [OF m(1)] mset_rows [OF m(2)] mset_rows [OF m(3)] chk_simps)
qed

lemma evidence_attempts_of:
  assumes inv: "db_inv now d" and run: "is_snapshot ids d taken" and i: "i \<in> set ids"
    and e: "e = evidence_of ids taken d exits alive logs subs"
  shows "ca \<in> set (map snd (filter (\<lambda>((j, _), _). j = i) (ev_attempts e))) \<longleftrightarrow>
    (\<exists>x \<in> set (attempts d). a_job_id x = i \<and> ca = chk_attempt_of x)"
proof -
  note d = evidence_rows(4) [OF inv run i e]
  have "mset (sn_attempts taken) = mset (map chk_attempt_of (filter (\<lambda>a. a_job_id a \<in> set ids) (attempts d)))"
    using run by (simp add: is_snapshot_def snapshot_of_def)
  note rows = mset_rows [OF this]
  have "ev_attempts e = map (\<lambda>a. ((ca_job_id a, ca_attempt a), a)) (sn_attempts taken)"
    using d by (simp add: e evidence_of_def keyed_def dict_of_distinct comp_def)
  then show ?thesis using i by (auto simp: rows chk_simps image_iff)
qed

text \<open>An attempt whose lease lapsed is never a job's last one, unless that job was buried or cancelled there.\<close>

lemma lapsed_attempt:
  assumes inv: "db_inv now d" and j: "j \<in> set (jobs d)" and a: "a \<in> set (attempts d)" "a_job_id a = j_id j"
    and ended: "a_ended_by a = Some Lease_expired" and fin: "j_state j \<in> set FINAL_STATES"
  shows "a_attempt a \<le> j_attempt j" and "j_attempt j \<le> j_max_attempts j"
    and "a_attempt a = j_attempt j \<Longrightarrow>
      j_state j = Cancelled \<or> j_state j = Dead_lettered \<and> j_attempt j = j_max_attempts j"
proof -
  note ok = inv_job [OF inv j]
  have l: "a \<in> set (log_of (j_id j) d)" using a by (simp add: log_of_def)
  then have "a_attempt a \<in> set [1..j_attempt j]" using ok by (metis image_eqI job_ok_def list.set_map)
  then show "a_attempt a \<le> j_attempt j" by simp
  show "j_attempt j \<le> j_max_attempts j" using ok by (simp add: job_ok_def job_checks_def)
  assume n: "a_attempt a = j_attempt j"
  have nums: "map a_attempt (log_of (j_id j) d) = [1..j_attempt j]" using ok by (simp add: job_ok_def)
  have "last (log_of (j_id j) d) = a"
  proof -
    let ?l = "log_of (j_id j) d"
    have ne: "?l \<noteq> []" using l by auto
    then have "a_attempt (last ?l) = j_attempt j" using log_last [OF nums ne] by simp
    moreover have "distinct (map a_attempt ?l)" by (simp add: nums)
    ultimately show ?thesis using n l ne by (metis distinct_map inj_onD last_in_set)
  qed
  with ok fin ended l show "j_state j = Cancelled \<or> j_state j = Dead_lettered \<and> j_attempt j = j_max_attempts j"
    by (cases rule: final_state_cases [OF fin])
       (auto simp: job_ok_def state_ok_def result_ok_def state_list_defs split: list.splits)
qed

lemma result_of_job:
  assumes inv: "db_inv now d" and j: "j \<in> set (jobs d)" and r: "r \<in> set (results d)" "r_job_id r = j_id j"
  shows "r_attempt r = j_attempt j" and "j_state j \<in> set result_states"
proof -
  note ok = inv_job [OF inv j]
  have m: "r \<in> set (results_of (j_id j) d)" using r by (simp add: results_of_def)
  then show "r_attempt r = j_attempt j"
    using ok by (auto simp: job_ok_def state_ok_def result_ok_def split: if_splits list.splits)
  show "j_state j \<in> set result_states"
    using ok m by (cases "j_state j") (auto simp: job_ok_def state_ok_def state_list_defs)
qed

lemma final_not_unfinished: "s \<in> set FINAL_STATES \<Longrightarrow> s \<notin> set UNFINISHED_STATES"
  by (cases s) (simp_all add: chk_states UNFINISHED_STATES_def)

lemma batches_by_key:
  "dict_get (fold add_batch bs m) k =
     (let new = map b_id (filter (\<lambda>b. b_idempotency_key b = Some k) bs)
      in if new = [] then dict_get m k
         else Some ((case dict_get m k of None \<Rightarrow> [] | Some is \<Rightarrow> is) @ new))"
  by (induction bs arbitrary: m) (auto simp: add_batch_def Let_def split: option.splits)

lemma batch_of_key:
  assumes "db_inv now d"
  shows "dict_get (fold add_batch (batches d) []) k = Some [b]
    \<longleftrightarrow> (\<exists>x \<in> set (batches d). b_idempotency_key x = Some k \<and> b_id x = b)"
proof -
  have "distinct (filter (\<lambda>k. k \<noteq> None) (map b_idempotency_key (batches d)))"
    using inv_keys [OF assms] by (simp add: keys_ok_def)
  then have "length (filter (\<lambda>x. b_idempotency_key x = Some k) (batches d)) \<le> 1"
  proof (induction "batches d" arbitrary: d)
    case (Cons x xs)
    then have "length (filter (\<lambda>x. b_idempotency_key x = Some k) xs) \<le> 1"
      using Cons.hyps(1) [of "d\<lparr>batches := xs\<rparr>"] Cons.hyps(2) [symmetric] by (simp split: if_splits)
    moreover have "filter (\<lambda>x. b_idempotency_key x = Some k) xs = []" if "b_idempotency_key x = Some k"
      using Cons.prems that unfolding Cons.hyps(2) [symmetric] by (auto simp: filter_empty_conv image_iff)
    ultimately show ?case unfolding Cons.hyps(2) [symmetric] by simp
  qed simp
  then consider (none) "filter (\<lambda>x. b_idempotency_key x = Some k) (batches d) = []"
    | (one) x where "filter (\<lambda>x. b_idempotency_key x = Some k) (batches d) = [x]"
    by (cases "filter (\<lambda>x. b_idempotency_key x = Some k) (batches d)") auto
  then show ?thesis
  proof cases
    case none
    then show ?thesis by (auto simp: batches_by_key filter_empty_conv)
  next
    case one
    have only: "{y \<in> set (batches d). b_idempotency_key y = Some k} = {x}"
      using arg_cong [OF one, of set] by simp
    have "(\<exists>y \<in> set (batches d). b_idempotency_key y = Some k \<and> b_id y = b) \<longleftrightarrow>
        (\<exists>y \<in> {y \<in> set (batches d). b_idempotency_key y = Some k}. b_id y = b)" by blast
    also have "\<dots> \<longleftrightarrow> b_id x = b" unfolding only by simp
    finally show ?thesis by (simp add: batches_by_key one)
  qed
qed

section \<open>What the checks of a drained run can find\<close>

text \<open>The facts the checks ask of the database, for a job of the run and an attempt of a worker.\<close>

definition attempt_ended :: "db \<Rightarrow> int \<Rightarrow> int \<Rightarrow> string \<Rightarrow> ending \<Rightarrow> bool" where
  "attempt_ended d i n w how \<longleftrightarrow>
     (\<exists>a \<in> set (attempts d). a_job_id a = i \<and> a_attempt a = n \<and> a_worker_id a = w \<and> a_ended_by a = Some how)"

definition cancelled_there :: "db \<Rightarrow> int \<Rightarrow> int \<Rightarrow> bool" where
  "cancelled_there d i n \<longleftrightarrow> (\<exists>j \<in> set (jobs d). j_id j = i \<and> j_state j = Cancelled \<and> j_attempt j = n)"

definition drained :: "int list \<Rightarrow> db \<Rightarrow> bool" where
  "drained ids d \<longleftrightarrow>
     distinct ids \<and> set ids \<subseteq> j_id ` set (jobs d)
     \<and> (\<forall>j \<in> set (jobs d). j_id j \<in> set ids \<longrightarrow> j_state j \<in> set FINAL_STATES)"

lemma drained_job:
  assumes "db_inv now d" and "drained ids d" and "i \<in> set ids"
  obtains j where "j \<in> set (jobs d)" "j_id j = i" "j_state j \<in> set FINAL_STATES"
proof -
  from assms(2,3) obtain j where "j \<in> set (jobs d)" "j_id j = i" by (auto simp: drained_def)
  with assms that show thesis by (auto simp: drained_def)
qed

lemma only_row:
  assumes "x \<in> S" and "Q x" and "\<And>y. y \<in> S \<Longrightarrow> Q y \<Longrightarrow> y = x"
  shows "(\<exists>y \<in> S. Q y \<and> P y) \<longleftrightarrow> P x"
  using assms by blast

lemma the_attempt:
  assumes "db_inv now d" and "a \<in> set (attempts d)" and "a_job_id a = i" and "a_attempt a = n"
  shows "attempt_ended d i n w how \<longleftrightarrow> a_worker_id a = w \<and> a_ended_by a = Some how"
proof -
  have "x = a" if "x \<in> set (attempts d)" "a_job_id x = i \<and> a_attempt x = n" for x
    using that assms inv_keys [OF assms(1)] by (auto simp: keys_ok_def distinct_map inj_on_def)
  then have "(\<exists>x \<in> set (attempts d). (a_job_id x = i \<and> a_attempt x = n) \<and> a_worker_id x = w \<and> a_ended_by x = Some how)
      \<longleftrightarrow> a_worker_id a = w \<and> a_ended_by a = Some how"
    by (intro only_row [where x = a and Q = "\<lambda>x. a_job_id x = i \<and> a_attempt x = n"] conjI assms(2-4))
  then show ?thesis by (simp only: attempt_ended_def conj_assoc)
qed

lemma the_result:
  assumes "db_inv now d" and "r \<in> set (results d)" and "r_job_id r = i"
  shows "(\<exists>x \<in> set (results d). r_job_id x = i \<and> P x) \<longleftrightarrow> P r"
  using assms results_per_job [OF assms(1)] by (intro only_row) auto

lemma the_final_job:
  assumes "db_inv now d" and "j \<in> set (jobs d)" and "j_id j = i"
  shows "(\<exists>x \<in> set (jobs d). j_id x = i \<and> P x) \<longleftrightarrow> P j"
  using assms job_unique [OF inv_tables [OF assms(1)]] by (intro only_row) auto

lemma retried_exact:
  assumes inv: "db_inv now d" and drained: "drained ids d" and run: "is_snapshot ids d taken"
    and i: "i \<in> set ids" and e: "e = evidence_of ids taken d exits alive logs subs"
  shows "retried_problem i n w e = None \<longleftrightarrow> attempt_ended d i n w Lease_expired \<and> \<not> cancelled_there d i n"
proof -
  note rows = evidence_rows [OF inv run i e]
  obtain j where j: "j \<in> set (jobs d)" "j_id j = i" and fin: "j_state j \<in> set FINAL_STATES"
    by (rule drained_job [OF inv drained i]) blast
  have jb: "dict_get (ev_jobs e) i = Some (chk_job_of j)" using rows(1) j by blast
  show ?thesis
  proof (cases "dict_get (ev_attempts e) (i, n)")
    case None
    then have "\<not> attempt_ended d i n w Lease_expired" using rows(2) [of n] by (auto simp: attempt_ended_def)
    with None show ?thesis by (simp add: retried_problem_def)
  next
    case (Some c)
    then obtain a where a: "a \<in> set (attempts d)" "a_job_id a = i" "a_attempt a = n" and c: "c = chk_attempt_of a"
      using rows(2) by blast
    note ended = the_attempt [OF inv a]
    have there: "cancelled_there d i n \<longleftrightarrow> j_state j = Cancelled \<and> j_attempt j = n"
      unfolding cancelled_there_def by (rule the_final_job [OF inv j])
    show ?thesis
    proof (cases "a_worker_id a = w \<and> a_ended_by a = Some Lease_expired")
      case True
      note lapsed = lapsed_attempt [OF inv j(1) a(1) _ _ fin]
      have "a_attempt a \<le> j_attempt j" "j_attempt j \<le> j_max_attempts j"
        "a_attempt a = j_attempt j \<Longrightarrow> j_state j = Cancelled \<or> j_state j = Dead_lettered \<and> j_attempt j = j_max_attempts j"
        using lapsed a j True by simp_all
      then show ?thesis
        using True a j fin final_not_unfinished [OF fin] unfolding ended there
        by (auto simp: retried_problem_def Some jb c chk_simps)
    next
      case False
      then show ?thesis unfolding ended by (auto simp: retried_problem_def Some jb c chk_simps)
    qed
  qed
qed

lemma stands_exact:
  assumes inv: "db_inv now d" and drained: "drained ids d" and run: "is_snapshot ids d taken"
    and i: "i \<in> set ids" and e: "e = evidence_of ids taken d exits alive logs subs"
  shows "stands_problem i n e = None \<longleftrightarrow> (\<exists>r \<in> set (results d). r_job_id r = i \<and> r_attempt r = n)"
proof -
  note rows = evidence_rows [OF inv run i e]
  obtain j where j: "j \<in> set (jobs d)" "j_id j = i" by (rule drained_job [OF inv drained i]) blast
  have jb: "dict_get (ev_jobs e) i = Some (chk_job_of j)" using rows(1) j by blast
  show ?thesis
  proof (cases "dict_get (ev_results e) i")
    case None
    then show ?thesis using rows(3) by (auto simp: stands_problem_def)
  next
    case (Some c)
    then obtain r where r: "r \<in> set (results d)" "r_job_id r = i" and c: "c = chk_result_of r" using rows(3) by blast
    have "r_attempt r = j_attempt j" using result_of_job(1) [OF inv j(1) r(1)] r j by simp
    then show ?thesis unfolding the_result [OF inv r] by (simp add: stands_problem_def Some jb c chk_simps)
  qed
qed

lemma unblocked_exact:
  assumes inv: "db_inv now d" and drained: "drained ids d" and run: "is_snapshot ids d taken"
    and i: "i \<in> set ids" and e: "e = evidence_of ids taken d exits alive logs subs"
  shows "unblocked_problem i w e = None \<longleftrightarrow> \<not> (\<exists>r \<in> set (results d). r_job_id r = i \<and> r_worker_id r = w)"
proof -
  note rows = evidence_rows [OF inv run i e]
  obtain j where j: "j \<in> set (jobs d)" "j_id j = i" and fin: "j_state j \<in> set FINAL_STATES"
    by (rule drained_job [OF inv drained i]) blast
  have jb: "dict_get (ev_jobs e) i = Some (chk_job_of j)" using rows(1) j by blast
  have open_free: "cj_state (chk_job_of j) \<notin> set UNFINISHED_STATES"
    using final_not_unfinished [OF fin] by (simp add: chk_simps)
  show ?thesis
  proof (cases "dict_get (ev_results e) i")
    case None
    then show ?thesis using rows(3) open_free by (auto simp: unblocked_problem_def jb)
  next
    case (Some c)
    then obtain r where r: "r \<in> set (results d)" "r_job_id r = i" and c: "c = chk_result_of r" using rows(3) by blast
    show ?thesis unfolding the_result [OF inv r] using open_free by (simp add: unblocked_problem_def Some jb c chk_simps)
  qed
qed

lemma reaped_exact:
  assumes inv: "db_inv now d" and drained: "drained ids d" and run: "is_snapshot ids d taken"
    and i: "i \<in> set ids" and e: "e = evidence_of ids taken d exits alive logs subs"
  shows "reaped_problem e i = None \<longleftrightarrow>
    (\<exists>a \<in> set (attempts d). a_job_id a = i \<and> a_worker_id a = ''ghost'')
    \<and> (\<forall>a \<in> set (attempts d). a_job_id a = i \<longrightarrow> a_worker_id a = ''ghost'' \<longrightarrow> a_ended_by a = Some Lease_expired)"
proof -
  obtain j where j: "j \<in> set (jobs d)" "j_id j = i" and fin: "j_state j \<in> set FINAL_STATES"
    by (rule drained_job [OF inv drained i]) blast
  have jb: "dict_get (ev_jobs e) i = Some (chk_job_of j)" using evidence_rows(1) [OF inv run i e] j by blast
  have open_free: "cj_state (chk_job_of j) \<notin> set UNFINISHED_STATES"
    using final_not_unfinished [OF fin] by (simp add: chk_simps)
  let ?lapsed = "map snd (filter (\<lambda>((j, _), _). j = i) (ev_attempts e))"
  have rows: "set ?lapsed = chk_attempt_of ` {a \<in> set (attempts d). a_job_id a = i}"
    using evidence_attempts_of [OF inv run i e] by blast
  have "filter (\<lambda>a. ca_worker_id a = ''ghost'') ?lapsed = [] \<longleftrightarrow>
      \<not> (\<exists>a \<in> set (attempts d). a_job_id a = i \<and> a_worker_id a = ''ghost'')"
    unfolding filter_empty_conv rows by (auto simp: chk_simps)
  moreover have "list_ex (\<lambda>a. ca_ended_by a \<noteq> Some Lease_expired) (filter (\<lambda>a. ca_worker_id a = ''ghost'') ?lapsed)
      \<longleftrightarrow> \<not> (\<forall>a \<in> set (attempts d). a_job_id a = i \<longrightarrow> a_worker_id a = ''ghost'' \<longrightarrow> a_ended_by a = Some Lease_expired)"
    unfolding list_ex_iff set_filter rows by (auto simp: chk_simps)
  ultimately show ?thesis using open_free unfolding reaped_problem_def Let_def by (auto simp: jb)
qed

lemma cancelled_exact:
  assumes inv: "db_inv now d" and drained: "drained ids d" and run: "is_snapshot ids d taken"
    and i: "i \<in> set ids" and e: "e = evidence_of ids taken d exits alive logs subs"
  shows "cancelled_problem i n e = None \<longleftrightarrow>
    (\<exists>j \<in> set (jobs d). j_id j = i \<and> j_state j = Cancelled) \<and> (\<exists>w. attempt_ended d i n w Lease_expired)"
proof -
  note rows = evidence_rows [OF inv run i e]
  obtain j where j: "j \<in> set (jobs d)" "j_id j = i" by (rule drained_job [OF inv drained i]) blast
  have jb: "dict_get (ev_jobs e) i = Some (chk_job_of j)" using rows(1) j by blast
  have none: "dict_get (ev_results e) i = None" if "j_state j = Cancelled"
  proof (rule ccontr)
    assume "dict_get (ev_results e) i \<noteq> None"
    then obtain r where r: "r \<in> set (results d)" "r_job_id r = j_id j" using rows(3) j(2) by blast
    from result_of_job(2) [OF inv j(1) r] that show False by (simp add: result_states_def)
  qed
  have there: "(\<exists>j \<in> set (jobs d). j_id j = i \<and> j_state j = Cancelled) \<longleftrightarrow> j_state j = Cancelled"
    by (rule the_final_job [OF inv j])
  show ?thesis
  proof (cases "dict_get (ev_attempts e) (i, n)")
    case None
    then show ?thesis using rows(2) [of n] by (auto simp: cancelled_problem_def jb attempt_ended_def)
  next
    case (Some c)
    then obtain a where a: "a \<in> set (attempts d)" "a_job_id a = i" "a_attempt a = n" and c: "c = chk_attempt_of a"
      using rows(2) by blast
    have "(\<exists>w. attempt_ended d i n w Lease_expired) \<longleftrightarrow> a_ended_by a = Some Lease_expired"
      by (simp add: the_attempt [OF inv a])
    then show ?thesis unfolding there using none by (simp add: cancelled_problem_def jb Some c chk_simps)
  qed
qed

lemma one_batch_exact:
  assumes inv: "db_inv now d" and e: "e = evidence_of ids taken d exits alive logs subs"
  shows "one_batch_problem b e = None \<longleftrightarrow>
    (\<exists>k. filter (\<lambda>(_, x). x = b) subs = [(k, b)] \<and> (\<exists>x \<in> set (batches d). b_idempotency_key x = Some k \<and> b_id x = b))"
proof -
  have by_key: "dict_get (ev_batches_by_key e) k = Some [b]
      \<longleftrightarrow> (\<exists>x \<in> set (batches d). b_idempotency_key x = Some k \<and> b_id x = b)" for k
    by (simp add: e evidence_of_def batch_of_key [OF inv])
  have own: "\<forall>y \<in> set (filter (\<lambda>(_, x). x = b) subs). snd y = b" by auto
  show ?thesis
  proof (cases "filter (\<lambda>(_, x). x = b) subs")
    case Nil
    then show ?thesis by (simp add: one_batch_problem_def e evidence_of_def)
  next
    case (Cons y ys)
    then have "y = (fst y, b)" using own by (cases y) simp
    then show ?thesis using by_key [of "fst y"] Cons
      by (cases ys; cases y) (auto simp: one_batch_problem_def e evidence_of_def)
  qed
qed

lemma first_problem_None: "first_problem p xs = None \<longleftrightarrow> (\<forall>x \<in> set xs. p x = None)"
  by (induction xs) (auto split: option.splits)

lemma drained_invariants:
  assumes "db_inv now d" and "drained ids d" and "is_snapshot ids d taken"
    and "verdict_of s planned faults p ids (evidence_of ids taken d exits alive logs subs) dr containers = Inr v"
    and "pl_keys p = []"
  shows "vd_invariants v = []"
proof -
  let ?e = "evidence_of ids taken d exits alive logs subs"
  have "expected_keys p ?e = []" using assms(5) by (simp add: expected_keys_def)
  then have "vd_invariants v = check taken ids None"
    using assms(4) by (cases "effect_problems ?e (List.product (filter (\<lambda>f. fa_point f = sc_point s) faults) (sc_effects s))")
      (auto simp: verdict_of_def Let_def evidence_of_def)
  also have "\<dots> = []"
    using assms(2) by (intro drained_check_clean [OF assms(1) _ _ _ assms(3)]) (simp_all add: drained_def)
  finally show ?thesis .
qed

text \<open>
  C31. Once a chaos run has drained, what its checks find is what happened to the job and nothing else, whatever
  the workers, the harness and the faults did and in whatever order: a fault counts as retried exactly when
  its worker's attempt lapsed and the job was not cancelled there, its result stands exactly when the job's
  one result is of that attempt, a job counts as unblocked exactly when the hung worker did not publish it,
  as cancelled exactly when it ended so with that attempt lapsed, as reaped exactly when a ghost had
  it and every ghost's attempt lapsed, and a batch as submitted once exactly when the client got it back for
  one key that the store has it under; and without expected keys no invariant is reported broken.
\<close>

theorem drained_checks_exact:
  assumes "fleet_reachable sha (now, d)" and "drained ids d" and "is_snapshot ids d taken"
    and "e = evidence_of ids taken d exits alive logs subs"
    and "i \<in> set ids" and "fa_job f = Some i" and "fa_attempt f = Some n"
  shows "(retried_check f e = Inr None \<longleftrightarrow>
        attempt_ended d i n (fa_process f) Lease_expired \<and> \<not> cancelled_there d i n)
    \<and> (stands f e = Inr None \<longleftrightarrow> (\<exists>r \<in> set (results d). r_job_id r = i \<and> r_attempt r = n))
    \<and> (unblocked f e = Inr None \<longleftrightarrow> \<not> (\<exists>r \<in> set (results d). r_job_id r = i \<and> r_worker_id r = fa_process f))
    \<and> (cancelled_check f e = Inr None \<longleftrightarrow>
        (\<exists>j \<in> set (jobs d). j_id j = i \<and> j_state j = Cancelled) \<and> (\<exists>w. attempt_ended d i n w Lease_expired))
    \<and> (\<forall>js. fa_jobs f = Some js \<and> set js \<subseteq> set ids \<longrightarrow> (reaped_once f e = Inr None \<longleftrightarrow>
        (\<forall>k \<in> set js. (\<exists>a \<in> set (attempts d). a_job_id a = k \<and> a_worker_id a = ''ghost'')
          \<and> (\<forall>a \<in> set (attempts d). a_job_id a = k \<longrightarrow> a_worker_id a = ''ghost'' \<longrightarrow> a_ended_by a = Some Lease_expired))))
    \<and> (\<forall>b. fa_batch f = Some b \<longrightarrow> (one_batch f e = Inr None \<longleftrightarrow> (\<exists>k. filter (\<lambda>(_, x). x = b) subs = [(k, b)]
        \<and> (\<exists>x \<in> set (batches d). b_idempotency_key x = Some k \<and> b_id x = b))))
    \<and> (\<forall>s planned faults p dr containers v. pl_keys p = [] \<longrightarrow>
        verdict_of s planned faults p ids e dr containers = Inr v \<longrightarrow> vd_invariants v = [])"
proof -
  note inv = reachable_inv [OF assms(1)]
  note c = inv assms(2,3)
  note simps = retried_check_def stands_def unblocked_def cancelled_check_def reaped_once_def one_batch_def get_key_def
  have reaped: "reaped_once f e = Inr None \<longleftrightarrow>
      (\<forall>k \<in> set js. (\<exists>a \<in> set (attempts d). a_job_id a = k \<and> a_worker_id a = ''ghost'')
        \<and> (\<forall>a \<in> set (attempts d). a_job_id a = k \<longrightarrow> a_worker_id a = ''ghost'' \<longrightarrow> a_ended_by a = Some Lease_expired))"
    if "fa_jobs f = Some js" "set js \<subseteq> set ids" for js
  proof -
    have "reaped_once f e = Inr None \<longleftrightarrow> (\<forall>k \<in> set js. reaped_problem e k = None)"
      using that(1) by (simp add: simps first_problem_None)
    also have "\<dots> \<longleftrightarrow> (\<forall>k \<in> set js. (\<exists>a \<in> set (attempts d). a_job_id a = k \<and> a_worker_id a = ''ghost'')
        \<and> (\<forall>a \<in> set (attempts d). a_job_id a = k \<longrightarrow> a_worker_id a = ''ghost'' \<longrightarrow> a_ended_by a = Some Lease_expired))"
      using that(2) by (intro ball_cong refl reaped_exact [OF c _ assms(4)]) blast
    finally show ?thesis .
  qed
  show ?thesis
    using retried_exact [OF c assms(5,4), of n "fa_process f"] stands_exact [OF c assms(5,4), of n]
      unblocked_exact [OF c assms(5,4), of "fa_process f"] cancelled_exact [OF c assms(5,4), of n]
      reaped one_batch_exact [OF inv assms(4)] drained_invariants [OF c] assms(4,6,7)
    by (intro conjI allI impI) (simp_all add: simps)
qed

text \<open>The first attempt of the demonstration's first job, killed as it was to send a heartbeat.\<close>

definition demo_fault :: fault where
  "demo_fault = \<lparr>fa_point = ''heartbeat.before'', fa_action = ''kill'', fa_pid = 7, fa_job = Some 1,
     fa_attempt = Some 1, fa_jobs = None, fa_batch = None, fa_process = ''w1'', fa_woke = None\<rparr>"

definition demo_evidence :: evidence where
  "demo_evidence = evidence_of [1, 2] (snapshot_of [1, 2] demo_done) demo_done
     [(''w1'', Some (- 9)), (''w2'', Some 0)] {''w2''} [] []"

theorem drained_checks_exact_witness:
  "retried_check demo_fault demo_evidence = Inr None \<and> stands demo_fault demo_evidence \<noteq> Inr None
     \<and> unblocked demo_fault demo_evidence = Inr None"
proof -
  have drained: "drained [1, 2] demo_done" unfolding drained_def by code_simp
  have fault: "(1 :: int) \<in> set [1, 2]" "fa_job demo_fault = Some 1" "fa_attempt demo_fault = Some 1"
    by (simp_all add: demo_fault_def)
  from drained_checks_exact [OF demo_done_reachable drained is_snapshot_refl demo_evidence_def fault]
  have exact: "(retried_check demo_fault demo_evidence = Inr None \<longleftrightarrow>
      attempt_ended demo_done 1 1 (fa_process demo_fault) Lease_expired \<and> \<not> cancelled_there demo_done 1 1)
    \<and> (stands demo_fault demo_evidence = Inr None \<longleftrightarrow> (\<exists>r \<in> set (results demo_done). r_job_id r = 1 \<and> r_attempt r = 1))
    \<and> (unblocked demo_fault demo_evidence = Inr None \<longleftrightarrow>
        \<not> (\<exists>r \<in> set (results demo_done). r_job_id r = 1 \<and> r_worker_id r = fa_process demo_fault))"
    by (elim conjE) (intro conjI; assumption)
  have "attempt_ended demo_done 1 1 (fa_process demo_fault) Lease_expired" "\<not> cancelled_there demo_done 1 1"
    "\<not> (\<exists>r \<in> set (results demo_done). r_job_id r = 1 \<and> r_attempt r = 1)"
    "\<not> (\<exists>r \<in> set (results demo_done). r_job_id r = 1 \<and> r_worker_id r = fa_process demo_fault)"
    unfolding attempt_ended_def cancelled_there_def by code_simp+
  with exact show ?thesis by blast
qed

text \<open>The log of a worker that lost its lease on another job can pass for the one that was looked for.\<close>

lemma fenced_by_another_job:
  assumes "fa_job f = Some 1" and "dict_get (ev_logs e) (fa_process f) = Some ''w0: lost the lease on job 12, run stopped''"
  shows "fenced f e = Inr None"
proof -
  have "contains_sub (''lost the lease on job '' @ show_int 1) ''w0: lost the lease on job 12, run stopped''" by code_simp
  with assms show ?thesis by (simp add: fenced_def get_key_def the_log_def)
qed

end
