(* ===== verification/Chaos_Harness.thy ===== *)
theory Chaos_Harness
  imports Chaos_Checks
begin

text \<open>
  The harness of a chaos run, \<^verbatim>\<open>chaos/harness.py\<close>: the batch it plans, the processes it starts and replaces, the
  faults it reads from their log, the paused workers it wakes, and the faults it makes itself through the
  job store. The state of a run is the record \<open>run_state\<close>; a signal sent to a process is an entry of
  \<open>rn_signals\<close>. The operating system answers through arguments: \<open>alive\<close> says which processes a poll
  finds running, \<open>pid_of n\<close> is the process id of the \<open>n\<close>-th process started, \<open>lines\<close> is the log of faults
  so far, and \<open>clock\<close> the monotonic clock. Command lines, environments and log files are not modelled.
\<close>

section \<open>The plan of a batch\<close>

definition JOBS :: nat where "JOBS = 30"
definition LONG_JOBS :: nat where "LONG_JOBS = 18"
definition WORKERS :: nat where "WORKERS = 3"
definition OVERTAKE_SECONDS :: seconds where "OVERTAKE_SECONDS = 15"
definition GHOST_LEASE_SECONDS :: seconds where "GHOST_LEASE_SECONDS = 3 / 10"
definition RESTART_AT :: "rat list" where "RESTART_AT = [1 / 5, 9 / 20, 7 / 10]"

text \<open>What the seeded generator draws for the \<open>n\<close>-th job: its key, the two sleeps and the roll for a crash.\<close>

record draws =
  dr_key :: "nat \<Rightarrow> string"
  dr_sleep :: "nat \<Rightarrow> int"
  dr_long_sleep :: "nat \<Rightarrow> int"
  dr_roll :: "nat \<Rightarrow> rat"

definition job_name :: "nat \<Rightarrow> string" where
  "job_name n = ''job-'' @ show_nat n"

definition long_job :: "scenario \<Rightarrow> nat \<Rightarrow> bool" where
  "long_job s n \<longleftrightarrow> sc_workload s = ''cancel'' \<and> n mod 3 = 0"

definition planned_job :: "scenario \<Rightarrow> draws \<Rightarrow> nat \<Rightarrow> new_job" where
  "planned_job s r n =
     (let sleep_ms = (if sc_workload s = ''long'' then dr_long_sleep r n else dr_sleep r n);
          kind = (if sc_workload s = ''crash'' \<and> dr_roll r n < 3 / 10 then ''crash'' else ''ok'')
      in \<lparr>n_name = job_name n,
          n_payload = JObj [(''key'', JStr (dr_key r n)),
            (''sleep_ms'', JInt (if long_job s n then 3000 else sleep_ms)),
            (''kind'', JStr (if long_job s n then ''ok'' else kind))]\<rparr>)"

definition plan_keyed :: "scenario \<Rightarrow> draws \<Rightarrow> plan" where
  "plan_keyed s r =
     (let ns = [0..<(if sc_workload s = ''long'' then LONG_JOBS else JOBS)];
          js = map (planned_job s r) ns;
          keys = map (\<lambda>n. (job_name n, dr_key r n)) ns
      in if sc_workload s = ''api''
         then \<lparr>pl_batches = [take 10 js, take 10 (drop 10 js), drop 20 js], pl_keys = keys, pl_outcomes = [],
               pl_long_jobs = {}\<rparr>
         else \<lparr>pl_batches = [js], pl_keys = keys, pl_outcomes = [],
               pl_long_jobs = set (map job_name (filter (long_job s) ns))\<rparr>)"

section \<open>The state of a run\<close>

datatype signal = SIG_CONT | SIG_KILL

record process =
  pr_pid :: int
  pr_armed :: "string option"
  pr_replaced :: bool

record run_state =
  rn_arms :: "string list"
  rn_processes :: "(string \<times> process) list"
  rn_api :: "string option"
  rn_api_starts :: nat
  rn_faults :: "fault list"
  rn_read :: nat
  rn_resume_at :: "(int \<times> seconds) list"
  rn_overtake :: "(int \<times> nat \<times> seconds) list"
  rn_hung :: "int set"
  rn_signals :: "(int \<times> signal) list"

definition new_run :: "string list \<Rightarrow> run_state" where
  "new_run armed_texts =
     \<lparr>rn_arms = armed_texts, rn_processes = [], rn_api = None, rn_api_starts = 0, rn_faults = [], rn_read = 0,
      rn_resume_at = [], rn_overtake = [], rn_hung = {}, rn_signals = []\<rparr>"

text \<open>\<^verbatim>\<open>len(self.arms) or scenario.faults\<close>.\<close>

definition planned_faults :: "scenario \<Rightarrow> string list \<Rightarrow> nat" where
  "planned_faults s armed_texts = (if armed_texts = [] then sc_faults s else length armed_texts)"

definition spawn :: "string \<Rightarrow> int \<Rightarrow> string option \<Rightarrow> run_state \<Rightarrow> run_state" where
  "spawn name pid armed_with r =
     r\<lparr>rn_processes := dict_put (rn_processes r) name \<lparr>pr_pid = pid, pr_armed = armed_with, pr_replaced = False\<rparr>\<rparr>"

definition start_worker :: "(nat \<Rightarrow> int) \<Rightarrow> run_state \<Rightarrow> run_state" where
  "start_worker pid_of r =
     (let n = length (rn_processes r); name = CHR ''w'' # show_nat n
      in case rn_arms r of
           [] \<Rightarrow> spawn name (pid_of n) None r
         | a # rest \<Rightarrow> spawn name (pid_of n) (Some a) (r\<lparr>rn_arms := rest\<rparr>))"

definition start_api :: "nat \<Rightarrow> (nat \<Rightarrow> int) \<Rightarrow> run_state \<Rightarrow> run_state" where
  "start_api planned pid_of r =
     (let armed_with = (if rn_api_starts r < planned then Some ''api.submit.after_commit=kill@1'' else None);
          name = ''api'' @ show_nat (rn_api_starts r)
      in (spawn name (pid_of (length (rn_processes r))) armed_with (r\<lparr>rn_api_starts := rn_api_starts r + 1\<rparr>))
           \<lparr>rn_api := Some name\<rparr>)"

section \<open>Replacing the dead\<close>

definition set_replaced :: "string \<Rightarrow> run_state \<Rightarrow> run_state" where
  "set_replaced name r =
     r\<lparr>rn_processes := map (\<lambda>(n, p). (n, if n = name then p\<lparr>pr_replaced := True\<rparr> else p)) (rn_processes r)\<rparr>"

definition replace_one ::
  "bool \<Rightarrow> nat \<Rightarrow> (int \<Rightarrow> bool) \<Rightarrow> (nat \<Rightarrow> int) \<Rightarrow> string \<times> process \<Rightarrow> run_state \<Rightarrow> run_state" where
  "replace_one holding planned alive pid_of np r =
     (let (name, p) = np
      in if alive (pr_pid p) \<or> pr_replaced p then r
         else if holding \<and> rn_api r \<noteq> Some name then r
         else if rn_api r = Some name then start_api planned pid_of (set_replaced name r)
         else if \<not> startswith name ''api'' then start_worker pid_of (set_replaced name r)
         else set_replaced name r)"

definition replace_the_dead ::
  "scenario \<Rightarrow> nat \<Rightarrow> (int \<Rightarrow> bool) \<Rightarrow> (nat \<Rightarrow> int) \<Rightarrow> run_state \<Rightarrow> run_state" where
  "replace_the_dead s planned alive pid_of r =
     (let fired_here = length (filter (\<lambda>f. fa_point f = sc_point s) (rn_faults r));
          holding = (sc_replace s = ''after_faults'' \<and> fired_here < planned)
      in fold (replace_one holding planned alive pid_of) (rn_processes r) r)"

section \<open>Reading faults and waking the paused\<close>

definition process_of :: "(string \<times> process) list \<Rightarrow> int \<Rightarrow> string" where
  "process_of ps pid =
     (case dict_get (dict_of (map (\<lambda>(n, p). (pr_pid p, n)) ps)) pid of None \<Rightarrow> ''harness'' | Some n \<Rightarrow> n)"

definition read_fault :: "scenario \<Rightarrow> (nat \<Rightarrow> seconds) \<Rightarrow> (nat \<Rightarrow> seconds) \<Rightarrow> fault \<Rightarrow> run_state \<Rightarrow> run_state" where
  "read_fault s clock pause line r =
     (let n = length (rn_faults r); f = line\<lparr>fa_process := process_of (rn_processes r) (fa_pid line)\<rparr>;
          r1 = r\<lparr>rn_faults := rn_faults r @ [f]\<rparr>
      in if fa_action f \<noteq> ''stop'' then r1
         else if sc_action s = ''hang'' then r1\<lparr>rn_hung := insert (fa_pid f) (rn_hung r1)\<rparr>
         else if sc_wake s = ''overtaken''
         then r1\<lparr>rn_overtake := dict_put (rn_overtake r1) (fa_pid f) (n, clock n + OVERTAKE_SECONDS)\<rparr>
         else r1\<lparr>rn_resume_at := dict_put (rn_resume_at r1) (fa_pid f) (clock n + pause n)\<rparr>)"

definition read_faults ::
  "scenario \<Rightarrow> (nat \<Rightarrow> seconds) \<Rightarrow> (nat \<Rightarrow> seconds) \<Rightarrow> fault list \<Rightarrow> run_state \<Rightarrow> run_state" where
  "read_faults s clock pause lines r =
     (fold (read_fault s clock pause) (drop (rn_read r) lines) r)\<lparr>rn_read := length lines\<rparr>"

definition signal_to :: "int \<Rightarrow> signal \<Rightarrow> run_state \<Rightarrow> run_state" where
  "signal_to pid sig r = r\<lparr>rn_signals := rn_signals r @ [(pid, sig)]\<rparr>"

text \<open>\<open>now\<close> is the clock's reading for each process waiting.\<close>

definition resume_one :: "(int \<Rightarrow> seconds) \<Rightarrow> int \<times> seconds \<Rightarrow> run_state \<Rightarrow> run_state" where
  "resume_one now pt r =
     (let (pid, t) = pt
      in if now pid \<ge> t then (signal_to pid SIG_CONT r)\<lparr>rn_resume_at := remove pid (rn_resume_at r)\<rparr> else r)"

definition resume_due :: "(int \<Rightarrow> seconds) \<Rightarrow> run_state \<Rightarrow> run_state" where
  "resume_due now r = fold (resume_one now) (rn_resume_at r) r"

text \<open>A fault without a job or an attempt would be a \<^verbatim>\<open>KeyError\<close>, the left.\<close>

definition overtaken :: "db \<Rightarrow> int \<Rightarrow> int \<Rightarrow> bool" where
  "overtaken d job attempt \<longleftrightarrow> list_ex (\<lambda>j. j_id j = job \<and> j_attempt j > attempt \<and> leased j) (jobs d)"

definition wake_one ::
  "(int \<Rightarrow> db) \<Rightarrow> (int \<Rightarrow> seconds) \<Rightarrow> int \<times> nat \<times> seconds \<Rightarrow> run_state \<Rightarrow> string + run_state" where
  "wake_one seen_db now w r =
     (let (pid, k, deadline) = w; f = rn_faults r ! k
      in get_key ''job'' (fa_job f) (\<lambda>j. get_key ''attempt'' (fa_attempt f) (\<lambda>n.
        (let held = overtaken (seen_db pid) j n
         in Inr (if held \<or> now pid > deadline
                 then (signal_to pid SIG_CONT r)
                   \<lparr>rn_faults := (rn_faults r)[k := f\<lparr>fa_woke := Some (if held then ''overtaken'' else ''never overtaken'')\<rparr>],
                    rn_overtake := remove pid (rn_overtake r)\<rparr>
                 else r)))))"

fun wake_each ::
  "(int \<Rightarrow> db) \<Rightarrow> (int \<Rightarrow> seconds) \<Rightarrow> (int \<times> nat \<times> seconds) list \<Rightarrow> run_state \<Rightarrow> string + run_state" where
  "wake_each seen_db now [] r = Inr r"
| "wake_each seen_db now (w # ws) r =
     (case wake_one seen_db now w r of Inl k \<Rightarrow> Inl k | Inr r' \<Rightarrow> wake_each seen_db now ws r')"

definition wake_overtaken :: "(int \<Rightarrow> db) \<Rightarrow> (int \<Rightarrow> seconds) \<Rightarrow> run_state \<Rightarrow> string + run_state" where
  "wake_overtaken seen_db now r = wake_each seen_db now (rn_overtake r) r"

text \<open>
  Stopping everything: who was alive all along, and the signals before the processes are asked to end.
  The order in which the hung processes are killed is that of the set.
\<close>

definition kill_hung :: "int list \<Rightarrow> run_state \<Rightarrow> run_state" where
  "kill_hung order r = r\<lparr>rn_signals := rn_signals r @ map (\<lambda>pid. (pid, SIG_KILL)) order\<rparr>"

definition stop_all :: "(int \<Rightarrow> bool) \<Rightarrow> int list \<Rightarrow> run_state \<Rightarrow> string set \<times> run_state" where
  "stop_all alive order r =
     (let running = set (map fst (filter (\<lambda>(_, p). alive (pr_pid p)) (rn_processes r)));
          hung = set (map fst (filter (\<lambda>(_, p). pr_pid p \<in> rn_hung r) (rn_processes r)));
          waiting = map fst (rn_resume_at r) @ map fst (rn_overtake r)
      in (running - hung,
          (kill_hung order r)\<lparr>rn_signals := rn_signals (kill_hung order r) @ map (\<lambda>pid. (pid, SIG_CONT)) waiting\<rparr>))"

section \<open>The faults the harness makes itself\<close>

record outside_faults =
  of_cancelled :: "int set"
  of_ghost_claims :: nat
  of_ghost_at :: seconds
  of_restarts :: nat

text \<open>
  Every call of the store is given its own clock and locks; a call the harness repeats after a dropped
  connection is one more call. The rows to cancel come in the table's order.
\<close>

definition finished_of :: "int list \<Rightarrow> db \<Rightarrow> nat \<times> nat" where
  "finished_of ids d =
     (length (filter (\<lambda>j. j_state j \<notin> set UNFINISHED_STATES \<and> j_id j \<in> set ids) (jobs d)), length ids)"

fun cancel_rows :: "(int \<Rightarrow> nat \<Rightarrow> time) \<Rightarrow> int list \<Rightarrow> int set \<Rightarrow> db \<Rightarrow> int set \<times> db" where
  "cancel_rows clks [] done_set d = (done_set, d)"
| "cancel_rows clks (i # is) done_set d =
     (if i \<in> done_set then cancel_rows clks is done_set d
      else cancel_rows clks is (insert i done_set) (snd (cancel (clks i) i d)))"

definition to_cancel :: "plan \<Rightarrow> int list \<Rightarrow> db \<Rightarrow> int list" where
  "to_cancel p ids d =
     map j_id (filter (\<lambda>j. j_id j \<in> set ids \<and> j_state j = Running \<and> j_name j \<in> pl_long_jobs p) (jobs d))"

definition cancel_running ::
  "plan \<Rightarrow> int list \<Rightarrow> (int \<Rightarrow> nat \<Rightarrow> time) \<Rightarrow> outside_faults \<Rightarrow> db \<Rightarrow> outside_faults \<times> db" where
  "cancel_running p ids clks o_f d =
     (let (cs, d') = cancel_rows clks (to_cancel p ids d) (of_cancelled o_f) d
      in (o_f\<lparr>of_cancelled := cs\<rparr>, d'))"

definition ghost_claim ::
  "int set \<Rightarrow> (int \<Rightarrow> time) \<Rightarrow> (nat \<Rightarrow> time) \<Rightarrow> seconds \<Rightarrow> outside_faults \<Rightarrow> db \<Rightarrow> outside_faults \<times> db" where
  "ghost_claim locked scan clk now o_f d =
     (let (c, d') = claim locked scan clk ''ghost'' GHOST_LEASE_SECONDS d
      in (o_f\<lparr>of_ghost_claims := of_ghost_claims o_f + (if c \<noteq> None then 1 else 0), of_ghost_at := now + 2 / 5\<rparr>, d'))"

definition restart_due :: "int list \<Rightarrow> outside_faults \<Rightarrow> db \<Rightarrow> bool" where
  "restart_due ids o_f d \<longleftrightarrow>
     (let (done_now, total) = finished_of ids d
      in of_restarts o_f < length RESTART_AT \<and> of_nat done_now \<ge> RESTART_AT ! of_restarts o_f * of_nat total)"

definition drive ::
  "scenario \<Rightarrow> nat \<Rightarrow> plan \<Rightarrow> bool \<Rightarrow> int list \<Rightarrow> fault list \<Rightarrow> seconds \<Rightarrow> (int \<Rightarrow> nat \<Rightarrow> time) \<Rightarrow> int set \<Rightarrow> (int \<Rightarrow> time)
    \<Rightarrow> (nat \<Rightarrow> time) \<Rightarrow> outside_faults \<Rightarrow> db \<Rightarrow> outside_faults \<times> db" where
  "drive s planned p own_cluster ids faults now clks locked scan clk o_f d =
     (let (o1, d1) = (if sc_workload s = ''cancel'' then cancel_running p ids clks o_f d else (o_f, d));
          reaps = length (filter (\<lambda>f. fa_point f = ''reap.before_commit'') faults);
          (o2, d2) = (if sc_workload s = ''ghost'' \<and> reaps < planned \<and> now \<ge> of_ghost_at o1
                      then ghost_claim locked scan clk now o1 d1 else (o1, d1))
      in (if sc_point s = ''postgres.restart'' \<and> own_cluster \<and> restart_due ids o2 d2
          then o2\<lparr>of_restarts := of_restarts o2 + 1\<rparr> else o2, d2))"

section \<open>Supervision\<close>

definition starting :: "scenario \<Rightarrow> string list \<Rightarrow> nat \<Rightarrow> (nat \<Rightarrow> int) \<Rightarrow> run_state \<Rightarrow> bool" where
  "starting s armed_texts planned pid_of r \<longleftrightarrow>
     r = (start_worker pid_of ^^ (WORKERS + sc_spares s))
           (if sc_workload s = ''api'' then start_api planned pid_of (new_run armed_texts) else new_run armed_texts)"

inductive supervises :: "scenario \<Rightarrow> nat \<Rightarrow> (nat \<Rightarrow> int) \<Rightarrow> run_state \<Rightarrow> run_state \<Rightarrow> bool"
  for s :: scenario and planned :: nat and pid_of :: "nat \<Rightarrow> int" where
  sup_read: "supervises s planned pid_of r (read_faults s clock pause lines r)"
| sup_resume: "supervises s planned pid_of r (resume_due now r)"
| sup_wake: "wake_overtaken seen_db now r = Inr r' \<Longrightarrow> supervises s planned pid_of r r'"
| sup_replace: "supervises s planned pid_of r (replace_the_dead s planned alive pid_of r)"

inductive_cases supervisesE: "supervises s planned pid_of r r'"

abbreviation is_worker :: "string \<Rightarrow> bool" where
  "is_worker n \<equiv> \<not> startswith n ''api''"

definition handed_out :: "run_state \<Rightarrow> string list" where
  "handed_out r = [a. (n, p) \<leftarrow> rn_processes r, is_worker n, Some a \<leftarrow> [pr_armed p]]"

definition crew :: "run_state \<Rightarrow> nat" where
  "crew r = length (filter (\<lambda>(n, p). is_worker n \<and> \<not> pr_replaced p) (rn_processes r))"

definition names_ok :: "run_state \<Rightarrow> bool" where
  "names_ok r \<longleftrightarrow>
     distinct (map fst (rn_processes r))
     \<and> (\<forall>n \<in> fst ` set (rn_processes r). (\<exists>k < length (rn_processes r). n = CHR ''w'' # show_nat k)
           \<or> (\<exists>k < rn_api_starts r. n = ''api'' @ show_nat k))
     \<and> (\<forall>n. rn_api r = Some n \<longrightarrow> startswith n ''api'')"

definition crew_ok :: "string list \<Rightarrow> nat \<Rightarrow> run_state \<Rightarrow> bool" where
  "crew_ok armed_texts m r \<longleftrightarrow> names_ok r \<and> handed_out r @ rn_arms r = armed_texts \<and> crew r = m"

definition looked_after :: "scenario \<Rightarrow> run_state \<Rightarrow> int \<Rightarrow> bool" where
  "looked_after s r pid \<longleftrightarrow>
     (if sc_action s = ''hang'' then pid \<in> rn_hung r
      else pid \<in> fst ` set (rn_resume_at r) \<union> fst ` set (rn_overtake r) \<or> (pid, SIG_CONT) \<in> set (rn_signals r))"

definition paused_ok :: "scenario \<Rightarrow> run_state \<Rightarrow> bool" where
  "paused_ok s r \<longleftrightarrow>
     (\<forall>f \<in> set (rn_faults r). fa_action f = ''stop'' \<longrightarrow> looked_after s r (fa_pid f))
     \<and> (sc_action s = ''hang'' \<longrightarrow> rn_resume_at r = [] \<and> rn_overtake r = [] \<and> rn_signals r = [])
     \<and> (sc_action s \<noteq> ''hang'' \<longrightarrow> rn_hung r = {})
     \<and> (\<forall>x \<in> set (rn_signals r). snd x = SIG_CONT)"

subsection \<open>Starting a process\<close>

lemma fresh_put: "k \<notin> fst ` set d \<Longrightarrow> dict_put d k v = d @ [(k, v)]"
  by (induction d k v rule: dict_put.induct) auto

lemma worker_name [simp]: "is_worker (CHR ''w'' # x)"
  by (simp add: startswith_iff)

lemma api_name [simp]: "startswith (CHR ''a'' # CHR ''p'' # CHR ''i'' # x) ''api''"
  by (simp add: startswith_iff)

lemma worker_fresh:
  assumes "names_ok r"
  shows "CHR ''w'' # show_nat (length (rn_processes r)) \<notin> fst ` set (rn_processes r)"
  using assms by (fastforce simp: names_ok_def)

lemma api_fresh:
  assumes "names_ok r"
  shows "''api'' @ show_nat (rn_api_starts r) \<notin> fst ` set (rn_processes r)"
  using assms by (fastforce simp: names_ok_def)

lemma start_worker_crew:
  assumes "crew_ok armed_texts m r"
  shows "crew_ok armed_texts (Suc m) (start_worker pid_of r)"
    and "set (rn_processes r) \<subseteq> set (rn_processes (start_worker pid_of r))"
proof -
  have ok: "names_ok r" using assms by (simp add: crew_ok_def)
  note new = fresh_put [OF worker_fresh [OF ok]]
  show "set (rn_processes r) \<subseteq> set (rn_processes (start_worker pid_of r))"
    by (auto simp: start_worker_def spawn_def new Let_def split: list.splits)
  show "crew_ok armed_texts (Suc m) (start_worker pid_of r)"
    using assms worker_fresh [OF ok]
    by (auto simp: crew_ok_def names_ok_def handed_out_def crew_def start_worker_def spawn_def new Let_def
        split: list.splits; force)
qed

lemma start_api_crew:
  assumes "crew_ok armed_texts m r"
  shows "crew_ok armed_texts m (start_api planned pid_of r)"
    and "set (rn_processes r) \<subseteq> set (rn_processes (start_api planned pid_of r))"
proof -
  have ok: "names_ok r" using assms by (simp add: crew_ok_def)
  note new = fresh_put [OF api_fresh [OF ok], simplified]
  show "set (rn_processes r) \<subseteq> set (rn_processes (start_api planned pid_of r))"
    by (auto simp: start_api_def spawn_def new Let_def)
  show "crew_ok armed_texts m (start_api planned pid_of r)"
    using assms api_fresh [OF ok, simplified]
    by (auto simp: crew_ok_def names_ok_def handed_out_def crew_def start_api_def spawn_def new Let_def less_Suc_eq)
qed

subsection \<open>Replacing keeps the crew\<close>

lemma set_replaced_crew:
  assumes "crew_ok armed_texts m r" and "(name, p) \<in> set (rn_processes r)" and "\<not> pr_replaced p"
  shows "crew_ok armed_texts (if is_worker name then m - 1 else m) (set_replaced name r)"
    and "is_worker name \<Longrightarrow> 0 < m"
proof -
  have names: "names_ok (set_replaced name r)"
    using assms(1) by (auto simp: crew_ok_def names_ok_def set_replaced_def case_prod_unfold comp_def)
  have armed: "handed_out (set_replaced name r) = handed_out r"
    by (auto simp: handed_out_def set_replaced_def case_prod_unfold comp_def intro!: arg_cong [of _ _ concat] map_cong)
  have keep: "filter (\<lambda>(n, p). is_worker n \<and> \<not> pr_replaced p)
      (map (\<lambda>(n, q). (n, if n = name then q\<lparr>pr_replaced := True\<rparr> else q)) ps)
    = filter (\<lambda>(n, q). n \<noteq> name \<and> is_worker n \<and> \<not> pr_replaced q) ps" for ps
    by (induction ps) (auto split: if_splits)
  have once: "length (filter (\<lambda>(n, q). is_worker n \<and> \<not> pr_replaced q) ps)
      = length (filter (\<lambda>(n, q). n \<noteq> name \<and> is_worker n \<and> \<not> pr_replaced q) ps) + (if is_worker name then 1 else 0)"
    if "distinct (map fst ps)" "(name, p) \<in> set ps" for ps
    using that
  proof (induction ps)
    case (Cons x ps)
    show ?case
    proof (cases "fst x = name")
      case True
      then have "name \<notin> fst ` set ps" using Cons.prems(1) by auto
      then have "filter (\<lambda>(n, q). n \<noteq> name \<and> is_worker n \<and> \<not> pr_replaced q) ps
          = filter (\<lambda>(n, q). is_worker n \<and> \<not> pr_replaced q) ps"
        by (intro filter_cong refl) force
      moreover have "x = (name, p)" using True Cons.prems by (cases x) force
      ultimately show ?thesis using assms(3) by simp
    next
      case False
      then show ?thesis using Cons by (cases x) auto
    qed
  qed simp
  from once [of "rn_processes r"] assms have
    "crew r = crew (set_replaced name r) + (if is_worker name then 1 else 0)"
    by (simp add: crew_def set_replaced_def keep crew_ok_def names_ok_def)
  with names armed assms(1) show "crew_ok armed_texts (if is_worker name then m - 1 else m) (set_replaced name r)"
    and "is_worker name \<Longrightarrow> 0 < m"
    by (auto simp: crew_ok_def set_replaced_def)
qed

lemma set_replaced_others:
  "set ps \<subseteq> set (rn_processes r) \<Longrightarrow> name \<notin> fst ` set ps \<Longrightarrow> set ps \<subseteq> set (rn_processes (set_replaced name r))"
  by (force simp: set_replaced_def)

lemma replace_one_crew:
  assumes ok: "crew_ok armed_texts m r" and there: "np \<in> set (rn_processes r)"
    and others: "set ps \<subseteq> set (rn_processes r)" "fst np \<notin> fst ` set ps"
  shows "crew_ok armed_texts m (replace_one holding planned alive pid_of np r)"
    and "set ps \<subseteq> set (rn_processes (replace_one holding planned alive pid_of np r))"
proof -
  obtain name p where np: "np = (name, p)" by (cases np)
  let ?r = "set_replaced name r"
  have "crew_ok armed_texts m (replace_one holding planned alive pid_of np r)
      \<and> set ps \<subseteq> set (rn_processes (replace_one holding planned alive pid_of np r))"
  proof (cases "alive (pr_pid p) \<or> pr_replaced p \<or> holding \<and> rn_api r \<noteq> Some name")
    case True
    then show ?thesis using ok others(1) by (auto simp: replace_one_def np)
  next
    case False
    then have "\<not> pr_replaced p" by simp
    note repl = set_replaced_crew [OF ok there [unfolded np] this]
    have ps: "set ps \<subseteq> set (rn_processes ?r)" using set_replaced_others [OF others(1)] others(2) by (simp add: np)
    have api: "\<not> is_worker name" if "rn_api r = Some name" using ok that by (simp add: crew_ok_def names_ok_def)
    consider (api) "rn_api r = Some name" | (worker) "rn_api r \<noteq> Some name" "is_worker name"
      | (old) "rn_api r \<noteq> Some name" "\<not> is_worker name" by blast
    then show ?thesis
    proof cases
      case api
      then have "replace_one holding planned alive pid_of np r = start_api planned pid_of ?r"
        using False by (simp add: replace_one_def np)
      moreover have "crew_ok armed_texts m ?r" using repl(1) \<open>rn_api r = Some name \<Longrightarrow> \<not> is_worker name\<close> api by simp
      ultimately show ?thesis using start_api_crew [of armed_texts m ?r planned pid_of] ps by auto
    next
      case worker
      then have "replace_one holding planned alive pid_of np r = start_worker pid_of ?r"
        using False by (simp add: replace_one_def np)
      moreover have "crew_ok armed_texts (m - 1) ?r" "0 < m" using repl worker by simp_all
      ultimately show ?thesis using start_worker_crew [of armed_texts "m - 1" ?r pid_of] ps by auto
    next
      case old
      then have "replace_one holding planned alive pid_of np r = ?r"
        using False by (simp add: replace_one_def np)
      then show ?thesis using repl(1) old ps by simp
    qed
  qed
  then show "crew_ok armed_texts m (replace_one holding planned alive pid_of np r)"
    and "set ps \<subseteq> set (rn_processes (replace_one holding planned alive pid_of np r))" by blast+
qed

lemma replace_the_dead_crew:
  assumes "crew_ok armed_texts m r"
  shows "crew_ok armed_texts m (replace_the_dead s planned alive pid_of r)"
proof -
  have "crew_ok armed_texts m (fold (replace_one holding planned alive pid_of) ps r)"
    if "crew_ok armed_texts m r" "set ps \<subseteq> set (rn_processes r)" "distinct (map fst ps)" for ps r holding
    using that
  proof (induction ps arbitrary: r)
    case (Cons np ps)
    from Cons.prems have "np \<in> set (rn_processes r)" "set ps \<subseteq> set (rn_processes r)" "fst np \<notin> fst ` set ps" by auto
    from replace_one_crew [OF Cons.prems(1) this, of holding planned alive pid_of] Cons show ?case by simp
  qed simp
  moreover have "distinct (map fst (rn_processes r))" using assms by (simp add: crew_ok_def names_ok_def)
  ultimately show ?thesis unfolding replace_the_dead_def Let_def using assms by blast
qed

subsection \<open>Reading and waking forget no one\<close>

text \<open>Reading faults, resuming and waking leave the crew as it is.\<close>

definition same_crew :: "run_state \<Rightarrow> run_state \<Rightarrow> bool" where
  "same_crew r r' \<longleftrightarrow> rn_arms r' = rn_arms r \<and> rn_processes r' = rn_processes r \<and> rn_api r' = rn_api r
     \<and> rn_api_starts r' = rn_api_starts r"

lemma same_crew_ok: "same_crew r r' \<Longrightarrow> crew_ok armed_texts m r \<Longrightarrow> crew_ok armed_texts m r'"
  by (simp add: same_crew_def crew_ok_def names_ok_def handed_out_def crew_def)

lemma same_crew_fold:
  assumes "\<And>x r. same_crew r (f x r)"
  shows "same_crew r (fold f xs r)"
proof (induction xs arbitrary: r)
  case (Cons x xs)
  then show ?case using assms [of r x] Cons [of "f x r"] by (simp add: same_crew_def)
qed (simp add: same_crew_def)

lemma read_fault_crew: "same_crew r (read_fault s clock pause f r)"
  by (simp add: same_crew_def read_fault_def Let_def)

lemma resume_one_crew: "same_crew r (resume_one now x r)"
  by (simp add: same_crew_def resume_one_def signal_to_def Let_def split: prod.splits)

lemma wake_one_crew: "wake_one seen_db now w r = Inr r' \<Longrightarrow> same_crew r r'"
  by (auto simp: same_crew_def wake_one_def get_key_def signal_to_def Let_def split: prod.splits option.splits if_splits)

lemma fst_set_dict_put: "fst ` set (dict_put d k v) = insert k (fst ` set d)"
  by (induction d k v rule: dict_put.induct) auto

lemma fst_set_remove: "fst ` set (remove k d) = fst ` set d - {k}"
  by (force simp: remove_def)

lemma read_fault_paused:
  assumes "paused_ok s r"
  shows "paused_ok s (read_fault s clock pause f r)"
  using assms by (auto simp: paused_ok_def looked_after_def read_fault_def Let_def fst_set_dict_put)

lemma resume_one_paused:
  assumes "paused_ok s r" and "sc_action s \<noteq> ''hang''"
  shows "paused_ok s (resume_one now x r)"
  using assms by (auto simp: paused_ok_def looked_after_def resume_one_def signal_to_def Let_def fst_set_remove split: prod.splits)

lemma wake_one_paused:
  assumes "paused_ok s r" and "sc_action s \<noteq> ''hang''" and "fst (snd w) < length (rn_faults r)"
    and "fa_pid (rn_faults r ! fst (snd w)) = fst w"
    and "wake_one seen_db now w r = Inr r'"
  shows "paused_ok s r'"
proof -
  obtain pid k t where w: "w = (pid, k, t)" by (cases w)
  let ?f = "rn_faults r ! k"
  show ?thesis
  proof (cases "r' = r")
    case False
    with assms(5) obtain v where r': "r' = (signal_to pid SIG_CONT r)
        \<lparr>rn_faults := (rn_faults r)[k := ?f\<lparr>fa_woke := v\<rparr>], rn_overtake := remove pid (rn_overtake r)\<rparr>"
      by (auto simp: w wake_one_def get_key_def Let_def split: option.splits if_splits)
    have same: "\<exists>g \<in> set (rn_faults r). fa_action f = fa_action g \<and> fa_pid f = fa_pid g" if "f \<in> set (rn_faults r')" for f
    proof -
      have "f \<in> insert (?f\<lparr>fa_woke := v\<rparr>) (set (rn_faults r))"
        using set_update_subset_insert [of "rn_faults r" k "?f\<lparr>fa_woke := v\<rparr>"] that by (auto simp: r')
      moreover have "?f \<in> set (rn_faults r)" using assms(3) by (simp add: w)
      ultimately show ?thesis by (elim insertE) force+
    qed
    have still: "looked_after s r' p" if "looked_after s r p" for p
      using that assms(2) by (auto simp: looked_after_def r' signal_to_def fst_set_remove)
    have "looked_after s r' (fa_pid f)" if "f \<in> set (rn_faults r')" "fa_action f = ''stop''" for f
      using same [OF that(1)] still that(2) assms(1) by (auto simp: paused_ok_def)
    then show ?thesis using assms(1,2) by (simp add: paused_ok_def r' signal_to_def)
  qed (simp add: assms(1))
qed

text \<open>An entry waiting to be overtaken points at the fault that paused its process.\<close>

definition points_at :: "int list \<Rightarrow> int \<times> nat \<times> seconds \<Rightarrow> bool" where
  "points_at known w \<longleftrightarrow> fst (snd w) < length known \<and> known ! fst (snd w) = fst w"

definition overtake_ok :: "run_state \<Rightarrow> bool" where
  "overtake_ok r \<longleftrightarrow> (\<forall>w \<in> set (rn_overtake r). points_at (map fa_pid (rn_faults r)) w)"

lemma points_at_append: "points_at known w \<Longrightarrow> points_at (known @ rest) w"
  by (simp add: points_at_def nth_append)

lemma read_fault_overtake:
  assumes "overtake_ok r"
  shows "overtake_ok (read_fault s clock pause f r)"
proof -
  have "points_at (map fa_pid (rn_faults r) @ [fa_pid f]) w"
    if "w \<in> set (dict_put (rn_overtake r) (fa_pid f) (length (rn_faults r), t))" for w t
    using set_dict_put [OF that] assms points_at_append
    by (auto simp: overtake_ok_def points_at_def nth_append)
  moreover have "points_at (map fa_pid (rn_faults r) @ [fa_pid f]) w" if "w \<in> set (rn_overtake r)" for w
    using that assms points_at_append by (auto simp: overtake_ok_def)
  ultimately show ?thesis by (simp add: overtake_ok_def read_fault_def Let_def)
qed

lemma wake_one_frame:
  assumes "wake_one seen_db now w r = Inr r'"
  shows "map fa_pid (rn_faults r') = map fa_pid (rn_faults r)" and "set (rn_overtake r') \<subseteq> set (rn_overtake r)"
proof -
  have "map fa_pid ((rn_faults r)[k := (rn_faults r ! k)\<lparr>fa_woke := v\<rparr>]) = map fa_pid (rn_faults r)" for k v
    by (cases "k < length (rn_faults r)") (simp_all add: map_update list_update_same_conv list_update_beyond)
  with assms show "map fa_pid (rn_faults r') = map fa_pid (rn_faults r)" and "set (rn_overtake r') \<subseteq> set (rn_overtake r)"
    by (auto simp: wake_one_def get_key_def signal_to_def remove_def Let_def split: prod.splits option.splits if_splits)
qed

definition run_ok :: "scenario \<Rightarrow> string list \<Rightarrow> run_state \<Rightarrow> bool" where
  "run_ok s armed_texts r \<longleftrightarrow> crew_ok armed_texts (WORKERS + sc_spares s) r \<and> paused_ok s r \<and> overtake_ok r"

lemma run_ok_read: "run_ok s armed_texts (r\<lparr>rn_read := n\<rparr>) = run_ok s armed_texts r"
  by (simp add: run_ok_def crew_ok_def names_ok_def handed_out_def crew_def paused_ok_def looked_after_def overtake_ok_def)

lemma read_faults_ok:
  assumes "run_ok s armed_texts r"
  shows "run_ok s armed_texts (read_faults s clock pause lines r)"
proof -
  have "run_ok s armed_texts (fold (read_fault s clock pause) fs r)" if "run_ok s armed_texts r" for fs r
    using that
  proof (induction fs arbitrary: r)
    case (Cons f fs)
    then show ?case
      using same_crew_ok [OF read_fault_crew] read_fault_paused read_fault_overtake by (simp add: run_ok_def)
  qed simp
  from this [OF assms] show ?thesis by (simp add: read_faults_def run_ok_read)
qed

lemma resume_due_ok:
  assumes "run_ok s armed_texts r"
  shows "run_ok s armed_texts (resume_due now r)"
proof (cases "sc_action s = ''hang''")
  case True
  then have "resume_due now r = r" using assms by (simp add: run_ok_def paused_ok_def resume_due_def)
  with assms show ?thesis by simp
next
  case False
  have "overtake_ok (resume_one now x r)" if "overtake_ok r" for x r
    using that by (simp add: overtake_ok_def resume_one_def signal_to_def split: prod.splits)
  then have "run_ok s armed_texts (fold (resume_one now) xs r)" if "run_ok s armed_texts r" for xs r
    using that
  proof (induction xs arbitrary: r)
    case (Cons x xs)
    then show ?case
      using same_crew_ok [OF resume_one_crew] resume_one_paused [OF _ False] by (simp add: run_ok_def)
  qed simp
  from this [OF assms] show ?thesis by (simp add: resume_due_def)
qed

lemma wake_overtaken_ok:
  assumes "run_ok s armed_texts r" and "wake_overtaken seen_db now r = Inr r'"
  shows "run_ok s armed_texts r'"
proof (cases "sc_action s = ''hang''")
  case True
  then have "r' = r" using assms by (simp add: run_ok_def paused_ok_def wake_overtaken_def)
  with assms show ?thesis by simp
next
  case False
  have "run_ok s armed_texts r'"
    if "run_ok s armed_texts r" "\<forall>w \<in> set ws. points_at (map fa_pid (rn_faults r)) w" "wake_each seen_db now ws r = Inr r'"
    for ws r
    using that
  proof (induction ws arbitrary: r)
    case (Cons w ws)
    from Cons.prems(3) obtain r1 where r1: "wake_one seen_db now w r = Inr r1" "wake_each seen_db now ws r1 = Inr r'"
      by (auto split: sum.splits)
    note same = wake_one_frame [OF r1(1)]
    have w: "fst (snd w) < length (rn_faults r)" "fa_pid (rn_faults r ! fst (snd w)) = fst w"
      using Cons.prems(2) by (auto simp: points_at_def)
    have "paused_ok s r1" using wake_one_paused [OF _ False w r1(1)] Cons.prems(1) by (simp add: run_ok_def)
    moreover have "overtake_ok r1" using Cons.prems(1) same by (auto simp: run_ok_def overtake_ok_def)
    ultimately have "run_ok s armed_texts r1"
      using Cons.prems(1) same_crew_ok [OF wake_one_crew [OF r1(1)]] by (simp add: run_ok_def)
    from Cons.IH [OF this _ r1(2)] Cons.prems(2) same show ?case by simp
  qed simp
  from this [OF assms(1) _ assms(2) [unfolded wake_overtaken_def]] assms(1) show ?thesis
    by (simp add: run_ok_def overtake_ok_def)
qed

lemma replace_one_frame:
  "rn_faults (replace_one h planned alive pid_of np r) = rn_faults r
   \<and> rn_resume_at (replace_one h planned alive pid_of np r) = rn_resume_at r
   \<and> rn_overtake (replace_one h planned alive pid_of np r) = rn_overtake r
   \<and> rn_hung (replace_one h planned alive pid_of np r) = rn_hung r
   \<and> rn_signals (replace_one h planned alive pid_of np r) = rn_signals r"
  by (auto simp: replace_one_def start_api_def start_worker_def spawn_def set_replaced_def Let_def split: prod.splits list.splits)

lemma replace_the_dead_ok:
  assumes "run_ok s armed_texts r"
  shows "run_ok s armed_texts (replace_the_dead s planned alive pid_of r)"
proof -
  have "rn_faults (fold (replace_one h planned alive pid_of) ps r) = rn_faults r
      \<and> rn_resume_at (fold (replace_one h planned alive pid_of) ps r) = rn_resume_at r
      \<and> rn_overtake (fold (replace_one h planned alive pid_of) ps r) = rn_overtake r
      \<and> rn_hung (fold (replace_one h planned alive pid_of) ps r) = rn_hung r
      \<and> rn_signals (fold (replace_one h planned alive pid_of) ps r) = rn_signals r" for h ps r
    by (induction ps arbitrary: r) (simp_all add: replace_one_frame)
  then have "paused_ok s (replace_the_dead s planned alive pid_of r) \<longleftrightarrow> paused_ok s r"
    and "overtake_ok (replace_the_dead s planned alive pid_of r) \<longleftrightarrow> overtake_ok r"
    by (simp_all add: replace_the_dead_def paused_ok_def looked_after_def overtake_ok_def Let_def)
  with assms replace_the_dead_crew show ?thesis by (simp add: run_ok_def)
qed

definition nothing_yet :: "run_state \<Rightarrow> bool" where
  "nothing_yet r \<longleftrightarrow> rn_faults r = [] \<and> rn_resume_at r = [] \<and> rn_overtake r = [] \<and> rn_hung r = {} \<and> rn_signals r = []"

lemma start_worker_nothing: "nothing_yet r \<Longrightarrow> nothing_yet (start_worker pid_of r)"
  by (simp add: nothing_yet_def start_worker_def spawn_def Let_def split: list.split)

lemma start_api_nothing: "nothing_yet r \<Longrightarrow> nothing_yet (start_api planned pid_of r)"
  by (simp add: nothing_yet_def start_api_def spawn_def Let_def)

lemma starting_ok: "starting s armed_texts planned pid_of r \<Longrightarrow> run_ok s armed_texts r"
proof -
  let ?r0 = "if sc_workload s = ''api'' then start_api planned pid_of (new_run armed_texts) else new_run armed_texts"
  have "crew_ok armed_texts 0 (new_run armed_texts)"
    by (simp add: crew_ok_def names_ok_def handed_out_def crew_def new_run_def)
  then have 0: "crew_ok armed_texts 0 ?r0" using start_api_crew(1) by simp
  have crew: "crew_ok armed_texts n ((start_worker pid_of ^^ n) ?r0)" for n
    using 0 start_worker_crew(1) by (induction n) simp_all
  have "nothing_yet (new_run armed_texts)" by (simp add: nothing_yet_def new_run_def)
  then have "nothing_yet ?r0" using start_api_nothing by simp
  then have "nothing_yet ((start_worker pid_of ^^ n) ?r0)" for n
    using start_worker_nothing by (induction n) simp_all
  then have "paused_ok s ((start_worker pid_of ^^ n) ?r0) \<and> overtake_ok ((start_worker pid_of ^^ n) ?r0)" for n
    unfolding nothing_yet_def overtake_ok_def paused_ok_def by auto
  with crew show "starting s armed_texts planned pid_of r \<Longrightarrow> run_ok s armed_texts r"
    unfolding starting_def run_ok_def by blast
qed

interpretation supervision: invariant_system
  "starting s armed_texts planned pid_of" "supervises s planned pid_of" "run_ok s armed_texts"
  for s armed_texts planned pid_of
proof
  show "run_ok s armed_texts r" if "starting s armed_texts planned pid_of r" for r
    using that by (rule starting_ok)
  show "run_ok s armed_texts r'" if "run_ok s armed_texts r" "supervises s planned pid_of r r'" for r r'
    using that(2)
  proof (rule supervisesE)
    show "r' = read_faults s clock pause lines r \<Longrightarrow> ?thesis" for clock pause lines
      using read_faults_ok [OF that(1)] by simp
    show "r' = resume_due now r \<Longrightarrow> ?thesis" for now
      using resume_due_ok [OF that(1)] by simp
    show "wake_overtaken seen_db now r = Inr r' \<Longrightarrow> ?thesis" for seen_db now
      by (rule wake_overtaken_ok [OF that(1)])
    show "r' = replace_the_dead s planned alive pid_of r \<Longrightarrow> ?thesis" for alive
      using replace_the_dead_ok [OF that(1)] by simp
  qed
qed


definition demo_scenario :: scenario where
  "demo_scenario = scenario_of ''heartbeat-before-stop'' ''heartbeat.before'' ''stop''
     ''a worker is paused mid-task until well past its lease'' [''retried'', ''fenced'']"

definition demo_start :: run_state where
  "demo_start = (start_worker int ^^ 3) (new_run (arms demo_scenario (\<lambda>_. 1)))"

definition demo_run :: run_state where
  "demo_run = read_faults demo_scenario (\<lambda>_. 10) (\<lambda>_. 2) [demo_fault\<lparr>fa_action := ''stop'', fa_pid := 1\<rparr>] demo_start"


section \<open>The harness's own faults are calls like any other\<close>

text \<open>The calls of \<open>cancel_rows\<close> follow one another: the \<open>k\<close>-th runs between \<open>t k\<close> and \<open>t (Suc k)\<close>.\<close>

lemma cancel_rows_reach:
  assumes "fleet_reachable sha (t 0, d)" and "\<And>k. k < length is \<Longrightarrow> during (t k) (t (Suc k)) (clks (is ! k))"
  shows "fleet_reachable sha (t (length is), snd (cancel_rows clks is cs d))"
  using assms
proof (induction "is" arbitrary: cs d t)
  case (Cons i "is")
  have dur: "during (t 0) (t 1) (clks i)" using Cons.prems(2) [of 0] by simp
  have "fleet_reachable sha (t 1, snd (cancel (clks i) i d))" "fleet_reachable sha (t 1, d)"
    using reach_step [OF Cons.prems(1) step_cancel [OF dur]]
      reach_step [OF Cons.prems(1) step_tick [OF duringD(1) [OF dur]]] by simp_all
  moreover have "during (t (Suc k)) (t (Suc (Suc k))) (clks (is ! k))" if "k < length is" for k
    using Cons.prems(2) [of "Suc k"] that by simp
  ultimately show ?case using Cons.IH [of "\<lambda>k. t (Suc k)"] by simp
qed simp

text \<open>So whatever the harness makes of a run, its database is one the fleet itself could have reached.\<close>

lemma drive_reach:
  assumes "fleet_reachable sha (t 0, d)"
    and "\<And>k. k < length (to_cancel p ids d) \<Longrightarrow> during (t k) (t (Suc k)) (clks (to_cancel p ids d ! k))"
    and "mono t" and "during (t (length (to_cancel p ids d))) now' clk"
    and "drive s planned p own ids faults moment clks locked scan clk o_f d = (o', d')"
  shows "fleet_reachable sha (now', d')"
proof -
  let ?now = "t (length (to_cancel p ids d))"
  have later: "fleet_reachable sha (now', x)" if "fleet_reachable sha (?now, x)" for x
    by (rule reach_step [OF that step_tick [OF duringD(1) [OF assms(4)]]])
  have claimed: "fleet_reachable sha (now', snd (claim locked scan clk w lease x))"
    if "fleet_reachable sha (?now, x)" for w lease x
    by (rule reach_step [OF that step_claim [OF assms(4)]])
  define d1 where "d1 = snd (if sc_workload s = ''cancel'' then cancel_running p ids clks o_f d else (o_f, d))"
  have "t 0 \<le> ?now" using assms(3) by (simp add: monoD)
  then have "fleet_reachable sha (?now, d)" by (rule reach_step [OF assms(1) step_tick])
  moreover have "fleet_reachable sha (?now, snd (cancel_running p ids clks o_f d))"
    using cancel_rows_reach [OF assms(1,2), where cs = "of_cancelled o_f"]
    by (simp add: cancel_running_def Let_def case_prod_unfold)
  ultimately have "fleet_reachable sha (?now, d1)" by (simp add: d1_def)
  moreover have "d' = d1 \<or> d' = snd (claim locked scan clk ''ghost'' GHOST_LEASE_SECONDS d1)"
    using assms(5) by (auto simp: d1_def drive_def ghost_claim_def Let_def split: prod.splits if_splits)
  ultimately show ?thesis using later claimed by blast
qed

end
