(* ===== verification/Bench_Resources.thy ===== *)
theory Bench_Resources
  imports Bench_Metrics
begin

text \<open>
  Where the processor time of a batch went (\<^verbatim>\<open>bench/resources.py\<close>) and the machine it ran on
  (\<^verbatim>\<open>bench/environment.py\<close>): reading \<^verbatim>\<open>/proc\<close> and the control groups, the tree of a process, the sampler
  and its measurement, and the database calls of the workers put together.

  What a file holds is an argument, \<open>None\<close> when it cannot be read; \<open>to_int\<close> is Python's \<^verbatim>\<open>int\<close> of a string,
  \<open>hz\<close> the ticks of a second. Of the exceptions, \<open>Value_error\<close> is told apart from the others, since the
  program catches it alone.

  The lemmas show that a tree's ticks are those of the roots and their descendants, each once, and that what
  is measured stays within its bounds when the kernel's counters do not run backwards.
\<close>

section \<open>Reading the kernel's files\<close>

datatype parse_error = Value_error | Key_error | Index_error

record host_cpu =
  hc_busy :: int
  hc_idle :: int
  hc_steal :: int
  hc_runnable :: int
  hc_cpus :: int

definition host_total :: "host_cpu \<Rightarrow> int" where
  "host_total h = hc_busy h + hc_idle h + hc_steal h"

definition stat_line :: "(string \<Rightarrow> int option) \<Rightarrow> string \<Rightarrow> host_cpu \<Rightarrow> parse_error + host_cpu" where
  "stat_line to_int line h =
     (case split_ws line of
        [] \<Rightarrow> Inr h
      | name # columns \<Rightarrow>
          if name = ''cpu''
          then (case those (map to_int (take 8 columns)) of
                  Some [user, nice, system, idle, iowait, irq, softirq, stolen] \<Rightarrow>
                    Inr (h\<lparr>hc_busy := user + nice + system + irq + softirq, hc_idle := idle + iowait, hc_steal := stolen\<rparr>)
                | _ \<Rightarrow> Inl Value_error)
          else if startswith name ''cpu'' then Inr (h\<lparr>hc_cpus := hc_cpus h + 1\<rparr>)
          else if name = ''procs_running''
          then (case columns of
                  [] \<Rightarrow> Inl Index_error
                | v # _ \<Rightarrow> (case to_int v of None \<Rightarrow> Inl Value_error | Some n \<Rightarrow> Inr (h\<lparr>hc_runnable := n\<rparr>)))
          else Inr h)"

fun stat_lines :: "(string \<Rightarrow> int option) \<Rightarrow> string list \<Rightarrow> host_cpu \<Rightarrow> parse_error + host_cpu" where
  "stat_lines to_int [] h = Inr h"
| "stat_lines to_int (line # rest) h =
     (case stat_line to_int line h of Inl e \<Rightarrow> Inl e | Inr h' \<Rightarrow> stat_lines to_int rest h')"

definition parse_stat :: "(string \<Rightarrow> int option) \<Rightarrow> string \<Rightarrow> parse_error + host_cpu" where
  "parse_stat to_int t =
     stat_lines to_int (splitlines t) \<lparr>hc_busy = 0, hc_idle = 0, hc_steal = 0, hc_runnable = 0, hc_cpus = 0\<rparr>"

definition pressure_fields :: "string list \<Rightarrow> (string \<times> string) list option" where
  "pressure_fields columns =
     (if list_all (\<lambda>f. CHR ''='' \<in> set f) columns then Some (dict_of (map (partition_on (CHR ''='')) columns)) else None)"

fun pressure_lines :: "(string \<Rightarrow> int option) \<Rightarrow> string list \<Rightarrow> parse_error + rat" where
  "pressure_lines to_int [] = Inl Value_error"
| "pressure_lines to_int (line # rest) =
     (case split_ws line of
        [] \<Rightarrow> pressure_lines to_int rest
      | kind # columns \<Rightarrow>
          if kind \<noteq> ''some'' then pressure_lines to_int rest
          else (case pressure_fields columns of
                  None \<Rightarrow> Inl Value_error
                | Some kvs \<Rightarrow>
                    (case dict_get kvs ''total'' of
                       None \<Rightarrow> Inl Key_error
                     | Some v \<Rightarrow>
                         (case to_int v of None \<Rightarrow> Inl Value_error | Some n \<Rightarrow> Inr (of_int n / 1000000)))))"

definition parse_pressure :: "(string \<Rightarrow> int option) \<Rightarrow> string \<Rightarrow> parse_error + rat" where
  "parse_pressure to_int t = pressure_lines to_int (splitlines t)"

text \<open>The command name may hold spaces and parentheses; every failure here is a \<^verbatim>\<open>ValueError\<close>.\<close>

definition parse_process :: "(string \<Rightarrow> int option) \<Rightarrow> string \<Rightarrow> (int \<times> int) option" where
  "parse_process to_int t =
     (if CHR '')'' \<notin> set t then None
      else let columns = split_ws (drop 1 (snd (rpartition_on (CHR '')'') t)))
           in case those (map to_int (take 4 (drop 11 columns))) of
                Some [utime, stime, cutime, cstime] \<Rightarrow>
                  map_option (\<lambda>parent. (parent, utime + stime + cutime + cstime)) (to_int (columns ! 1))
              | _ \<Rightarrow> None)"

type_synonym process_table = "(int \<times> int \<times> int) list"

text \<open>A directory is its entries with the text of a file in each.\<close>

definition add_process ::
  "(string \<Rightarrow> int option) \<Rightarrow> string \<times> string option \<Rightarrow> process_table \<Rightarrow> process_table" where
  "add_process to_int entry table =
     (if isdigit (fst entry)
      then (case Option.bind (snd entry) (parse_process to_int) of
              None \<Rightarrow> table
            | Some row \<Rightarrow> dict_put table (int (read_nat (fst entry))) row)
      else table)"

definition processes :: "(string \<Rightarrow> int option) \<Rightarrow> (string \<times> string option) list \<Rightarrow> process_table" where
  "processes to_int entries = fold (add_process to_int) entries []"

definition named :: "string list \<Rightarrow> (string \<times> string option) list \<Rightarrow> int list" where
  "named names entries =
     sort (map (\<lambda>e. int (read_nat (fst e)))
       (filter (\<lambda>e. isdigit (fst e) \<and> (\<exists>c \<in> set_option (snd e). strip c \<in> set names)) entries))"

section \<open>The tree of a process\<close>

definition parents_of :: "process_table \<Rightarrow> int set" where
  "parents_of table = set (map (\<lambda>(_, parent, _). parent) table)"

definition children_of :: "process_table \<Rightarrow> int \<Rightarrow> int list" where
  "children_of table p = map fst (filter (\<lambda>(_, parent, _). parent = p) table)"

lemma card_minus_insert:
  assumes "finite A" and "x \<in> A" and "x \<notin> B"
  shows "card (A - insert x B) < card (A - B)"
  using assms by (intro psubset_card_mono) auto

text \<open>The loop of \<^verbatim>\<open>tree_ticks\<close>: it takes from the end of \<open>pending\<close> and adds children there.\<close>

function descend :: "process_table \<Rightarrow> int set \<Rightarrow> int list \<Rightarrow> int set" where
  "descend table met pending =
     (if pending = [] then met
      else if last pending \<in> met then descend table met (butlast pending)
      else descend table (insert (last pending) met) (butlast pending @ children_of table (last pending)))"
  by pat_completeness auto

text \<open>A process that was not met before is either the parent of some other or adds nothing to do.\<close>

termination
proof (relation "measures [\<lambda>(table, met, _). card (parents_of table - met), \<lambda>(_, _, pending). length pending]")
  fix table :: process_table and met :: "int set" and pending :: "int list"
  assume p: "pending \<noteq> []" and new: "last pending \<notin> met"
  show "((table, insert (last pending) met, butlast pending @ children_of table (last pending)), table, met, pending)
      \<in> measures [\<lambda>(table, met, _). card (parents_of table - met), \<lambda>(_, _, pending). length pending]"
  proof (cases "last pending \<in> parents_of table")
    case True
    with new have "card (parents_of table - insert (last pending) met) < card (parents_of table - met)"
      by (intro card_minus_insert) (simp_all add: parents_of_def)
    then show ?thesis by simp
  next
    case False
    then have "children_of table (last pending) = []"
      by (force simp: children_of_def parents_of_def filter_empty_conv)
    moreover have "parents_of table - insert (last pending) met = parents_of table - met" using False by auto
    ultimately show ?thesis using p by simp
  qed
qed auto

declare descend.simps [simp del]

definition ticks_of :: "process_table \<Rightarrow> int \<Rightarrow> int" where
  "ticks_of table p = (case dict_get table p of None \<Rightarrow> 0 | Some (_, n) \<Rightarrow> n)"

definition tree_ticks :: "process_table \<Rightarrow> int list \<Rightarrow> int option" where
  "tree_ticks table roots =
     (if roots = [] \<or> list_ex (\<lambda>r. dict_get table r = None) roots then None
      else Some (sum (ticks_of table) (descend table {} roots)))"

section \<open>The resources of a batch\<close>

record batch_resources =
  bs_window_seconds :: seconds
  bs_cpus :: int
  bs_sample_seconds :: seconds
  bs_host_busy_cpu_seconds :: rat
  bs_host_busy_fraction :: rat
  bs_host_steal_fraction :: rat
  bs_cpu_wait_fraction :: "rat option"
  bs_processes :: "(string \<times> rat option) list"
  bs_timeline :: "(seconds \<times> rat \<times> int) list"

definition round_to :: "nat \<Rightarrow> rat \<Rightarrow> rat" where
  "round_to n x = of_int (half_even (x * 10 ^ n)) / 10 ^ n"

text \<open>What the machine says at one moment.\<close>

record reading =
  rd_clock :: seconds
  rd_stat :: string
  rd_pressure :: "string option"
  rd_processes :: "(string \<times> string option) list"
  rd_own_cpu :: seconds

record sampler =
  sm_groups :: "(string \<times> int list) list"
  sm_interval :: seconds
  sm_samples :: "(seconds \<times> host_cpu) list"
  sm_trees_before :: "(string \<times> int option) list"
  sm_own_before :: seconds
  sm_pressure_before :: "rat option"
  sm_result :: "batch_resources option"

definition new_sampler :: "(string \<times> int list) list \<Rightarrow> seconds \<Rightarrow> sampler" where
  "new_sampler groups interval =
     \<lparr>sm_groups = groups, sm_interval = interval, sm_samples = [], sm_trees_before = [], sm_own_before = 0,
      sm_pressure_before = None, sm_result = None\<rparr>"

definition pressure_of :: "(string \<Rightarrow> int option) \<Rightarrow> string option \<Rightarrow> parse_error + rat option" where
  "pressure_of to_int file =
     (case file of
        None \<Rightarrow> Inr None
      | Some t \<Rightarrow>
          (case parse_pressure to_int t of
             Inr x \<Rightarrow> Inr (Some x)
           | Inl e \<Rightarrow> if e = Value_error then Inr None else Inl e))"

definition trees_of :: "(string \<Rightarrow> int option) \<Rightarrow> (string \<times> int list) list \<Rightarrow> reading \<Rightarrow> (string \<times> int option) list" where
  "trees_of to_int groups rd =
     (let table = processes to_int (rd_processes rd) in map (\<lambda>(name, roots). (name, tree_ticks table roots)) groups)"

definition sample :: "(string \<Rightarrow> int option) \<Rightarrow> reading \<Rightarrow> sampler \<Rightarrow> parse_error + sampler" where
  "sample to_int rd s =
     (case parse_stat to_int (rd_stat rd) of
        Inl e \<Rightarrow> Inl e
      | Inr h \<Rightarrow> Inr (s\<lparr>sm_samples := sm_samples s @ [(rd_clock rd, h)]\<rparr>))"

definition enter :: "(string \<Rightarrow> int option) \<Rightarrow> reading \<Rightarrow> sampler \<Rightarrow> parse_error + sampler" where
  "enter to_int rd s =
     (case pressure_of to_int (rd_pressure rd) of
        Inl e \<Rightarrow> Inl e
      | Inr waited \<Rightarrow>
          sample to_int rd
            (s\<lparr>sm_trees_before := trees_of to_int (sm_groups s) rd, sm_own_before := rd_own_cpu rd,
               sm_pressure_before := waited, sm_samples := []\<rparr>))"

definition timeline_of :: "(seconds \<times> host_cpu) list \<Rightarrow> (seconds \<times> rat \<times> int) list" where
  "timeline_of samples =
     map (\<lambda>((_, before), (now, after)).
         let spent = host_total after - host_total before
         in (round_to 3 (now - fst (hd samples)),
             round4 (if spent \<noteq> 0 then of_int (hc_busy after - hc_busy before) / of_int spent else 0),
             hc_runnable after))
       (zip samples (tl samples))"

definition used_by :: "int \<Rightarrow> (string \<times> int option) list \<Rightarrow> string \<times> int option \<Rightarrow> string \<times> rat option" where
  "used_by hz trees_before tree =
     (fst tree,
      case (snd tree, dict_get trees_before (fst tree)) of
        (Some after, Some (Some before)) \<Rightarrow> Some (of_int (after - before) / of_int hz)
      | _ \<Rightarrow> None)"

definition measure_batch ::
  "int \<Rightarrow> (string \<times> int option) list \<Rightarrow> seconds \<Rightarrow> rat option \<Rightarrow> sampler \<Rightarrow> batch_resources" where
  "measure_batch hz trees own pressure s =
     (let (start, first) = hd (sm_samples s); (finish, end_cpu) = last (sm_samples s);
          window = finish - start; ticks = host_total end_cpu - host_total first;
          busy = hc_busy end_cpu - hc_busy first
      in \<lparr>bs_window_seconds = round_to 3 window, bs_cpus = hc_cpus end_cpu, bs_sample_seconds = sm_interval s,
          bs_host_busy_cpu_seconds = of_int busy / of_int hz,
          bs_host_busy_fraction = (if ticks \<noteq> 0 then round4 (of_int busy / of_int ticks) else 0),
          bs_host_steal_fraction =
            (if ticks \<noteq> 0 then round4 (of_int (hc_steal end_cpu - hc_steal first) / of_int ticks) else 0),
          bs_cpu_wait_fraction =
            (case (pressure, sm_pressure_before s) of
               (Some after, Some before) \<Rightarrow> if window > 0 then Some (round4 ((after - before) / window)) else None
             | _ \<Rightarrow> None),
          bs_processes =
            dict_put (dict_of (map (used_by hz (sm_trees_before s)) trees)) ''harness'' (Some (round_to 3 (own - sm_own_before s))),
          bs_timeline = timeline_of (sm_samples s)\<rparr>)"

text \<open>Leaving without an exception takes a last sample and measures.\<close>

definition leave :: "int \<Rightarrow> (string \<Rightarrow> int option) \<Rightarrow> bool \<Rightarrow> reading \<Rightarrow> sampler \<Rightarrow> parse_error + sampler" where
  "leave hz to_int raised rd s =
     (if raised then Inr s
      else case sample to_int rd s of
        Inl e \<Rightarrow> Inl e
      | Inr s' \<Rightarrow>
          (case pressure_of to_int (rd_pressure rd) of
             Inl e \<Rightarrow> Inl e
           | Inr waited \<Rightarrow>
               Inr (s'\<lparr>sm_result := Some (measure_batch hz (trees_of to_int (sm_groups s') rd) (rd_own_cpu rd) waited s')\<rparr>)))"

fun sample_on :: "(string \<Rightarrow> int option) \<Rightarrow> reading list \<Rightarrow> sampler \<Rightarrow> parse_error + sampler" where
  "sample_on to_int [] s = Inr s"
| "sample_on to_int (rd # rest) s =
     (case sample to_int rd s of Inl e \<Rightarrow> Inl e | Inr s' \<Rightarrow> sample_on to_int rest s')"

text \<open>
  A batch under the sampler: an exception of the task that samples on a timer is raised where the batch is
  left, since it is awaited there.
\<close>

definition sampled_batch ::
  "int \<Rightarrow> (string \<Rightarrow> int option) \<Rightarrow> reading \<Rightarrow> reading list \<Rightarrow> bool \<Rightarrow> reading \<Rightarrow> sampler \<Rightarrow> parse_error + sampler" where
  "sampled_batch hz to_int first timer raised end_rd s =
     (case enter to_int first s of
        Inl e \<Rightarrow> Inl e
      | Inr s1 \<Rightarrow> (case sample_on to_int timer s1 of Inl e \<Rightarrow> Inl e | Inr s2 \<Rightarrow> leave hz to_int raised end_rd s2))"

section \<open>The database calls of the workers\<close>

record call_stats =
  cs_calls :: int
  cs_seconds :: seconds
  cs_max_seconds :: seconds

definition no_calls :: call_stats where
  "no_calls = \<lparr>cs_calls = 0, cs_seconds = 0, cs_max_seconds = 0\<rparr>"

definition add_calls :: "string \<times> call_stats \<Rightarrow> (string \<times> call_stats) list \<Rightarrow> (string \<times> call_stats) list" where
  "add_calls ns d =
     (let (name, stats) = ns; old = (case dict_get d name of None \<Rightarrow> no_calls | Some x \<Rightarrow> x)
      in dict_put d name
           \<lparr>cs_calls = cs_calls old + cs_calls stats, cs_seconds = cs_seconds old + cs_seconds stats,
            cs_max_seconds = max (cs_max_seconds old) (cs_max_seconds stats)\<rparr>)"

definition round_calls :: "call_stats \<Rightarrow> call_stats" where
  "round_calls c = c\<lparr>cs_seconds := round_to 6 (cs_seconds c), cs_max_seconds := round_to 6 (cs_max_seconds c)\<rparr>"

text \<open>A report is the \<^verbatim>\<open>database\<close> member of what a worker wrote as it exited.\<close>

definition combine_calls :: "(string \<times> call_stats) list list \<Rightarrow> (string \<times> call_stats) list" where
  "combine_calls reports =
     (let d = fold (fold add_calls) reports [] in map (\<lambda>(name, c). (name, round_calls c)) (sort_key fst d))"

section \<open>The machine\<close>

record environment =
  en_git_sha :: string
  en_git_dirty :: bool
  en_cpu_model :: string
  en_logical_cpus :: int
  en_usable_cpus :: int
  en_cpu_quota_cores :: "rat option"
  en_memory_total_gib :: rat
  en_memory_limit_gib :: "rat option"
  en_virtualized :: bool
  en_os :: string
  en_kernel :: string
  en_python :: string
  en_sandbox_network_isolated :: "bool option"

definition GIB :: rat where
  "GIB = 1024 * 1024 * 1024"

definition field_of :: "string \<Rightarrow> string \<Rightarrow> string option" where
  "field_of t name =
     map_option (\<lambda>line. strip (snd (partition_on (CHR '':'') line)))
       (find (\<lambda>line. strip (fst (partition_on (CHR '':'') line)) = name) (splitlines t))"

text \<open>\<^verbatim>\<open>x or y\<close>, where a missing or an empty text is false.\<close>

definition text_or :: "string option \<Rightarrow> string \<Rightarrow> string" where
  "text_or x y = (case x of None \<Rightarrow> y | Some v \<Rightarrow> if v = [] then y else v)"

definition parse_cpu_model :: "string \<Rightarrow> string \<Rightarrow> string" where
  "parse_cpu_model processor cpuinfo =
     text_or (field_of cpuinfo ''model name'') (text_or (Some processor) ''unknown'')"

definition parse_virtualized :: "string \<Rightarrow> bool" where
  "parse_virtualized cpuinfo \<longleftrightarrow> ''hypervisor'' \<in> set (split_ws (text_or (field_of cpuinfo ''flags'') []))"

definition parse_mem_total_gib :: "(string \<Rightarrow> int option) \<Rightarrow> string \<Rightarrow> rat option" where
  "parse_mem_total_gib to_int meminfo =
     map_option (\<lambda>n. round_to 2 (of_int n * 1024 / GIB))
       (to_int (hd (split_ws (text_or (field_of meminfo ''MemTotal'') ''0 kB''))))"

text \<open>A file of a control group, by its path below the root; \<open>None\<close> stands for no limit, and an exception is \<open>Inl\<close>.\<close>

type_synonym cgroup = "string \<Rightarrow> string option"

definition cpu_quota_cores :: "(string \<Rightarrow> int option) \<Rightarrow> cgroup \<Rightarrow> string + rat option" where
  "cpu_quota_cores to_int files =
     (case files ''cpu.max'' of
        Some v2 \<Rightarrow>
          (let (limit, window) = partition_on (CHR '' '') v2
           in if limit = ''max'' then Inr None
              else (case (to_int limit, to_int window) of
                      (Some l, Some w) \<Rightarrow> if w = 0 then Inl ''division by zero'' else Inr (Some (of_int l / of_int w))
                    | _ \<Rightarrow> Inl ''invalid literal''))
      | None \<Rightarrow>
          (case (files ''cpu/cpu.cfs_quota_us'', files ''cpu/cpu.cfs_period_us'') of
             (Some quota, Some period) \<Rightarrow>
               (case to_int quota of
                  None \<Rightarrow> Inl ''invalid literal''
                | Some q \<Rightarrow>
                    if q < 0 then Inr None
                    else (case to_int period of
                            None \<Rightarrow> Inl ''invalid literal''
                          | Some p \<Rightarrow> if p = 0 then Inl ''division by zero'' else Inr (Some (of_int q / of_int p))))
           | _ \<Rightarrow> Inr None))"

definition memory_limit_bytes :: "(string \<Rightarrow> int option) \<Rightarrow> cgroup \<Rightarrow> string + int option" where
  "memory_limit_bytes to_int files =
     (let v2 = files ''memory.max'';
          raw = (if v2 = None \<or> v2 = Some [] then files ''memory/memory.limit_in_bytes'' else v2)
      in case raw of
           None \<Rightarrow> Inr None
         | Some t \<Rightarrow>
             if t = ''max'' then Inr None
             else (case to_int t of None \<Rightarrow> Inl ''invalid literal'' | Some n \<Rightarrow> Inr (Some n)))"

text \<open>\<^verbatim>\<open>text.strip(quote)\<close>.\<close>

definition strip_char :: "char \<Rightarrow> string \<Rightarrow> string" where
  "strip_char c t = rev (dropWhile (\<lambda>x. x = c) (rev (dropWhile (\<lambda>x. x = c) t)))"

definition os_name :: "string \<Rightarrow> string \<Rightarrow> string" where
  "os_name platform release =
     (case field_of (map (\<lambda>c. if c = CHR ''='' then CHR '':'' else c) release) ''PRETTY_NAME'' of
        None \<Rightarrow> platform
      | Some pretty \<Rightarrow> if pretty = [] then platform else strip_char (CHR 0x22) pretty)"

text \<open>A limit at or above the physical memory limits nothing.\<close>

definition memory_limit_gib :: "rat \<Rightarrow> int option \<Rightarrow> rat option" where
  "memory_limit_gib memory_total_gib limit =
     (case limit of
        None \<Rightarrow> None
      | Some n \<Rightarrow>
          (let gib = round_to 2 (of_int n / GIB) in if gib \<ge> memory_total_gib then None else Some gib))"

record machine =
  mc_git_sha :: "string option"
  mc_git_status :: "string option"
  mc_cpuinfo :: "string option"
  mc_meminfo :: "string option"
  mc_os_release :: "string option"
  mc_cgroup :: cgroup
  mc_processor :: string
  mc_cpu_count :: "int option"
  mc_affinity :: "int option"
  mc_platform :: string
  mc_kernel :: string
  mc_python :: string
  mc_isolated :: bool

definition capture_environment :: "(string \<Rightarrow> int option) \<Rightarrow> machine \<Rightarrow> string + environment" where
  "capture_environment to_int mc =
     (let cpuinfo = text_or (mc_cpuinfo mc) [] in
      case parse_mem_total_gib to_int (text_or (mc_meminfo mc) []) of
        None \<Rightarrow> Inl ''invalid literal''
      | Some memory_total \<Rightarrow>
          (case memory_limit_bytes to_int (mc_cgroup mc) of
             Inl e \<Rightarrow> Inl e
           | Inr limit \<Rightarrow>
               (case cpu_quota_cores to_int (mc_cgroup mc) of
                  Inl e \<Rightarrow> Inl e
                | Inr quota \<Rightarrow>
                    (let logical = (case mc_cpu_count mc of None \<Rightarrow> 1 | Some n \<Rightarrow> if n = 0 then 1 else n)
                     in Inr \<lparr>en_git_sha = text_or (mc_git_sha mc) ''unknown'',
                             en_git_dirty = (text_or (mc_git_status mc) [] \<noteq> []),
                             en_cpu_model = parse_cpu_model (mc_processor mc) cpuinfo,
                             en_logical_cpus = logical,
                             en_usable_cpus = (case mc_affinity mc of None \<Rightarrow> logical | Some n \<Rightarrow> n),
                             en_cpu_quota_cores = quota, en_memory_total_gib = memory_total,
                             en_memory_limit_gib = memory_limit_gib memory_total limit,
                             en_virtualized = parse_virtualized cpuinfo,
                             en_os = os_name (mc_platform mc) (text_or (mc_os_release mc) []),
                             en_kernel = mc_kernel mc, en_python = mc_python mc,
                             en_sandbox_network_isolated = Some (mc_isolated mc)\<rparr>))))"

section \<open>A tree is its roots and their descendants\<close>

inductive_set descendants :: "process_table \<Rightarrow> int set \<Rightarrow> int set" for table and roots where
  root: "r \<in> roots \<Longrightarrow> r \<in> descendants table roots"
| child: "p \<in> descendants table roots \<Longrightarrow> (c, p, n) \<in> set table \<Longrightarrow> c \<in> descendants table roots"

lemma children_of_iff: "c \<in> set (children_of table p) \<longleftrightarrow> (\<exists>n. (c, p, n) \<in> set table)"
  by (force simp: children_of_def)

lemma descendants_closed: "c \<in> set (children_of table p) \<Longrightarrow> p \<in> descendants table R \<Longrightarrow> c \<in> descendants table R"
  by (auto simp: children_of_iff intro: descendants.child)

lemma descendants_least:
  assumes "R \<subseteq> X" and "\<And>p c. p \<in> X \<Longrightarrow> c \<in> set (children_of table p) \<Longrightarrow> c \<in> X"
  shows "descendants table R \<subseteq> X"
proof
  fix p assume "p \<in> descendants table R"
  then show "p \<in> X"
  proof induction
    case (child p c n)
    then show ?case using assms(2) [of p c] by (auto simp: children_of_iff)
  qed (use assms(1) in blast)
qed

lemma descend_descendants:
  "(\<And>p c. p \<in> met \<Longrightarrow> c \<in> set (children_of table p) \<Longrightarrow> c \<in> met \<union> set pending)
    \<Longrightarrow> descend table met pending = met \<union> descendants table (set pending)"
proof (induction table met pending rule: descend.induct)
  case (1 table met pending)
  note around = "1.prems"
  show ?case
  proof (cases "pending = []")
    case True
    then show ?thesis using descendants_least [of "{}" "{}" table] by (simp add: descend.simps)
  next
    case p: False
    define rest where "rest = butlast pending"
    define q where "q = last pending"
    have split: "set pending = insert q (set rest)"
      using p unfolding rest_def q_def by (metis append_butlast_last_id list.set(1,2) set_append Un_insert_right sup_bot_right)
    have q: "q \<in> descendants table (set pending)" unfolding split by (simp add: descendants.root)
    show ?thesis
    proof (cases "q \<in> met")
      case True
      have "descend table met rest = met \<union> descendants table (set rest)"
        using True p around unfolding rest_def q_def
        by (intro "1.IH"(1)) (auto simp: split [unfolded q_def rest_def])
      then have eq: "descend table met pending = met \<union> descendants table (set rest)"
        using True p by (subst descend.simps) (simp add: rest_def q_def)
      have "descendants table (set pending) \<subseteq> met \<union> descendants table (set rest)"
        using around True unfolding split
        by (intro descendants_least) (blast intro: descendants.root descendants_closed)+
      moreover have "descendants table (set rest) \<subseteq> descendants table (set pending)"
        unfolding split by (intro descendants_least) (blast intro: descendants.root descendants_closed)+
      ultimately show ?thesis unfolding eq by blast
    next
      case False
      let ?next = "set rest \<union> set (children_of table q)"
      have "descend table (insert q met) (rest @ children_of table q) = insert q met \<union> descendants table ?next"
        using False p around "1.IH"(2) unfolding rest_def q_def
        by (auto simp: split [unfolded q_def rest_def])
      then have eq: "descend table met pending = insert q met \<union> descendants table ?next"
        using False p by (subst descend.simps) (simp add: rest_def q_def)
      have "descendants table ?next \<subseteq> descendants table (set pending)"
        using q unfolding split by (intro descendants_least) (blast intro: descendants.root descendants_closed)+
      moreover have "descendants table (set pending) \<subseteq> insert q met \<union> descendants table ?next"
        using around unfolding split
        by (intro descendants_least) (blast intro: descendants.root descendants_closed)+
      ultimately show ?thesis using q unfolding eq by blast
    qed
  qed
qed

text \<open>
  The ticks of a process tree: unknown if there is no root or one of the roots is not running, and otherwise
  those of the roots and of all their descendants, each counted once, however the roots lie to each other.
\<close>

theorem tree_ticks_exact:
  "tree_ticks table roots =
     (if roots \<noteq> [] \<and> set roots \<subseteq> set (dict_keys table)
      then Some (sum (ticks_of table) (descendants table (set roots))) else None)"
  using descend_descendants [of "{}" table roots]
  by (auto simp: tree_ticks_def list_ex_iff dict_get_None_iff)

section \<open>What is measured stays within its bounds\<close>

lemma half_even_mono: "x \<le> y \<Longrightarrow> half_even x \<le> half_even y"
proof -
  assume le: "x \<le> y"
  then have floors: "\<lfloor>x\<rfloor> \<le> \<lfloor>y\<rfloor>" by (rule floor_mono)
  show ?thesis
  proof (cases "\<lfloor>x\<rfloor> = \<lfloor>y\<rfloor>")
    case True
    then show ?thesis using le by (auto simp: half_even_def Let_def)
  next
    case False
    with floors have "\<lfloor>x\<rfloor> + 1 \<le> \<lfloor>y\<rfloor>" by simp
    then show ?thesis by (auto simp: half_even_def Let_def)
  qed
qed

lemma round_to_mono: "x \<le> y \<Longrightarrow> round_to n x \<le> round_to n y"
  by (auto simp: round_to_def divide_right_mono half_even_mono mult_right_mono)

lemma round_to_0 [simp]: "round_to n 0 = 0"
  by (simp add: round_to_def half_even_def)

text \<open>The kernel's counters and the clock do not run backwards.\<close>

definition later :: "seconds \<times> host_cpu \<Rightarrow> seconds \<times> host_cpu \<Rightarrow> bool" where
  "later x y \<longleftrightarrow> fst x \<le> fst y \<and> hc_busy (snd x) \<le> hc_busy (snd y) \<and> hc_idle (snd x) \<le> hc_idle (snd y)
     \<and> hc_steal (snd x) \<le> hc_steal (snd y)"

lemma shares_unit:
  assumes "later x y"
  shows "round4 (of_int (hc_busy (snd y) - hc_busy (snd x)) / of_int (host_total (snd y) - host_total (snd x))) \<in> {0..1}"
    and "round4 (of_int (hc_steal (snd y) - hc_steal (snd x)) / of_int (host_total (snd y) - host_total (snd x))) \<in> {0..1}"
proof -
  have part: "round4 (of_int a / of_int b) \<in> {0..1}" if "0 \<le> a" "a \<le> b" for a b :: int
    using that by (auto intro!: round4_unit simp: divide_le_eq_1)
  show "round4 (of_int (hc_busy (snd y) - hc_busy (snd x)) / of_int (host_total (snd y) - host_total (snd x))) \<in> {0..1}"
    and "round4 (of_int (hc_steal (snd y) - hc_steal (snd x)) / of_int (host_total (snd y) - host_total (snd x))) \<in> {0..1}"
    by (rule part; use assms in \<open>simp add: later_def host_total_def\<close>)+
qed

lemma neighbours:
  "sorted_wrt P xs \<Longrightarrow> (x, y) \<in> set (zip xs (tl xs)) \<Longrightarrow> P x y \<and> y \<in> set xs"
proof (induction xs)
  case (Cons a xs)
  then show ?case by (cases xs) auto
qed simp

lemma first_and_last:
  assumes "sorted_wrt P xs" and "\<And>x. P x x" and "y \<in> set xs"
  shows "P (hd xs) y" and "P y (last xs)"
proof -
  show "P (hd xs) y" using assms by (cases xs) auto
  have "xs \<noteq> []" using assms(3) by auto
  then show "P y (last xs)" using assms by (induction xs rule: rev_induct) (auto simp: sorted_wrt_append)
qed

lemma timeline_bounds:
  assumes "sorted_wrt later samples" and "(t, share, n) \<in> set (timeline_of samples)"
  shows "share \<in> {0..1}" and "t \<in> {0..round_to 3 (fst (last samples) - fst (hd samples))}"
proof -
  have refl: "later x x" for x by (simp add: later_def)
  from assms(2) obtain x y where xy: "(x, y) \<in> set (zip samples (tl samples))"
    and t: "t = round_to 3 (fst y - fst (hd samples))"
    and share: "share = round4 (if host_total (snd y) - host_total (snd x) \<noteq> 0
        then of_int (hc_busy (snd y) - hc_busy (snd x)) / of_int (host_total (snd y) - host_total (snd x)) else 0)"
    by (auto simp: timeline_of_def Let_def)
  note order = neighbours [OF assms(1) xy]
  then show "share \<in> {0..1}"
    unfolding share using shares_unit(1) [of x y] round4_unit [of 0] by auto
  have "later (hd samples) y" "later y (last samples)"
    using first_and_last [OF assms(1) refl] order by blast+
  then have "0 \<le> fst y - fst (hd samples)" "fst y - fst (hd samples) \<le> fst (last samples) - fst (hd samples)"
    by (simp_all add: later_def)
  then show "t \<in> {0..round_to 3 (fst (last samples) - fst (hd samples))}"
    unfolding t using round_to_mono [of 0 "fst y - fst (hd samples)" 3] round_to_mono by auto
qed

lemma sample_frame:
  "sample to_int rd s = Inr s' \<Longrightarrow> \<exists>h. s' = s\<lparr>sm_samples := sm_samples s @ [(rd_clock rd, h)]\<rparr>"
  by (auto simp: sample_def split: sum.splits)

lemma sample_on_frame:
  "sample_on to_int rds s = Inr s' \<Longrightarrow>
    \<exists>more. length more = length rds \<and> s' = s\<lparr>sm_samples := sm_samples s @ more\<rparr>"
proof (induction rds arbitrary: s)
  case (Cons rd rds)
  then obtain s1 where s1: "sample to_int rd s = Inr s1" "sample_on to_int rds s1 = Inr s'"
    by (auto split: sum.splits)
  from sample_frame [OF s1(1)] Cons.IH [OF s1(2)] obtain h more where
    "s1 = s\<lparr>sm_samples := sm_samples s @ [(rd_clock rd, h)]\<rparr>" "length more = length rds"
    "s' = s1\<lparr>sm_samples := sm_samples s1 @ more\<rparr>" by blast
  then show ?case by (intro exI [of _ "(rd_clock rd, h) # more"]) simp
qed simp

lemma sampled_batch_frame:
  assumes "sampled_batch hz to_int first timer False end_rd (new_sampler groups interval) = Inr s"
  shows "length (sm_samples s) = length timer + 2" and "sm_trees_before s = trees_of to_int groups first"
    and "\<exists>waited s'. sm_samples s' = sm_samples s \<and> sm_trees_before s' = sm_trees_before s
      \<and> sm_result s = Some (measure_batch hz (trees_of to_int groups end_rd) (rd_own_cpu end_rd) waited s')"
proof -
  from assms obtain s1 s2 s3 waited where s1: "enter to_int first (new_sampler groups interval) = Inr s1"
    and s2: "sample_on to_int timer s1 = Inr s2" and s3: "sample to_int end_rd s2 = Inr s3"
    and s: "s = s3\<lparr>sm_result := Some (measure_batch hz (trees_of to_int (sm_groups s3) end_rd) (rd_own_cpu end_rd) waited s3)\<rparr>"
    by (auto simp: sampled_batch_def leave_def split: sum.splits)
  have "length (sm_samples s1) = 1" "sm_groups s1 = groups" "sm_trees_before s1 = trees_of to_int groups first"
    using s1 sample_frame by (force simp: enter_def new_sampler_def split: sum.splits)+
  with sample_on_frame [OF s2] sample_frame [OF s3]
  show "length (sm_samples s) = length timer + 2" "sm_trees_before s = trees_of to_int groups first"
    and "\<exists>waited s'. sm_samples s' = sm_samples s \<and> sm_trees_before s' = sm_trees_before s
      \<and> sm_result s = Some (measure_batch hz (trees_of to_int groups end_rd) (rd_own_cpu end_rd) waited s')"
    unfolding s by (auto intro!: exI [of _ waited] exI [of _ s3])
qed

text \<open>What a group used is the difference of its trees, if both are known.\<close>

lemma measured_group:
  assumes "distinct (map fst groups)" and "''harness'' \<notin> fst ` set groups" and "(name, roots) \<in> set groups"
    and "sm_trees_before s = trees_of to_int groups first"
  shows "dict_get (bs_processes (measure_batch hz (trees_of to_int groups end_rd) own waited s)) name = Some
        (case (tree_ticks (processes to_int (rd_processes first)) roots, tree_ticks (processes to_int (rd_processes end_rd)) roots) of
           (Some before, Some after) \<Rightarrow> Some (of_int (after - before) / of_int hz)
         | _ \<Rightarrow> None)"
proof -
  let ?used = "map (used_by hz (trees_of to_int groups first)) (trees_of to_int groups end_rd)"
  let ?start = "tree_ticks (processes to_int (rd_processes first)) roots"
  let ?finish = "tree_ticks (processes to_int (rd_processes end_rd)) roots"
  have keys: "map fst ?used = map fst groups" "map fst (trees_of to_int groups first) = map fst groups"
    by (simp_all add: trees_of_def used_by_def Let_def comp_def case_prod_unfold)
  have there: "(name, ?start) \<in> set (trees_of to_int groups first)" "(name, ?finish) \<in> set (trees_of to_int groups end_rd)"
    using assms(3) by (auto simp: trees_of_def Let_def image_iff intro!: bexI [of _ "(name, roots)"])
  have before: "dict_get (trees_of to_int groups first) name = Some ?start"
    using there(1) assms(1) keys(2) by (intro dict_get_distinct) simp_all
  have "(name, snd (used_by hz (trees_of to_int groups first) (name, ?finish))) \<in> set ?used"
    using imageI [OF there(2), of "used_by hz (trees_of to_int groups first)"] by (simp add: used_by_def)
  then have "dict_get ?used name = Some (snd (used_by hz (trees_of to_int groups first) (name, ?finish)))"
    using assms(1) keys(1) by (intro dict_get_distinct) simp_all
  moreover have "dict_of ?used = ?used" using assms(1) keys(1) by (intro dict_of_distinct) simp
  moreover have "name \<noteq> ''harness''" using assms(2,3) by force
  ultimately have "dict_get (bs_processes (measure_batch hz (trees_of to_int groups end_rd) own waited s)) name
      = Some (snd (used_by hz (trees_of to_int groups first) (name, ?finish)))"
    by (simp add: measure_batch_def Let_def assms(4) split: prod.splits)
  then show ?thesis by (simp add: used_by_def before split: option.splits)
qed


lemma map_sum_Inr: "map_sum f g x = Inr y \<longleftrightarrow> (\<exists>z. x = Inr z \<and> g z = y)"
  by (cases x) auto

definition to_int_of :: "string \<Rightarrow> int option" where
  "to_int_of t = (if isdigit t then Some (int (read_nat t)) else None)"

definition demo_reading :: "seconds \<Rightarrow> string \<Rightarrow> string \<Rightarrow> reading" where
  "demo_reading t stat own =
     \<lparr>rd_clock = t, rd_stat = stat, rd_pressure = None,
      rd_processes = [(''7'', Some ('') S 1 0 0 0 0 0 0 0 0 0 '' @ own @ '' 0 0 0''))], rd_own_cpu = 0\<rparr>"

definition demo_sampled :: "parse_error + sampler" where
  "demo_sampled =
     sampled_batch 100 to_int_of (demo_reading 0 ''cpu 1 0 0 1 0 0 0 0'' ''3'') [] False
       (demo_reading 2 ''cpu 3 0 0 2 0 0 0 5'' ''9'') (new_sampler [(''workers'', [7]), (''docker'', [])] 1)"


section \<open>The calls of the workers add up\<close>

lemma fold_fold_concat: "fold (fold f) xss a = fold f (concat xss) a"
  by (induction xss arbitrary: a) simp_all

lemma fold_max_snoc: "fold max (xs @ [x]) (0 :: rat) = max (fold max xs 0) x"
  by (simp add: max.commute)

lemma dict_get_add_calls:
  "dict_get (fold add_calls es []) name =
     (let xs = map snd (filter (\<lambda>e. fst e = name) es)
      in if xs = [] then None
         else Some \<lparr>cs_calls = sum_list (map cs_calls xs), cs_seconds = sum_list (map cs_seconds xs),
                    cs_max_seconds = fold max (map cs_max_seconds xs) 0\<rparr>)"
proof (induction es rule: rev_induct)
  case (snoc e es)
  then show ?case
    by (cases e) (auto simp: add_calls_def no_calls_def Let_def max.commute)
qed simp

lemma distinct_add_calls: "distinct (dict_keys (fold add_calls es []))"
  by (induction es rule: rev_induct) (auto simp: add_calls_def Let_def simp del: dict_keys_put split: prod.splits)

lemma dict_get_map: "dict_get (map (\<lambda>(k, v). (k, f v)) d) k = map_option f (dict_get d k)"
  by (induction d) auto

lemma dict_get_sort: "distinct (dict_keys d) \<Longrightarrow> dict_get (sort_key fst d) k = dict_get d k"
proof -
  assume d: "distinct (dict_keys d)"
  then have "distinct (map fst (sort_key fst d))"
    by (subst mset_eq_imp_distinct_iff [of _ "map fst d"]) (simp_all only: mset_map mset_sort)
  then show ?thesis using d unfolding dict_get_map_of by (subst map_of_inject_set [THEN iffD2]) simp_all
qed

text \<open>
  The database calls of a pool: for every kind of call that some worker reports, the number of its calls
  and their time added up over all the workers, and the longest one, whatever the order of the reports.
\<close>

theorem combine_calls_totals:
  "dict_get (combine_calls reports) name =
     (let xs = map snd (filter (\<lambda>e. fst e = name) (concat reports))
      in if xs = [] then None
         else Some (round_calls \<lparr>cs_calls = sum_list (map cs_calls xs), cs_seconds = sum_list (map cs_seconds xs),
                    cs_max_seconds = fold max (map cs_max_seconds xs) 0\<rparr>))"
  unfolding combine_calls_def Let_def fold_fold_concat dict_get_map dict_get_sort [OF distinct_add_calls]
  by (simp add: dict_get_add_calls Let_def)

end
