(* ===== verification/Bench_Records.thy ===== *)
theory Bench_Records
  imports Bench_Resources
begin

text \<open>
  The records of bench trials and their summary (\<^verbatim>\<open>bench/records.py\<close>). A record's JSON form is written out
  where the program compares or flattens it; two configurations are equal when their JSON forms hold the
  same members, in any order. Reading and writing the files is not modelled.

  The lemmas show what a summary says: which metrics it has, that each median lies within its range, when
  the outcomes are identical, and that the order of the trials is of no consequence.
\<close>

section \<open>Records\<close>

record bench_config =
  cf_mode :: string
  cf_latency :: "string option"
  cf_executor :: string
  cf_workers :: int
  cf_topology :: string
  cf_tasks :: int
  cf_seed :: int
  cf_taskset_version :: string
  cf_taskset_digest :: string
  cf_recordings_digest :: "string option"
  cf_provider :: string
  cf_model :: string
  cf_agent_configs :: json
  cf_sandbox_config :: json
  cf_tool_transport :: string
  cf_percentile_method :: string
  cf_execution :: "json option"
  cf_system_prompts :: "(string \<times> string) list option"
  cf_agent_digest :: "string option"
  cf_price :: "price option"

record trial_record =
  tl_label :: string
  tl_trial :: int
  tl_started_at :: string
  tl_interrupted :: "string option"
  tl_config :: bench_config
  tl_environment :: environment
  tl_metrics :: trial_metrics
  tl_jobs :: "bench_result list"
  tl_resources :: "batch_resources option"
  tl_database :: "(string \<times> call_stats) list option"

record stat =
  st_median :: rat
  st_min :: rat
  st_max :: rat

record summary_record =
  su_label :: string
  su_trials :: "int list"
  su_interrupted_trials :: "int list"
  su_config :: bench_config
  su_environments :: "environment list"
  su_outcomes_identical :: bool
  su_metrics :: "(string \<times> stat) list"

section \<open>Their JSON form\<close>

definition option_json :: "('a \<Rightarrow> json) \<Rightarrow> 'a option \<Rightarrow> json" where
  "option_json f x = (case x of None \<Rightarrow> JNull | Some v \<Rightarrow> f v)"

definition price_dump :: "price \<Rightarrow> json" where
  "price_dump p =
     JObj [(''model'', JStr (pr_model p)), (''provider'', JStr (pr_provider p)), (''currency'', JStr (pr_currency p)),
           (''input_per_million_tokens'', JFloat (pr_input_per_million_tokens p)),
           (''output_per_million_tokens'', JFloat (pr_output_per_million_tokens p)), (''source'', JStr (pr_source p)),
           (''retrieved'', JStr (pr_retrieved p)), (''how'', JStr (pr_how p)), (''note'', JStr (pr_note p))]"

definition config_fields :: "bench_config \<Rightarrow> (string \<times> json) list" where
  "config_fields c =
     [(''mode'', JStr (cf_mode c)), (''latency'', option_json JStr (cf_latency c)), (''executor'', JStr (cf_executor c)),
      (''workers'', JInt (cf_workers c)), (''topology'', JStr (cf_topology c)), (''tasks'', JInt (cf_tasks c)),
      (''seed'', JInt (cf_seed c)), (''taskset_version'', JStr (cf_taskset_version c)),
      (''taskset_digest'', JStr (cf_taskset_digest c)), (''recordings_digest'', option_json JStr (cf_recordings_digest c)),
      (''provider'', JStr (cf_provider c)), (''model'', JStr (cf_model c)), (''agent_configs'', cf_agent_configs c),
      (''sandbox_config'', cf_sandbox_config c), (''tool_transport'', JStr (cf_tool_transport c)),
      (''percentile_method'', JStr (cf_percentile_method c)), (''execution'', option_json id (cf_execution c)),
      (''system_prompts'', option_json (\<lambda>ps. JObj (map (\<lambda>(k, v). (k, JStr v)) ps)) (cf_system_prompts c)),
      (''agent_digest'', option_json JStr (cf_agent_digest c)), (''price'', option_json price_dump (cf_price c))]"

text \<open>\<^verbatim>\<open>==\<close> of two JSON values: the members of an object in any order, numbers as numbers.\<close>

definition same_json :: "json \<Rightarrow> json \<Rightarrow> bool" where
  "same_json x y \<longleftrightarrow> jsonb x = jsonb y"

definition same_config :: "bench_config \<Rightarrow> bench_config \<Rightarrow> bool" where
  "same_config c d \<longleftrightarrow> same_json (JObj (config_fields c)) (JObj (config_fields d))"

definition distribution_dump :: "distribution \<Rightarrow> json" where
  "distribution_dump d =
     JObj [(''n'', JInt (int (di_n d))), (''mean'', JFloat (di_mean d)), (''p50'', JFloat (di_p50 d)),
           (''p95'', JFloat (di_p95 d)), (''p99'', JFloat (di_p99 d)), (''max'', JFloat (di_max d))]"

definition counts_dump :: "counts \<Rightarrow> json" where
  "counts_dump c =
     JObj [(''jobs'', JInt (int (cn_jobs c))), (''solved'', JInt (int (cn_solved c))),
           (''escalated'', JInt (int (cn_escalated c))), (''failed_task'', JInt (int (cn_failed_task c))),
           (''failed_infra'', JInt (int (cn_failed_infra c))), (''failed_harness'', JInt (int (cn_failed_harness c))),
           (''retries'', JInt (cn_retries c)), (''matched_expectation'', JInt (int (cn_matched_expectation c)))]"

definition metrics_dump :: "trial_metrics \<Rightarrow> json" where
  "metrics_dump m =
     JObj [(''batch_wall_clock_seconds'', JFloat (me_batch_wall_clock_seconds m)),
           (''tasks_per_minute'', JFloat (me_tasks_per_minute m)),
           (''queue_wait_seconds'', distribution_dump (me_queue_wait_seconds m)),
           (''service_time_seconds'', distribution_dump (me_service_time_seconds m)),
           (''service_time_excluding_retry_waits_seconds'', distribution_dump (me_service_time_excluding_retry_waits_seconds m)),
           (''utilization'', JFloat (me_utilization m)), (''utilization_bucket_seconds'', JFloat (me_utilization_bucket_seconds m)),
           (''utilization_timeline'', JList (map JFloat (me_utilization_timeline m))), (''counts'', counts_dump (me_counts m)),
           (''tokens_per_task'', distribution_dump (me_tokens_per_task m)), (''prompt_tokens'', JInt (me_prompt_tokens m)),
           (''completion_tokens'', JInt (me_completion_tokens m)), (''llm_calls'', JInt (me_llm_calls m)),
           (''retry_wait_seconds'', JFloat (me_retry_wait_seconds m)), (''cost_usd'', option_json JFloat (me_cost_usd m))]"

definition resources_dump :: "batch_resources \<Rightarrow> json" where
  "resources_dump b =
     JObj [(''window_seconds'', JFloat (bs_window_seconds b)), (''cpus'', JInt (bs_cpus b)),
           (''sample_seconds'', JFloat (bs_sample_seconds b)), (''host_busy_cpu_seconds'', JFloat (bs_host_busy_cpu_seconds b)),
           (''host_busy_fraction'', JFloat (bs_host_busy_fraction b)), (''host_steal_fraction'', JFloat (bs_host_steal_fraction b)),
           (''cpu_wait_fraction'', option_json JFloat (bs_cpu_wait_fraction b)),
           (''processes'', JObj (map (\<lambda>(k, v). (k, option_json JFloat v)) (bs_processes b))),
           (''timeline'', JList (map (\<lambda>(t, x, n). JList [JFloat t, JFloat x, JInt n]) (bs_timeline b)))]"

definition calls_dump :: "call_stats \<Rightarrow> json" where
  "calls_dump c =
     JObj [(''calls'', JInt (cs_calls c)), (''seconds'', JFloat (cs_seconds c)), (''max_seconds'', JFloat (cs_max_seconds c))]"

section \<open>Summaries\<close>

fun outcome_text :: "job_outcome \<Rightarrow> string" where
  "outcome_text SOLVED = ''solved''"
| "outcome_text OUT_ESCALATED = ''escalated''"
| "outcome_text OUT_FAILED = ''failed''"

definition job_outcome_of :: "bench_result \<Rightarrow> string \<times> string \<times> string option" where
  "job_outcome_of j = (jr_job_id j, outcome_text (jr_outcome j), jr_failure_mode j)"

text \<open>Two runs of one job with the same outcome, one without a failure mode, would not compare; here they do.\<close>

definition outcome_vector :: "trial_record \<Rightarrow> (string \<times> string \<times> string option) list" where
  "outcome_vector t = sort (map job_outcome_of (tl_jobs t))"

fun flatten_scalars :: "json \<Rightarrow> string \<Rightarrow> (string \<times> rat) list" where
  "flatten_scalars (JObj kvs) prefix =
     dict_of (concat (map (\<lambda>(k, v). flatten_scalars v (if prefix \<noteq> [] then prefix @ ''.'' @ k else k)) kvs))"
| "flatten_scalars (JInt n) prefix = [(prefix, of_int n)]"
| "flatten_scalars (JFloat x) prefix = [(prefix, x)]"
| "flatten_scalars _ prefix = []"

definition trial_scalars :: "trial_record \<Rightarrow> (string \<times> rat) list" where
  "trial_scalars t =
     dict_of (flatten_scalars (metrics_dump (tl_metrics t)) []
       @ (case tl_resources t of None \<Rightarrow> [] | Some b \<Rightarrow> flatten_scalars (resources_dump b) ''resources'')
       @ (case tl_database t of None \<Rightarrow> []
          | Some calls \<Rightarrow> flatten_scalars (JObj (map (\<lambda>(k, c). (k, calls_dump c)) calls)) ''database''))"

text \<open>\<^verbatim>\<open>statistics.median\<close> of some numbers.\<close>

definition median :: "rat list \<Rightarrow> rat" where
  "median xs =
     (let ys = sort xs; n = length xs
      in if odd n then ys ! (n div 2) else (ys ! (n div 2 - 1) + ys ! (n div 2)) / 2)"

definition stat_of :: "rat list \<Rightarrow> stat" where
  "stat_of xs = \<lparr>st_median = median xs, st_min = min_default xs 0, st_max = max_default xs 0\<rparr>"

text \<open>The names every sample has.\<close>

definition common_names :: "(string \<times> rat) list list \<Rightarrow> string list" where
  "common_names samples =
     sort (filter (\<lambda>k. list_all (\<lambda>s. dict_get s k \<noteq> None) (tl samples)) (dict_keys (hd samples)))"

definition summarize :: "string \<Rightarrow> trial_record list \<Rightarrow> string + summary_record" where
  "summarize label trials =
     (case filter (\<lambda>t. tl_interrupted t = None) trials of
        [] \<Rightarrow> Inl ''there are no complete trials to summarize''
      | t0 # rest \<Rightarrow>
          if list_ex (\<lambda>t. \<not> same_config (tl_config t) (tl_config t0)) (t0 # rest)
          then Inl ''trials with different configurations cannot be summarized together''
          else
            let samples = map trial_scalars (t0 # rest)
            in Inr \<lparr>su_label = label, su_trials = map tl_trial (t0 # rest),
                    su_interrupted_trials = map tl_trial (filter (\<lambda>t. tl_interrupted t \<noteq> None) trials),
                    su_config = tl_config t0, su_environments = map tl_environment (t0 # rest),
                    su_outcomes_identical = list_all (\<lambda>t. outcome_vector t = outcome_vector t0) (t0 # rest),
                    su_metrics = map (\<lambda>k. (k, stat_of (map (\<lambda>s. the (dict_get s k)) samples))) (common_names samples)\<rparr>)"

definition load_trials :: "trial_record list \<Rightarrow> trial_record list" where
  "load_trials records = sort_key tl_trial records"

section \<open>What a summary says\<close>

definition complete_trials :: "trial_record list \<Rightarrow> trial_record list" where
  "complete_trials trials = filter (\<lambda>t. tl_interrupted t = None) trials"

definition measured_names :: "trial_record list \<Rightarrow> string set" where
  "measured_names ts = {k. ts \<noteq> [] \<and> (\<forall>t \<in> set ts. k \<in> set (dict_keys (trial_scalars t)))}"

definition measured :: "trial_record list \<Rightarrow> string \<Rightarrow> rat list" where
  "measured ts k = map (\<lambda>t. the (dict_get (trial_scalars t) k)) ts"

lemma finite_measured: "finite (measured_names ts)"
proof (cases ts)
  case (Cons t us)
  then have "measured_names ts \<subseteq> set (dict_keys (trial_scalars t))" by (simp add: measured_names_def subset_iff)
  then show ?thesis by (rule finite_subset) simp
qed (simp add: measured_names_def)

lemma common_names_trials:
  "common_names (map trial_scalars (t # ts)) = sorted_list_of_set (measured_names (t # ts))"
proof (rule sorted_distinct_set_unique)
  have "distinct (dict_keys (trial_scalars t))" by (simp add: trial_scalars_def distinct_dict_of)
  then show "distinct (common_names (map trial_scalars (t # ts)))" by (simp add: common_names_def)
  show "set (common_names (map trial_scalars (t # ts))) = set (sorted_list_of_set (measured_names (t # ts)))"
    by (auto simp: finite_measured common_names_def measured_names_def list_all_iff dict_get_None_iff)
qed (simp_all add: common_names_def)

lemma stat_of_mset: "mset xs = mset ys \<Longrightarrow> stat_of xs = stat_of ys"
proof -
  assume eq: "mset xs = mset ys"
  have "sort xs = sort ys" by (rule properties_for_sort) (simp_all add: eq)
  moreover have "length xs = length ys" "set xs = set ys" using eq by (metis size_mset, metis set_mset_mset)
  moreover have "min_default xs 0 = min_default ys 0 \<and> max_default xs 0 = max_default ys 0"
  proof (cases "xs = []")
    case False
    have "ys \<noteq> []" using False eq by auto
    note ends = min_default_Min [OF False] min_default_Min [OF this] max_default_Max [OF False] max_default_Max [OF this]
    show ?thesis unfolding ends by (simp only: \<open>set xs = set ys\<close>)
  qed (use eq in simp)
  ultimately show ?thesis by (simp add: stat_of_def median_def Let_def)
qed

lemma median_between:
  assumes "xs \<noteq> []"
  shows "Min (set xs) \<le> median xs" and "median xs \<le> Max (set xs)"
proof -
  have nth: "Min (set xs) \<le> sort xs ! i \<and> sort xs ! i \<le> Max (set xs)" if "i < length xs" for i
    using that nth_mem [of i "sort xs"] by simp
  have half: "length xs div 2 < length xs" "length xs div 2 - 1 < length xs" using assms by (cases xs; simp)+
  show "Min (set xs) \<le> median xs" "median xs \<le> Max (set xs)"
    using nth [OF half(1)] nth [OF half(2)] by (auto simp: median_def Let_def)
qed

lemma stat_ordered:
  assumes "xs \<noteq> []"
  shows "st_min (stat_of xs) \<le> st_median (stat_of xs)" and "st_median (stat_of xs) \<le> st_max (stat_of xs)"
    and "st_min (stat_of xs) = Min (set xs)" and "st_max (stat_of xs) = Max (set xs)"
  using median_between [OF assms] by (simp_all add: stat_of_def min_default_Min max_default_Max assms)

lemma outcome_vector_eq:
  "outcome_vector t = outcome_vector u \<longleftrightarrow> mset (map job_outcome_of (tl_jobs t)) = mset (map job_outcome_of (tl_jobs u))"
proof
  assume "outcome_vector t = outcome_vector u"
  then show "mset (map job_outcome_of (tl_jobs t)) = mset (map job_outcome_of (tl_jobs u))"
    unfolding outcome_vector_def by (metis mset_sort)
qed (auto simp: outcome_vector_def intro: properties_for_sort)

lemma same_config_trans: "same_config c d \<Longrightarrow> same_config e d \<Longrightarrow> same_config c e"
  by (simp add: same_config_def same_json_def)

lemma summarize_Inr:
  "(\<exists>s. summarize label trials = Inr s) \<longleftrightarrow> complete_trials trials \<noteq> []
     \<and> (\<forall>t \<in> set (complete_trials trials). \<forall>u \<in> set (complete_trials trials). same_config (tl_config t) (tl_config u))"
  by (cases "complete_trials trials")
     (auto simp: summarize_def complete_trials_def Let_def list_ex_iff same_config_def same_json_def)

lemma summarize_metrics:
  assumes "summarize label trials = Inr s"
  shows "su_metrics s = map (\<lambda>k. (k, stat_of (measured (complete_trials trials) k)))
      (sorted_list_of_set (measured_names (complete_trials trials)))"
    and "su_outcomes_identical s \<longleftrightarrow> (\<forall>t \<in> set (complete_trials trials). \<forall>u \<in> set (complete_trials trials).
      mset (map job_outcome_of (tl_jobs t)) = mset (map job_outcome_of (tl_jobs u)))"
proof -
  obtain t ts where c: "complete_trials trials = t # ts"
    using assms by (cases "complete_trials trials") (auto simp: summarize_def complete_trials_def)
  with assms have s: "su_metrics s = map (\<lambda>k. (k, stat_of (map (\<lambda>s. the (dict_get s k)) (map trial_scalars (t # ts)))))
        (common_names (map trial_scalars (t # ts)))"
      "su_outcomes_identical s = list_all (\<lambda>u. outcome_vector u = outcome_vector t) (t # ts)"
    by (auto simp: summarize_def complete_trials_def Let_def split: if_splits)
  show "su_metrics s = map (\<lambda>k. (k, stat_of (measured (complete_trials trials) k)))
      (sorted_list_of_set (measured_names (complete_trials trials)))"
    unfolding s(1) common_names_trials c by (simp add: measured_def comp_def)
  show "su_outcomes_identical s \<longleftrightarrow> (\<forall>t \<in> set (complete_trials trials). \<forall>u \<in> set (complete_trials trials).
      mset (map job_outcome_of (tl_jobs t)) = mset (map job_outcome_of (tl_jobs u)))"
    unfolding s(2) c by (auto simp: list_all_iff outcome_vector_eq)
qed

lemma measured_mset:
  assumes "mset ts = mset us"
  shows "measured_names ts = measured_names us" and "mset (measured ts k) = mset (measured us k)"
  using assms by (auto simp: measured_names_def measured_def dest: mset_eq_setD)

lemma summary_order:
  assumes "summarize label trials = Inr s" and "mset trials' = mset trials"
  shows "\<exists>s'. summarize label trials' = Inr s' \<and> su_metrics s' = su_metrics s \<and> su_outcomes_identical s' = su_outcomes_identical s"
proof -
  have c: "mset (complete_trials trials') = mset (complete_trials trials)"
    using assms(2) by (simp add: complete_trials_def)
  have set_c: "set (complete_trials trials') = set (complete_trials trials)" by (rule mset_eq_setD [OF c])
  then have "\<exists>s'. summarize label trials' = Inr s'"
    using assms(1) summarize_Inr [of label trials] summarize_Inr [of label trials'] by force
  then obtain s' where s': "summarize label trials' = Inr s'" ..
  have "su_metrics s' = su_metrics s"
    unfolding summarize_metrics(1) [OF s'] summarize_metrics(1) [OF assms(1)] measured_mset(1) [OF c]
    by (simp add: stat_of_mset [OF measured_mset(2) [OF c]])
  moreover have "su_outcomes_identical s' = su_outcomes_identical s"
    unfolding summarize_metrics(2) [OF s'] summarize_metrics(2) [OF assms(1)] set_c ..
  ultimately show ?thesis using s' by blast
qed

text \<open>
  C36. A summary has exactly the metrics every complete trial measured, the least and greatest value of each with
  the median between them; its outcomes are identical exactly if every complete trial had the same outcomes for
  the same jobs; and the order of the trials makes no difference to either.
\<close>

theorem summary_exact:
  assumes "summarize label trials = Inr s"
  shows "(\<forall>k. k \<in> fst ` set (su_metrics s) \<longleftrightarrow> (\<forall>t \<in> set (complete_trials trials). k \<in> set (dict_keys (trial_scalars t))))
    \<and> (\<forall>(k, x) \<in> set (su_metrics s). st_min x = Min (set (measured (complete_trials trials) k))
        \<and> st_max x = Max (set (measured (complete_trials trials) k)) \<and> st_min x \<le> st_median x \<and> st_median x \<le> st_max x)
    \<and> (su_outcomes_identical s \<longleftrightarrow> (\<forall>t \<in> set (complete_trials trials). \<forall>u \<in> set (complete_trials trials).
        mset (map job_outcome_of (tl_jobs t)) = mset (map job_outcome_of (tl_jobs u))))
    \<and> (\<forall>trials'. mset trials' = mset trials \<longrightarrow> (\<exists>s'. summarize label trials' = Inr s'
        \<and> su_metrics s' = su_metrics s \<and> su_outcomes_identical s' = su_outcomes_identical s))"
proof -
  have c: "complete_trials trials \<noteq> []" using assms summarize_Inr by blast
  have "measured (complete_trials trials) k \<noteq> []" for k using c by (simp add: measured_def)
  note ordered = stat_ordered [OF this]
  have "k \<in> fst ` set (su_metrics s) \<longleftrightarrow> (\<forall>t \<in> set (complete_trials trials). k \<in> set (dict_keys (trial_scalars t)))" for k
    unfolding summarize_metrics(1) [OF assms] using c
    by (simp add: finite_measured image_image) (simp add: measured_names_def)
  moreover have "\<forall>(k, x) \<in> set (su_metrics s). st_min x = Min (set (measured (complete_trials trials) k))
        \<and> st_max x = Max (set (measured (complete_trials trials) k)) \<and> st_min x \<le> st_median x \<and> st_median x \<le> st_max x"
    unfolding summarize_metrics(1) [OF assms] using ordered by auto
  ultimately show ?thesis using summarize_metrics(2) [OF assms] summary_order [OF assms] by blast
qed

definition demo_config :: bench_config where
  "demo_config =
     \<lparr>cf_mode = ''replay'', cf_latency = Some ''none'', cf_executor = ''sequential'', cf_workers = 1, cf_topology = ''one'',
      cf_tasks = 1, cf_seed = 1, cf_taskset_version = ''v1'', cf_taskset_digest = ''d'', cf_recordings_digest = None,
      cf_provider = ''groq'', cf_model = ''m'', cf_agent_configs = JObj [], cf_sandbox_config = JObj [],
      cf_tool_transport = ''inproc'', cf_percentile_method = ''linear'', cf_execution = None, cf_system_prompts = None,
      cf_agent_digest = None, cf_price = None\<rparr>"

definition demo_environment :: environment where
  "demo_environment =
     \<lparr>en_git_sha = ''a'', en_git_dirty = False, en_cpu_model = ''c'', en_logical_cpus = 4, en_usable_cpus = 4,
      en_cpu_quota_cores = None, en_memory_total_gib = 8, en_memory_limit_gib = None, en_virtualized = True,
      en_os = ''linux'', en_kernel = ''6'', en_python = ''3'', en_sandbox_network_isolated = None\<rparr>"

definition demo_trial :: "int \<Rightarrow> bench_result list \<Rightarrow> trial_record" where
  "demo_trial n results =
     \<lparr>tl_label = ''l'', tl_trial = n, tl_started_at = ''now'', tl_interrupted = None, tl_config = demo_config,
      tl_environment = demo_environment, tl_metrics = compute_metrics results 1 60, tl_jobs = results, tl_resources = None,
      tl_database = None\<rparr>"

theorem summary_exact_witness:
  "\<exists>s. summarize ''l'' [demo_trial 1 [], demo_trial 2 []] = Inr s \<and> su_outcomes_identical s
     \<and> (\<exists>s'. summarize ''l'' [demo_trial 2 [], demo_trial 1 []] = Inr s' \<and> su_metrics s' = su_metrics s)"
proof -
  have complete: "complete_trials [demo_trial 1 [], demo_trial 2 []] = [demo_trial 1 [], demo_trial 2 []]"
    by (simp add: complete_trials_def demo_trial_def)
  then obtain s where s: "summarize ''l'' [demo_trial 1 [], demo_trial 2 []] = Inr s"
    using summarize_Inr [of "''l''" "[demo_trial 1 [], demo_trial 2 []]"]
    by (auto simp: demo_trial_def same_config_def same_json_def)
  have order: "mset [demo_trial 2 [], demo_trial 1 []] = mset [demo_trial 1 [], demo_trial 2 []]" by simp
  have "tl_jobs (demo_trial n []) = []" for n by (simp add: demo_trial_def)
  then have "su_outcomes_identical s" using summary_exact [OF s] unfolding complete by simp
  moreover have "\<exists>s'. summarize ''l'' [demo_trial 2 [], demo_trial 1 []] = Inr s' \<and> su_metrics s' = su_metrics s"
    using summary_exact [OF s] order by blast
  ultimately show ?thesis using s by blast
qed

end
