(* ===== verification/Bench_Runner.thy ===== *)
theory Bench_Runner
  imports Fleet_Execution Bench_Executor Bench_Records "HOL-Library.Monad_Syntax"
begin

text \<open>
  Benchmark jobs on the fleet's workers (\<^verbatim>\<open>bench/runner.py\<close>, the progress records of \<^verbatim>\<open>bench/executor.py\<close> and the
  retry delays of \<^verbatim>\<open>bench/groq_limits.py\<close>): a payload runs as a replay or against the real model, and what it
  made travels as the JSON body of a fleet outcome, through a \<^verbatim>\<open>jsonb\<close> column, back to the bench.

  Pydantic's readers are written out for the JSON its own dumps give: a number for an integer must have no
  fraction; its coercions of texts to numbers and of numbers to booleans are left out, so a value that needs
  one is refused (\<open>None\<close>, as for every exception). Reading a payload is an argument.

  The lemmas show that an execution and a recording come back from the stored body, and that a job the fleet
  stopped is accounted for from the steps it reported.
\<close>

section \<open>Reading JSON values\<close>

fun str_in :: "json \<Rightarrow> string option" where
  "str_in (JStr s) = Some s"
| "str_in _ = None"

fun bool_in :: "json \<Rightarrow> bool option" where
  "bool_in (JBool b) = Some b"
| "bool_in _ = None"

fun num_in :: "json \<Rightarrow> rat option" where
  "num_in (JInt n) = Some (of_int n)"
| "num_in (JFloat x) = Some x"
| "num_in _ = None"

definition int_in :: "json \<Rightarrow> int option" where
  "int_in v = do { x \<leftarrow> num_in v; if of_int \<lfloor>x\<rfloor> = x then Some \<lfloor>x\<rfloor> else None }"

definition nat_in :: "json \<Rightarrow> nat option" where
  "nat_in v = do { n \<leftarrow> int_in v; if 0 \<le> n then Some (nat n) else None }"

fun list_in :: "(json \<Rightarrow> 'a option) \<Rightarrow> json \<Rightarrow> 'a list option" where
  "list_in f (JList xs) = those (map f xs)"
| "list_in f _ = None"

fun dict_in :: "(json \<Rightarrow> 'a option) \<Rightarrow> json \<Rightarrow> (string \<times> 'a) list option" where
  "dict_in f (JObj kvs) = those (map (\<lambda>(k, v). map_option (Pair k) (f v)) kvs)"
| "dict_in f _ = None"

definition nullable :: "(json \<Rightarrow> 'a option) \<Rightarrow> json \<Rightarrow> 'a option option" where
  "nullable f v = (if v = JNull then Some None else map_option Some (f v))"

text \<open>A required member, and one with a default.\<close>

definition need :: "(json \<Rightarrow> 'a option) \<Rightarrow> string \<Rightarrow> json \<Rightarrow> 'a option" where
  "need f k v = do { x \<leftarrow> obj_get v k; f x }"

definition with_default :: "'a \<Rightarrow> (json \<Rightarrow> 'a option) \<Rightarrow> string \<Rightarrow> json \<Rightarrow> 'a option" where
  "with_default d f k v = (case obj_get v k of None \<Rightarrow> Some d | Some x \<Rightarrow> f x)"

section \<open>An execution as JSON\<close>

fun kind_text :: "failure_kind \<Rightarrow> string" where
  "kind_text KIND_TASK = ''task''"
| "kind_text KIND_INFRA = ''infra''"
| "kind_text KIND_HARNESS = ''harness''"

definition outcome_in :: "json \<Rightarrow> job_outcome option" where
  "outcome_in v =
     do { s \<leftarrow> str_in v;
          if s = ''solved'' then Some SOLVED else if s = ''escalated'' then Some OUT_ESCALATED
          else if s = ''failed'' then Some OUT_FAILED else None }"

definition kind_in :: "json \<Rightarrow> failure_kind option" where
  "kind_in v =
     do { s \<leftarrow> str_in v;
          if s = ''task'' then Some KIND_TASK else if s = ''infra'' then Some KIND_INFRA
          else if s = ''harness'' then Some KIND_HARNESS else None }"

definition texts :: "string list \<Rightarrow> json" where
  "texts xs = JList (map JStr xs)"

definition output_fields :: "job_output \<Rightarrow> (string \<times> json) list" where
  "output_fields x =
     [(''answer'', JStr (jo_answer x)), (''escalation_reason'', JStr (jo_escalation_reason x)),
      (''files_changed'', texts (jo_files_changed x)), (''diff'', JStr (jo_diff x)), (''tests'', JObj (jo_tests x)),
      (''tools'', JObj (map (\<lambda>(k, n). (k, JInt n)) (jo_tools x))), (''model_seconds'', JFloat (jo_model_seconds x))]"

definition output_from :: "json \<Rightarrow> job_output option" where
  "output_from v =
     do { answer \<leftarrow> need str_in ''answer'' v;
          reason \<leftarrow> need str_in ''escalation_reason'' v;
          changed \<leftarrow> need (list_in str_in) ''files_changed'' v;
          diff \<leftarrow> need str_in ''diff'' v;
          tests \<leftarrow> need (dict_in Some) ''tests'' v;
          tools \<leftarrow> need (dict_in int_in) ''tools'' v;
          waited \<leftarrow> need num_in ''model_seconds'' v;
          Some \<lparr>jo_answer = answer, jo_escalation_reason = reason, jo_files_changed = changed, jo_diff = diff,
                jo_tests = tests, jo_tools = tools, jo_model_seconds = waited\<rparr> }"

definition execution_fields :: "task_execution \<Rightarrow> (string \<times> json) list" where
  "execution_fields x =
     [(''outcome'', JStr (outcome_text (te_outcome x))), (''failure_mode'', option_json JStr (te_failure_mode x)),
      (''failure_kind'', option_json (JStr \<circ> kind_text) (te_failure_kind x)),
      (''matched_expectation'', JBool (te_matched_expectation x)), (''termination_reason'', JStr (te_termination_reason x)),
      (''iterations'', JInt (int (te_iterations x))), (''llm_calls'', JInt (int (te_llm_calls x))),
      (''prompt_tokens'', JInt (te_prompt_tokens x)), (''completion_tokens'', JInt (te_completion_tokens x)),
      (''retry_wait_seconds'', JFloat (te_retry_wait_seconds x)), (''divergence'', option_json JStr (te_divergence x)),
      (''served_models'', texts (te_served_models x)), (''fingerprints'', texts (te_fingerprints x)),
      (''output'', option_json (JObj \<circ> output_fields) (te_output x))]"

text \<open>\<^verbatim>\<open>TaskExecution.model_validate\<close>.\<close>

definition execution_from :: "json \<Rightarrow> task_execution option" where
  "execution_from v =
     do { out \<leftarrow> need outcome_in ''outcome'' v;
          mode \<leftarrow> need (nullable str_in) ''failure_mode'' v;
          kind \<leftarrow> need (nullable kind_in) ''failure_kind'' v;
          met \<leftarrow> need bool_in ''matched_expectation'' v;
          reason \<leftarrow> need str_in ''termination_reason'' v;
          steps \<leftarrow> need nat_in ''iterations'' v;
          calls \<leftarrow> need nat_in ''llm_calls'' v;
          prompt \<leftarrow> need int_in ''prompt_tokens'' v;
          completion \<leftarrow> need int_in ''completion_tokens'' v;
          waited \<leftarrow> need num_in ''retry_wait_seconds'' v;
          diverged \<leftarrow> need (nullable str_in) ''divergence'' v;
          models \<leftarrow> with_default [] (list_in str_in) ''served_models'' v;
          prints \<leftarrow> with_default [] (list_in str_in) ''fingerprints'' v;
          left \<leftarrow> with_default None (nullable output_from) ''output'' v;
          Some \<lparr>te_outcome = out, te_failure_mode = mode, te_failure_kind = kind, te_matched_expectation = met,
                te_termination_reason = reason, te_iterations = steps, te_llm_calls = calls, te_prompt_tokens = prompt,
                te_completion_tokens = completion, te_retry_wait_seconds = waited, te_divergence = diverged,
                te_served_models = models, te_fingerprints = prints, te_output = left\<rparr> }"

section \<open>A recording as JSON\<close>

definition call_fields :: "recorded_call \<Rightarrow> (string \<times> json) list" where
  "call_fields c =
     [(''index'', JInt (int (rc_index c))), (''prefix_sha256'', option_json JStr (rc_prefix_sha256 c)),
      (''observation_head'', JStr (rc_observation_head c)), (''temperature'', JFloat (rc_temperature c)),
      (''max_tokens'', JInt (rc_max_tokens c)), (''content'', JStr (rc_content c)),
      (''prompt_tokens'', JInt (rc_prompt_tokens c)), (''completion_tokens'', JInt (rc_completion_tokens c)),
      (''latency_seconds'', JFloat (rc_latency_seconds c)), (''retry_wait_seconds'', JFloat (rc_retry_wait_seconds c)),
      (''served_model'', option_json JStr (rc_served_model c)), (''fingerprint'', option_json JStr (rc_fingerprint c))]"

definition call_from :: "json \<Rightarrow> recorded_call option" where
  "call_from v =
     do { index \<leftarrow> need nat_in ''index'' v;
          prefix \<leftarrow> need (nullable str_in) ''prefix_sha256'' v;
          head \<leftarrow> need str_in ''observation_head'' v;
          temperature \<leftarrow> need num_in ''temperature'' v;
          most \<leftarrow> need int_in ''max_tokens'' v;
          content \<leftarrow> need str_in ''content'' v;
          prompt \<leftarrow> need int_in ''prompt_tokens'' v;
          completion \<leftarrow> need int_in ''completion_tokens'' v;
          latency \<leftarrow> need num_in ''latency_seconds'' v;
          waited \<leftarrow> need num_in ''retry_wait_seconds'' v;
          served \<leftarrow> with_default None (nullable str_in) ''served_model'' v;
          print \<leftarrow> with_default None (nullable str_in) ''fingerprint'' v;
          Some \<lparr>rc_index = index, rc_prefix_sha256 = prefix, rc_observation_head = head, rc_temperature = temperature,
                rc_max_tokens = most, rc_content = content, rc_prompt_tokens = prompt, rc_completion_tokens = completion,
                rc_latency_seconds = latency, rc_retry_wait_seconds = waited, rc_served_model = served,
                rc_fingerprint = print\<rparr> }"

definition error_fields :: "recorded_error \<Rightarrow> (string \<times> json) list" where
  "error_fields e = [(''observation_head'', JStr (re_observation_head e)), (''message'', JStr (re_message e))]"

definition error_from :: "json \<Rightarrow> recorded_error option" where
  "error_from v =
     do { head \<leftarrow> need str_in ''observation_head'' v;
          said \<leftarrow> need str_in ''message'' v;
          Some \<lparr>re_observation_head = head, re_message = said\<rparr> }"

definition recording_fields :: "recording \<Rightarrow> (string \<times> json) list" where
  "recording_fields g =
     [(''schema_version'', JInt 1), (''task_id'', JStr (rg_task_id g)), (''taskset_version'', JStr (rg_taskset_version g)),
      (''provider'', JStr (rg_provider g)), (''model'', JStr (rg_model g)), (''recorded_at'', JStr (rg_recorded_at g)),
      (''git_sha'', JStr (rg_git_sha g)), (''outcome'', JStr (rg_outcome g)),
      (''calls'', JList (map (JObj \<circ> call_fields) (rg_calls g))), (''error'', option_json (JObj \<circ> error_fields) (rg_error g))]"

text \<open>\<^verbatim>\<open>Recording.model_validate\<close>; the schema's version is read and kept by nobody here.\<close>

definition recording_from :: "json \<Rightarrow> recording option" where
  "recording_from v =
     do { version \<leftarrow> with_default 1 int_in ''schema_version'' v;
          task \<leftarrow> need str_in ''task_id'' v;
          taskset \<leftarrow> need str_in ''taskset_version'' v;
          provider \<leftarrow> need str_in ''provider'' v;
          model \<leftarrow> need str_in ''model'' v;
          recorded_at \<leftarrow> need str_in ''recorded_at'' v;
          sha \<leftarrow> need str_in ''git_sha'' v;
          out \<leftarrow> need str_in ''outcome'' v;
          calls \<leftarrow> need (list_in call_from) ''calls'' v;
          error \<leftarrow> with_default None (nullable error_from) ''error'' v;
          Some \<lparr>rg_task_id = task, rg_taskset_version = taskset, rg_provider = provider, rg_model = model,
                rg_recorded_at = recorded_at, rg_git_sha = sha, rg_outcome = out, rg_calls = calls, rg_error = error\<rparr> }"

definition recording_from_body :: "json \<Rightarrow> recording option option" where
  "recording_from_body body =
     (if get_or_none body ''recording'' = JNull then Some None
      else map_option Some (recording_from (get_or_none body ''recording'')))"

section \<open>Progress\<close>

text \<open>A step as a small progress record, and the same with the time its model calls took.\<close>

definition step_fields :: "agent_step \<Rightarrow> (string \<times> json) list" where
  "step_fields s =
     [(''step'', JInt (int (as_index s))), (''tool'', option_json (JStr \<circ> tool_value \<circ> tc_name) (as_tool_call s)),
      (''ok'', option_json (JBool \<circ> tr_ok) (as_tool_result s)), (''malformed'', JBool (as_malformed s)),
      (''prompt_tokens'', JInt (as_prompt_tokens s)), (''completion_tokens'', JInt (as_completion_tokens s))]"

definition step_event :: "agent_step \<Rightarrow> json" where
  "step_event s = JObj (step_fields s)"

definition wait_event :: "recorded_call list \<Rightarrow> agent_step \<Rightarrow> json" where
  "wait_event calls s =
     JObj (step_fields s @ [(''model_seconds'', JFloat (sum_list (map rc_latency_seconds calls))),
       (''retry_wait_seconds'', JFloat (sum_list (map rc_retry_wait_seconds calls)))])"

text \<open>Steps as they are reported, each with the calls the provider has recorded by then.\<close>

fun with_waits :: "nat \<Rightarrow> (recorded_call list \<times> agent_step) list \<Rightarrow> json list" where
  "with_waits reported [] = []"
| "with_waits reported ((calls, s) # rest) = wait_event (drop reported calls) s # with_waits (length calls) rest"

section \<open>Jobs stopped by the fleet\<close>

text \<open>What iterating over a value gives; the strings iterating over a non-empty dictionary or text gives are no events.\<close>

fun events_in :: "json \<Rightarrow> json list option" where
  "events_in (JList xs) = Some xs"
| "events_in (JObj kvs) = Some (map (JStr \<circ> fst) kvs)"
| "events_in (JStr s) = Some (map (\<lambda>c. JStr [c]) s)"
| "events_in _ = None"

definition py_truth :: "json \<Rightarrow> bool" where
  "py_truth v \<longleftrightarrow> v \<notin> {JNull, JBool False, JInt 0, JFloat 0, JStr [], JList [], JObj []}"

definition event_called :: "json \<Rightarrow> bool option" where
  "event_called e =
     do { tool \<leftarrow> obj_get e ''tool'';
          if tool \<noteq> JNull then Some True else map_option py_truth (obj_get e ''malformed'') }"

fun summand :: "json \<Rightarrow> rat option" where
  "summand (JBool b) = Some (if b then 1 else 0)"
| "summand v = num_in v"

definition total_of :: "json option list \<Rightarrow> rat option" where
  "total_of vs = do { xs \<leftarrow> those (map (\<lambda>v. Option.bind v summand) vs); Some (sum_list xs) }"

definition stopped_execution :: "json \<Rightarrow> task_execution option" where
  "stopped_execution body =
     do { partial \<leftarrow> obj_get body ''partial'';
          events \<leftarrow> need events_in ''last'' partial;
          mode \<leftarrow> need (nullable str_in) ''failure'' body;
          steps \<leftarrow> need nat_in ''events'' partial;
          called \<leftarrow> those (map event_called events);
          prompt \<leftarrow> total_of (map (\<lambda>e. obj_get e ''prompt_tokens'') events);
          completion \<leftarrow> total_of (map (\<lambda>e. obj_get e ''completion_tokens'') events);
          waited \<leftarrow> total_of (map (\<lambda>e. Some (case obj_get e ''retry_wait_seconds'' of None \<Rightarrow> JFloat 0 | Some v \<Rightarrow> v)) events);
          prompt \<leftarrow> int_in (JFloat prompt);
          completion \<leftarrow> int_in (JFloat completion);
          Some \<lparr>te_outcome = OUT_FAILED, te_failure_mode = mode, te_failure_kind = Some KIND_INFRA,
                te_matched_expectation = False, te_termination_reason = ''cut_short'', te_iterations = steps,
                te_llm_calls = length (filter id called), te_prompt_tokens = prompt, te_completion_tokens = completion,
                te_retry_wait_seconds = waited, te_divergence = None, te_served_models = [], te_fingerprints = [],
                te_output = None\<rparr> }"

definition execution_from_body :: "json \<Rightarrow> task_execution option" where
  "execution_from_body body =
     (if obj_get body ''failure'' \<noteq> None then stopped_execution body else execution_from body)"

section \<open>Running a job\<close>

fun fleet_outcome :: "job_outcome \<Rightarrow> outcome" where
  "fleet_outcome SOLVED = Outcome_succeeded"
| "fleet_outcome OUT_ESCALATED = Outcome_escalated"
| "fleet_outcome OUT_FAILED = Outcome_failed"

record replay_job =
  pj_task :: bench_task
  pj_recording :: recording
  pj_latency :: latency_profile
  pj_extra_rules :: "string list"

record real_job =
  lj_task :: bench_task
  lj_model :: string
  lj_taskset_version :: string
  lj_git_sha :: string
  lj_extra_rules :: "string list"

text \<open>The model a real job calls; without a key the job raises, which the fleet takes for an infrastructure failure.\<close>

definition real_provider :: "string option \<Rightarrow> (string \<Rightarrow> 'w inner_provider) \<Rightarrow> string \<Rightarrow> string + 'w inner_provider" where
  "real_provider key groq model =
     (if text_or key [] = [] then Inl ''GROQ_API_KEY is not set where this worker runs'' else Inr (groq model))"

text \<open>What a job runs in: the sandbox's side, the real model's, and the texts of a replay's divergence.\<close>

record ('s, 'w) job_env =
  je_base :: "'s outside"
  je_snap :: "'s \<Rightarrow> files"
  je_unified :: "string \<Rightarrow> string option \<Rightarrow> string option \<Rightarrow> string"
  je_texts :: replay_texts
  je_key :: "string option"
  je_groq :: "string \<Rightarrow> 'w inner_provider"
  je_now :: string

definition run_replay :: "('s, 'w) job_env \<Rightarrow> replay_job \<Rightarrow> 's \<Rightarrow> (string + task_execution) \<times> 's" where
  "run_replay env j s =
     (case execute_task (replay_ops (je_texts env) (pj_latency j) (pj_recording j)) (je_base env) (je_snap env)
             (je_unified env) (agent_configs (pj_extra_rules j)) (pj_task j) (new_replay, s) of
        (r, (_, s')) \<Rightarrow> (r, s'))"

definition run_real ::
  "('s, 'w) job_env \<Rightarrow> real_job \<Rightarrow> 'w \<times> 's \<Rightarrow> (string + task_execution \<times> recording) \<times> ('w \<times> 's)" where
  "run_real env j w =
     (case real_provider (je_key env) (je_groq env) (lj_model j) of
        Inl e \<Rightarrow> (Inl e, w)
      | Inr p \<Rightarrow>
          (case execute_task (recording_ops p) (je_base env) (je_snap env) (je_unified env)
                  (agent_configs (lj_extra_rules j)) (lj_task j) (new_recorder (fst w), snd w) of
             (Inl e, (r, s')) \<Rightarrow> (Inl e, (rd_inner r, s'))
           | (Inr x, (r, s')) \<Rightarrow>
               (Inr (x, build_recording p r (bt_id (lj_task j)) (lj_taskset_version j) (outcome_text (te_outcome x))
                          (lj_git_sha j) (je_now env)),
                (rd_inner r, s'))))"

definition runner_outcome_of :: "task_execution \<Rightarrow> recording option \<Rightarrow> runner_outcome" where
  "runner_outcome_of x g =
     \<lparr>ro_outcome = fleet_outcome (te_outcome x),
      ro_body = JObj (execution_fields x @ (case g of None \<Rightarrow> [] | Some h \<Rightarrow> [(''recording'', JObj (recording_fields h))]))\<rparr>"

text \<open>\<^verbatim>\<open>run_job\<close>; the readers of the two kinds of payload are arguments.\<close>

definition run_bench_job ::
  "(json \<Rightarrow> string + replay_job) \<Rightarrow> (json \<Rightarrow> string + real_job) \<Rightarrow> ('s, 'w) job_env \<Rightarrow> json \<Rightarrow> 'w \<times> 's
   \<Rightarrow> (string + runner_outcome) \<times> ('w \<times> 's)" where
  "run_bench_job as_replay as_real env payload w =
     (if get_or_none payload ''kind'' = JStr ''real''
      then (case as_real payload of
              Inl e \<Rightarrow> (Inl e, w)
            | Inr j \<Rightarrow>
                (case run_real env j w of
                   (Inl e, w') \<Rightarrow> (Inl e, w')
                 | (Inr (x, g), w') \<Rightarrow> (Inr (runner_outcome_of x (Some g)), w')))
      else (case as_replay payload of
              Inl e \<Rightarrow> (Inl e, w)
            | Inr j \<Rightarrow>
                (case run_replay env j (snd w) of
                   (Inl e, s') \<Rightarrow> (Inl e, (fst w, s'))
                 | (Inr x, s') \<Rightarrow> (Inr (runner_outcome_of x None), (fst w, s')))))"

section \<open>Retrying the model\<close>

datatype groq_kind = RateLimitError | APIConnectionError | InternalServerError | OtherError

record groq_error =
  ge_kind :: groq_kind
  ge_text :: string
  ge_retry_after :: "string option"
  ge_body :: json

definition DEFAULT_DELAY_SECONDS :: rat where "DEFAULT_DELAY_SECONDS = 5"
definition MIN_DELAY_SECONDS :: rat where "MIN_DELAY_SECONDS = 1"
definition MAX_DELAY_SECONDS :: rat where "MAX_DELAY_SECONDS = 120"

definition is_daily_cap :: "groq_error \<Rightarrow> bool" where
  "is_daily_cap e \<longleftrightarrow> ge_kind e = RateLimitError \<and> contains_sub ''per day'' (lower (ge_text e))"

definition provider_message :: "groq_error \<Rightarrow> string" where
  "provider_message e =
     (let inner = (if is_obj (ge_body e)
                   then (case obj_get (ge_body e) ''error'' of None \<Rightarrow> ge_body e | Some x \<Rightarrow> x) else JNull);
          said = (case obj_get inner ''message'' of Some (JStr m) \<Rightarrow> m | _ \<Rightarrow> ge_text e)
      in concat (take 400 (characters (without_account said))))"

text \<open>\<open>to_float\<close> is Python's \<^verbatim>\<open>float\<close> of a text, \<open>None\<close> for a \<^verbatim>\<open>ValueError\<close>.\<close>

definition retry_after :: "(string \<Rightarrow> rat option) \<Rightarrow> groq_error \<Rightarrow> rat" where
  "retry_after to_float e =
     (let wait = (case ge_retry_after e of
            None \<Rightarrow> DEFAULT_DELAY_SECONDS
          | Some h \<Rightarrow> (case to_float h of None \<Rightarrow> DEFAULT_DELAY_SECONDS | Some x \<Rightarrow> x))
      in min (max wait MIN_DELAY_SECONDS) MAX_DELAY_SECONDS)"

definition groq_retry_delay :: "(string \<Rightarrow> rat option) \<Rightarrow> groq_error \<Rightarrow> rat option" where
  "groq_retry_delay to_float e =
     (if ge_kind e = RateLimitError then if is_daily_cap e then None else Some (retry_after to_float e)
      else if ge_kind e = APIConnectionError \<or> ge_kind e = InternalServerError then Some DEFAULT_DELAY_SECONDS
      else None)"

lemma retry_delay_bounds:
  "groq_retry_delay to_float e = Some x \<Longrightarrow> 1 \<le> x \<and> x \<le> 120 \<and> ge_kind e \<noteq> OtherError \<and> \<not> is_daily_cap e"
  by (auto simp: groq_retry_delay_def retry_after_def Let_def DEFAULT_DELAY_SECONDS_def MIN_DELAY_SECONDS_def
      MAX_DELAY_SECONDS_def is_daily_cap_def split: if_splits)

section \<open>What comes back from a \<^verbatim>\<open>jsonb\<close> column\<close>

lemma dict_put_map: "dict_put (map (\<lambda>(k, v). (k, f v)) d) k (f v) = map (\<lambda>(k, v). (k, f v)) (dict_put d k v)"
  by (induction d) (auto split: prod.splits)

lemma dict_of_map: "dict_of (map (\<lambda>(k, v). (k, f v)) xs) = map (\<lambda>(k, v). (k, f v)) (dict_of xs)"
  by (induction xs rule: rev_induct) (auto simp: dict_of_snoc dict_put_map dict_of_def split: prod.splits)

lemma insort_key_map: "(\<And>x. g (h x) = f x) \<Longrightarrow> insort_key g (h x) (map h xs) = map h (insort_key f x xs)"
  by (induction xs) simp_all

lemma sort_key_map: "(\<And>x. g (h x) = f x) \<Longrightarrow> sort_key g (map h xs) = map h (sort_key f xs)"
  by (induction xs) (simp_all add: insort_key_map)

lemma sort_fst_map: "sort_key fst (map (\<lambda>(k, v). (k, f v)) xs) = map (\<lambda>(k, v). (k, f v)) (sort_key fst xs)"
  by (rule sort_key_map) (simp add: case_prod_unfold)

lemma those_Some: "(\<And>x. x \<in> set xs \<Longrightarrow> f x = Some (g x)) \<Longrightarrow> those (map f xs) = Some (map g xs)"
  by (induction xs) simp_all

lemma jsonb_obj: "jsonb (JObj kvs) = JObj (map (\<lambda>(k, v). (k, jsonb v)) (sort_key fst (dict_of kvs)))"
  by (simp add: dict_of_map sort_fst_map)

lemma obj_get_jsonb: "distinct (map fst kvs) \<Longrightarrow> obj_get (jsonb (JObj kvs)) k = map_option jsonb (dict_get kvs k)"
proof -
  assume d: "distinct (map fst kvs)"
  have "distinct (map fst (sort_key fst kvs))"
    using d by (subst mset_eq_imp_distinct_iff [of _ "map fst kvs"]) (simp_all only: mset_map mset_sort)
  then have "map_of (sort_key fst kvs) = map_of kvs"
    using d by (intro map_of_inject_set [THEN iffD2]) simp_all
  moreover have "map_of (map (\<lambda>(k, v). (k, jsonb v)) xs) k = map_option jsonb (map_of xs k)" for xs
    by (induction xs) auto
  ultimately show ?thesis
    unfolding jsonb_obj dict_of_distinct [OF d] obj_get.simps dict_get_map_of by simp
qed

named_theorems stored \<open>what the readers make of stored values\<close>

lemma need_stored [stored]:
  "distinct (map fst kvs) \<Longrightarrow> need f k (jsonb (JObj kvs)) = Option.bind (dict_get kvs k) (\<lambda>v. f (jsonb v))"
  by (cases "dict_get kvs k") (simp_all add: need_def obj_get_jsonb del: jsonb.simps obj_get.simps)

lemma with_default_stored [stored]:
  "distinct (map fst kvs) \<Longrightarrow>
     with_default d f k (jsonb (JObj kvs)) = (case dict_get kvs k of None \<Rightarrow> Some d | Some v \<Rightarrow> f (jsonb v))"
  by (cases "dict_get kvs k") (simp_all add: with_default_def obj_get_jsonb del: jsonb.simps obj_get.simps)

lemma scalars_stored [stored]:
  "str_in (jsonb (JStr s)) = Some s" "bool_in (jsonb (JBool b)) = Some b" "num_in (jsonb (JFloat x)) = Some x"
  "num_in (jsonb (JInt n)) = Some (of_int n)" "int_in (jsonb (JInt n)) = Some n"
  by (simp_all add: int_in_def)

lemma nat_stored [stored]: "nat_in (jsonb (JInt (int m))) = Some m"
  unfolding nat_in_def stored by simp

lemma jsonb_JNull_iff: "jsonb v = JNull \<longleftrightarrow> v = JNull"
  by (cases v) simp_all

lemma nullable_stored:
  "(\<And>v. g v \<noteq> JNull) \<Longrightarrow> (\<And>v. f (jsonb (g v)) = Some (h v)) \<Longrightarrow> nullable f (jsonb (option_json g x)) = Some (map_option h x)"
  by (cases x) (simp_all add: nullable_def option_json_def jsonb_JNull_iff)

lemma list_stored: "(\<And>x. f (jsonb (g x)) = Some (h x)) \<Longrightarrow> list_in f (jsonb (JList (map g xs))) = Some (map h xs)"
  by (simp add: comp_def those_Some)

lemma dict_stored:
  assumes "\<And>x. f (jsonb (g x)) = Some (h x)"
  shows "dict_in f (jsonb (JObj (map (\<lambda>(k, x). (k, g x)) d))) = Some (map (\<lambda>(k, x). (k, h x)) (sort_key fst (dict_of d)))"
  unfolding jsonb_obj dict_of_map sort_fst_map dict_in.simps map_map
  by (rule those_Some) (auto simp: assms)

lemma any_dict_stored: "dict_in Some (jsonb (JObj d)) = Some (map (\<lambda>(k, v). (k, jsonb v)) (sort_key fst (dict_of d)))"
proof -
  have "those (map Some xs) = Some xs" for xs :: "(string \<times> json) list"
    using those_Some [of xs Some id] by simp
  then show ?thesis unfolding jsonb_obj dict_in.simps by (simp flip: map_map)
qed

text \<open>An output's dictionaries come back as the column keeps them: sorted, the last of repeated keys, numbers as numbers.\<close>

definition stored_output :: "job_output \<Rightarrow> job_output" where
  "stored_output x =
     x\<lparr>jo_tests := map (\<lambda>(k, v). (k, jsonb v)) (sort_key fst (dict_of (jo_tests x))),
       jo_tools := sort_key fst (dict_of (jo_tools x))\<rparr>"

definition stored_execution :: "task_execution \<Rightarrow> task_execution" where
  "stored_execution x = x\<lparr>te_output := map_option stored_output (te_output x)\<rparr>"

lemma texts_stored [stored]: "list_in str_in (jsonb (texts xs)) = Some xs"
  using list_stored [of str_in JStr id xs] by (simp add: texts_def scalars_stored)

lemma nullable_str_stored [stored]: "nullable str_in (jsonb (option_json JStr x)) = Some x"
  using nullable_stored [of JStr str_in id x] by (simp add: scalars_stored option.map_id)

lemma kind_stored [stored]: "nullable kind_in (jsonb (option_json (JStr \<circ> kind_text) x)) = Some x"
proof -
  have "kind_in (jsonb (JStr (kind_text k))) = Some k" for k by (cases k) (simp_all add: kind_in_def)
  then show ?thesis using nullable_stored [of "JStr \<circ> kind_text" kind_in id x] by (simp add: option.map_id)
qed

lemma outcome_stored [stored]: "outcome_in (jsonb (JStr (outcome_text w))) = Some w"
  by (cases w) (simp_all add: outcome_in_def)

lemma tools_stored: "dict_in int_in (jsonb (JObj (map (\<lambda>(k, n). (k, JInt n)) d))) = Some (sort_key fst (dict_of d))"
  unfolding dict_stored [of int_in JInt "\<lambda>n. n", OF scalars_stored(5)] by simp

lemma output_keys: "distinct (map fst (output_fields x))"
  by (simp add: output_fields_def)

lemma output_stored: "output_from (jsonb (JObj (output_fields x))) = Some (stored_output x)"
  unfolding output_from_def need_stored [OF output_keys]
  by (simp add: output_fields_def stored tools_stored any_dict_stored stored_output_def del: jsonb.simps)

lemma optional_output_stored [stored]:
  "nullable output_from (jsonb (option_json (JObj \<circ> output_fields) x)) = Some (map_option stored_output x)"
  using nullable_stored [of "JObj \<circ> output_fields" output_from stored_output x] by (simp add: output_stored del: jsonb.simps)

definition only_recording :: "(string \<times> json) list \<Rightarrow> bool" where
  "only_recording extra \<longleftrightarrow> extra = [] \<or> (\<exists>r. extra = [(''recording'', r)])"

lemma execution_keys: "only_recording extra \<Longrightarrow> distinct (map fst (execution_fields x @ extra))"
  by (auto simp: only_recording_def execution_fields_def)

lemma execution_member:
  "only_recording extra \<Longrightarrow> k \<noteq> ''recording'' \<Longrightarrow> dict_get (execution_fields x @ extra) k = dict_get (execution_fields x) k"
  by (auto simp: only_recording_def dict_get_map_of map_add_def split: option.splits)

lemma execution_stored:
  assumes "only_recording extra"
  shows "execution_from (jsonb (JObj (execution_fields x @ extra))) = Some (stored_execution x)"
  unfolding execution_from_def need_stored [OF execution_keys [OF assms]] with_default_stored [OF execution_keys [OF assms]]
  by (simp add: execution_member [OF assms] execution_fields_def stored stored_execution_def del: jsonb.simps)

section \<open>Recordings come back\<close>

lemma call_keys: "distinct (map fst (call_fields c))"
  by (simp add: call_fields_def)

lemma call_stored: "call_from (jsonb (JObj (call_fields c))) = Some c"
  unfolding call_from_def need_stored [OF call_keys] with_default_stored [OF call_keys]
  by (simp add: call_fields_def stored del: jsonb.simps)

lemma error_stored: "error_from (jsonb (JObj (error_fields e))) = Some e"
  by (simp add: error_from_def error_fields_def stored del: jsonb.simps)

lemma optional_error_stored [stored]: "nullable error_from (jsonb (option_json (JObj \<circ> error_fields) x)) = Some x"
  using nullable_stored [of "JObj \<circ> error_fields" error_from id x] by (simp add: error_stored option.map_id del: jsonb.simps)

lemma calls_stored [stored]: "list_in call_from (jsonb (JList (map (JObj \<circ> call_fields) cs))) = Some cs"
  using list_stored [of call_from "JObj \<circ> call_fields" id cs] by (simp add: call_stored del: jsonb.simps)

lemma recording_keys: "distinct (map fst (recording_fields g))"
  by (simp add: recording_fields_def)

lemma recording_stored: "recording_from (jsonb (JObj (recording_fields g))) = Some g"
  unfolding recording_from_def need_stored [OF recording_keys] with_default_stored [OF recording_keys]
  by (simp add: recording_fields_def stored del: jsonb.simps)

section \<open>What a job publishes comes back\<close>

definition recordings_of :: "recording option \<Rightarrow> (string \<times> json) list" where
  "recordings_of g = (case g of None \<Rightarrow> [] | Some h \<Rightarrow> [(''recording'', JObj (recording_fields h))])"

lemma only_recordings: "only_recording (recordings_of g)"
  by (simp add: only_recording_def recordings_of_def split: option.split)

lemma published_body_back:
  "execution_from_body (jsonb (ro_body (runner_outcome_of x g))) = Some (stored_execution x)"
  "recording_from_body (jsonb (ro_body (runner_outcome_of x g))) = Some g"
proof -
  have body: "ro_body (runner_outcome_of x g) = JObj (execution_fields x @ recordings_of g)"
    by (simp add: runner_outcome_of_def recordings_of_def)
  note member = obj_get_jsonb [OF execution_keys [OF only_recordings], of x g]
  have "dict_get (execution_fields x @ recordings_of g) ''failure'' = None"
    by (simp add: execution_fields_def recordings_of_def split: option.split)
  then show "execution_from_body (jsonb (ro_body (runner_outcome_of x g))) = Some (stored_execution x)"
    unfolding execution_from_body_def body member by (simp add: execution_stored [OF only_recordings] del: jsonb.simps)
  have "dict_get (execution_fields x @ recordings_of g) ''recording'' =
      map_option (\<lambda>h. JObj (recording_fields h)) g"
    by (simp add: execution_fields_def recordings_of_def split: option.split)
  then show "recording_from_body (jsonb (ro_body (runner_outcome_of x g))) = Some g"
    unfolding recording_from_body_def body get_or_none_def member
    by (cases g) (simp_all add: jsonb_JNull_iff recording_stored del: jsonb.simps)
qed

text \<open>
  C23. What a benchmark job publishes is what the bench reads back from the column it is kept in: the execution, with
  its dictionaries as the column keeps them, and of a real job the recording of every response it got; a replay has none.
  The fleet's outcome is the execution's own.
\<close>

theorem published_job_back:
  assumes "run_bench_job as_replay as_real env payload w = (Inr v, w')"
  shows "\<exists>x g. ro_outcome v = fleet_outcome (te_outcome x)
    \<and> execution_from_body (jsonb (ro_body v)) = Some (stored_execution x)
    \<and> recording_from_body (jsonb (ro_body v)) = Some g
    \<and> (if get_or_none payload ''kind'' = JStr ''real''
       then \<exists>j h. as_real payload = Inr j \<and> g = Some h \<and> fst (run_real env j w) = Inr (x, h)
       else g = None \<and> (\<exists>j. as_replay payload = Inr j \<and> fst (run_replay env j (snd w)) = Inr x))"
proof (cases "get_or_none payload ''kind'' = JStr ''real''")
  case True
  then obtain j x h where "as_real payload = Inr j" "run_real env j w = (Inr (x, h), w')" "v = runner_outcome_of x (Some h)"
    using assms by (auto simp: run_bench_job_def split: sum.splits prod.splits)
  then show ?thesis
    using True published_body_back [of x "Some h"]
    by (intro exI [of _ x] exI [of _ "Some h"]) (simp add: runner_outcome_of_def)
next
  case False
  then obtain j x s' where "as_replay payload = Inr j" "run_replay env j (snd w) = (Inr x, s')" "v = runner_outcome_of x None"
    using assms by (auto simp: run_bench_job_def split: sum.splits prod.splits)
  then show ?thesis
    using False published_body_back [of x None]
    by (intro exI [of _ x] exI [of _ None]) (simp add: runner_outcome_of_def)
qed

definition demo_job_env :: "(nat, nat) job_env" where
  "demo_job_env =
     \<lparr>je_base = demo_outside [], je_snap = (\<lambda>_. []), je_unified = (\<lambda>p a b. p), je_texts = demo_replay_texts,
      je_key = Some ''k'', je_groq = (\<lambda>_. demo_inner [''{t}'', ''{f}'']), je_now = ''now''\<rparr>"

definition demo_real_job :: real_job where
  "demo_real_job =
     \<lparr>lj_task = from_ticket demo_ticket, lj_model = ''m'', lj_taskset_version = ''v1'', lj_git_sha = ''abc'', lj_extra_rules = []\<rparr>"

definition demo_job_run :: "(string + runner_outcome) \<times> (nat \<times> nat)" where
  "demo_job_run =
     run_bench_job (\<lambda>_. Inl ''no replay'') (\<lambda>_. Inr demo_real_job) demo_job_env (JObj [(''kind'', JStr ''real'')]) (0, 0)"

lemma demo_job_runs: "map_sum id ro_outcome (fst demo_job_run) = Inr Outcome_succeeded"
  by code_simp

theorem published_job_back_witness:
  "\<exists>v x h. fst demo_job_run = Inr v \<and> te_outcome x = SOLVED
     \<and> execution_from_body (jsonb (ro_body v)) = Some (stored_execution x) \<and> recording_from_body (jsonb (ro_body v)) = Some (Some h)"
proof -
  obtain y w' where y: "demo_job_run = (y, w')" by (metis prod.exhaust)
  have "map_sum id ro_outcome y = Inr Outcome_succeeded" using demo_job_runs by (simp only: y fst_conv)
  then obtain v where v: "y = Inr v" "ro_outcome v = Outcome_succeeded" by (cases y) auto
  from published_job_back [OF y [unfolded demo_job_run_def v(1)]] v(2)
  obtain x h where "Outcome_succeeded = fleet_outcome (te_outcome x)"
    "execution_from_body (jsonb (ro_body v)) = Some (stored_execution x)" "recording_from_body (jsonb (ro_body v)) = Some (Some h)"
    by (auto simp: get_or_none_def)
  moreover from this(1) have "te_outcome x = SOLVED" by (cases "te_outcome x") simp_all
  moreover have "fst demo_job_run = Inr v" by (simp add: y v(1))
  ultimately show ?thesis by blast
qed

section \<open>What a stopped job reported\<close>

text \<open>A step that holds a reply made a call.\<close>

definition replied :: "agent_step \<Rightarrow> bool" where
  "replied s \<longleftrightarrow> as_malformed s \<or> as_tool_call s \<noteq> None"

definition answered_step :: "agent_step \<Rightarrow> bool" where
  "answered_step s \<longleftrightarrow> (as_raw_response s \<noteq> [] \<longrightarrow> replied s)"

lemma iteration_answered:
  assumes "list_all answered_step (ls_steps st)" and "iteration env config index st w = (e, st', w')"
  shows "list_all answered_step (ls_steps st')"
proof -
  obtain x w1 where x: "llm_complete env (ls_messages st) (ac_temperature config) (ac_max_tokens config) w = (x, w1)"
    by fastforce
  show ?thesis
  proof (cases x)
    case (Inl err)
    then show ?thesis using assms
      by (auto simp: iteration_def x turn_defs step_defs answered_step_def)
  next
    case (Inr c)
    then show ?thesis using assms
      by (auto simp: iteration_def respond_def x turn_defs step_defs answered_step_def replied_def Let_def
          split: parsed.splits if_splits prod.splits)
  qed
qed

lemma loop_answered:
  "list_all answered_step (ls_steps st) \<Longrightarrow> agent_loop env config n index st w = (e, st', w') \<Longrightarrow>
     list_all answered_step (ls_steps st')"
proof (induction n arbitrary: index st w)
  case (Suc n)
  obtain a b c where i: "iteration env config index st w = (a, b, c)" by (metis prod.exhaust)
  have "list_all answered_step (ls_steps b)" by (rule iteration_answered [OF Suc.prems(1) i])
  then show ?case using Suc.IH Suc.prems(2) by (cases a) (auto simp: i)
qed simp

lemma run_answered: "run_agent env config task w = (Inr r, w') \<Longrightarrow> list_all answered_step (ar_steps r)"
  by (auto simp: run_agent_def start_state_def split: prod.splits sum.splits loop_end.splits dest!: loop_answered [rotated])

lemma calls_replied: "list_all answered_step (ar_steps r) \<Longrightarrow> llm_calls r = length (filter replied (ar_steps r))"
  unfolding llm_calls_def
  by (rule arg_cong [of _ _ length], rule filter_cong) (auto simp: list_all_iff answered_step_def replied_def)

text \<open>The members a stored event has: those of its step, and with the calls' times two more.\<close>

definition time_fields :: "(string \<times> json) list \<Rightarrow> bool" where
  "time_fields extra \<longleftrightarrow> extra = [] \<or> (\<exists>x y. extra = [(''model_seconds'', JFloat x), (''retry_wait_seconds'', JFloat y)])"

definition waited_in :: "(string \<times> json) list \<Rightarrow> rat" where
  "waited_in extra = (case dict_get extra ''retry_wait_seconds'' of Some (JFloat y) \<Rightarrow> y | _ \<Rightarrow> 0)"

lemma step_keys: "time_fields extra \<Longrightarrow> distinct (map fst (step_fields s @ extra))"
  by (auto simp: time_fields_def step_fields_def)

lemma stored_event:
  assumes "time_fields extra"
  shows "event_called (jsonb (JObj (step_fields s @ extra))) = Some (replied s)"
    and "Option.bind (obj_get (jsonb (JObj (step_fields s @ extra))) ''prompt_tokens'') summand = Some (of_int (as_prompt_tokens s))"
    and "Option.bind (obj_get (jsonb (JObj (step_fields s @ extra))) ''completion_tokens'') summand = Some (of_int (as_completion_tokens s))"
    and "summand (case obj_get (jsonb (JObj (step_fields s @ extra))) ''retry_wait_seconds'' of None \<Rightarrow> JFloat 0 | Some v \<Rightarrow> v)
      = Some (waited_in extra)"
proof -
  note member = obj_get_jsonb [OF step_keys [OF assms]]
  show "event_called (jsonb (JObj (step_fields s @ extra))) = Some (replied s)"
    unfolding event_called_def member
    by (auto simp: step_fields_def replied_def py_truth_def option_json_def split: option.splits)
  show "Option.bind (obj_get (jsonb (JObj (step_fields s @ extra))) ''prompt_tokens'') summand = Some (of_int (as_prompt_tokens s))"
    and "Option.bind (obj_get (jsonb (JObj (step_fields s @ extra))) ''completion_tokens'') summand = Some (of_int (as_completion_tokens s))"
    unfolding member by (simp_all add: step_fields_def)
  show "summand (case obj_get (jsonb (JObj (step_fields s @ extra))) ''retry_wait_seconds'' of None \<Rightarrow> JFloat 0 | Some v \<Rightarrow> v)
      = Some (waited_in extra)"
    unfolding member using assms by (auto simp: step_fields_def time_fields_def waited_in_def)
qed

text \<open>The execution rebuilt from steps and what their events carried beside.\<close>

definition event_of :: "agent_step \<times> (string \<times> json) list \<Rightarrow> json" where
  "event_of e = JObj (step_fields (fst e) @ snd e)"

definition rebuilt :: "string \<Rightarrow> (agent_step \<times> (string \<times> json) list) list \<Rightarrow> task_execution" where
  "rebuilt failure evs =
     \<lparr>te_outcome = OUT_FAILED, te_failure_mode = Some failure, te_failure_kind = Some KIND_INFRA,
      te_matched_expectation = False, te_termination_reason = ''cut_short'', te_iterations = length evs,
      te_llm_calls = length (filter replied (map fst evs)),
      te_prompt_tokens = sum_list (map as_prompt_tokens (map fst evs)),
      te_completion_tokens = sum_list (map as_completion_tokens (map fst evs)),
      te_retry_wait_seconds = sum_list (map (waited_in \<circ> snd) evs), te_divergence = None, te_served_models = [],
      te_fingerprints = [], te_output = None\<rparr>"

lemma total_of_Some: "(\<And>e. e \<in> set evs \<Longrightarrow> Option.bind (f e) summand = Some (g e)) \<Longrightarrow> total_of (map f evs) = Some (sum_list (map g evs))"
  by (simp add: total_of_def comp_def those_Some)

lemma of_int_sum: "sum_list (map (\<lambda>e. of_int (f e)) xs) = (of_int (sum_list (map f xs)) :: rat)"
  by (induction xs) simp_all

lemma stopped_body:
  assumes "list_all (time_fields \<circ> snd) evs" and "length evs \<le> PARTIAL_EVENTS"
  shows "execution_from_body (jsonb (ro_body (cut_short failure policy (map event_of evs) logs))) = Some (rebuilt failure evs)"
proof -
  let ?partial = "[(''events'', JInt (int (length evs))), (''last'', JList (map event_of evs))]"
  let ?body = "[(''failure'', JStr failure), (''policy'', policy_json policy), (''partial'', JObj ?partial),
    (''logs'', JStr (tail LOG_TAIL_CHARS logs))]"
  have body: "ro_body (cut_short failure policy (map event_of evs) logs) = JObj ?body"
    using assms(2) by (simp add: cut_short_def tail_def)
  have keys: "distinct (map fst ?body)" "distinct (map fst ?partial)" by simp_all
  note event = stored_event [where extra = "snd e" and s = "fst e" for e, folded event_of_def]
  have times: "time_fields (snd e)" if "e \<in> set evs" for e using assms(1) that by (simp add: list_all_iff)
  have called: "those (map (event_called \<circ> (jsonb \<circ> event_of)) evs) = Some (map (replied \<circ> fst) evs)"
    by (rule those_Some) (simp add: event times del: jsonb.simps)
  have prompt: "total_of (map ((\<lambda>e. obj_get e ''prompt_tokens'') \<circ> (jsonb \<circ> event_of)) evs) =
      Some (of_int (sum_list (map (as_prompt_tokens \<circ> fst) evs)))"
    unfolding of_int_sum [symmetric] by (rule total_of_Some) (simp add: event times del: jsonb.simps)
  have completion: "total_of (map ((\<lambda>e. obj_get e ''completion_tokens'') \<circ> (jsonb \<circ> event_of)) evs) =
      Some (of_int (sum_list (map (as_completion_tokens \<circ> fst) evs)))"
    unfolding of_int_sum [symmetric] by (rule total_of_Some) (simp add: event times del: jsonb.simps)
  have waited: "total_of (map ((\<lambda>e. Some (case obj_get e ''retry_wait_seconds'' of None \<Rightarrow> JFloat 0 | Some v \<Rightarrow> v))
        \<circ> (jsonb \<circ> event_of)) evs) = Some (sum_list (map (waited_in \<circ> snd) evs))"
    by (rule total_of_Some) (simp add: event times del: jsonb.simps)
  note beside = called [unfolded comp_def] prompt [unfolded comp_def] completion [unfolded comp_def] waited [unfolded comp_def]
  have last: "events_in (jsonb (JList (map event_of evs))) = Some (map (jsonb \<circ> event_of) evs)" by simp
  have failure: "nullable str_in (jsonb (JStr failure)) = Some (Some failure)" by (simp add: nullable_def)
  show ?thesis
    unfolding execution_from_body_def stopped_execution_def body obj_get_jsonb [OF keys(1)] need_stored [OF keys(1)]
    by (simp add: need_stored [OF keys(2)] last failure stored beside rebuilt_def int_in_def comp_def
        filter_map del: jsonb.simps)
qed

text \<open>What the provider has recorded only grows from step to step; a real job reports the new calls' times with each.\<close>

fun growing :: "recorded_call list \<Rightarrow> (recorded_call list \<times> agent_step) list \<Rightarrow> bool" where
  "growing before [] = True"
| "growing before ((calls, s) # rest) \<longleftrightarrow> take (length before) calls = before \<and> growing calls rest"

fun calls_after :: "recorded_call list \<Rightarrow> (recorded_call list \<times> agent_step) list \<Rightarrow> recorded_call list" where
  "calls_after before [] = before"
| "calls_after before ((calls, s) # rest) = calls_after calls rest"

fun timed_steps :: "nat \<Rightarrow> (recorded_call list \<times> agent_step) list \<Rightarrow> (agent_step \<times> (string \<times> json) list) list" where
  "timed_steps reported [] = []"
| "timed_steps reported ((calls, s) # rest) =
     (s, [(''model_seconds'', JFloat (sum_list (map rc_latency_seconds (drop reported calls)))),
          (''retry_wait_seconds'', JFloat (sum_list (map rc_retry_wait_seconds (drop reported calls))))])
     # timed_steps (length calls) rest"

lemma with_waits_events: "with_waits n trace = map event_of (timed_steps n trace)"
  by (induction n trace rule: with_waits.induct) (simp_all add: wait_event_def event_of_def)

lemma timed_steps_parts:
  "map fst (timed_steps n trace) = map snd trace" "length (timed_steps n trace) = length trace"
  "list_all (time_fields \<circ> snd) (timed_steps n trace)"
  by (induction n trace rule: timed_steps.induct) (simp_all add: time_fields_def)

lemma timed_steps_waited:
  "growing before trace \<Longrightarrow>
     sum_list (map rc_retry_wait_seconds before) + sum_list (map (waited_in \<circ> snd) (timed_steps (length before) trace))
       = sum_list (map rc_retry_wait_seconds (calls_after before trace))"
proof (induction before trace rule: growing.induct)
  case (2 before calls s rest)
  have "sum_list (map rc_retry_wait_seconds calls) =
      sum_list (map rc_retry_wait_seconds (take (length before) calls)) + sum_list (map rc_retry_wait_seconds (drop (length before) calls))"
    by (simp flip: sum_list_append map_append)
  with 2 show ?case by (simp add: waited_in_def)
qed simp



end
