(* ===== verification/Bench_Compare.thy ===== *)
theory Bench_Compare
  imports Bench_Records
begin

text \<open>
  Two benchmark runs compared job by job (\<^verbatim>\<open>bench/compare.py\<close>): pairing the jobs of the rounds both completed,
  the intervals resampled over jobs, McNemar's test, the tasks whose outcomes moved and the verdict.

  \<open>pick n r i\<close> is the \<open>i\<close>-th draw of resample \<open>r\<close> among \<open>n\<close> jobs, below \<open>n\<close> and the same for every measure, as
  the generator starts from the seed each time; \<open>fmt spec x\<close> is Python's \<^verbatim>\<open>format\<close> of a number, \<open>rep\<close> its
  \<^verbatim>\<open>repr\<close>, and \<open>unified\<close> \<^verbatim>\<open>difflib.unified_diff\<close>. The markdown rendering is not modelled.

  The lemmas show that exchanging the two runs turns every interval and verdict around, and that McNemar's
  p-value is the share of the ways the changed pairs could have gone that are at least as one-sided.
\<close>

type_synonym job_pair = "bench_result \<times> bench_result"

record paired_interval =
  iv_baseline :: rat
  iv_candidate :: rat
  iv_change :: rat
  iv_low :: rat
  iv_high :: rat

record task_change =
  tg_task_id :: string
  tg_expected :: string
  tg_runs :: nat
  tg_baseline :: "(string \<times> nat) list"
  tg_candidate :: "(string \<times> nat) list"
  tg_baseline_matched :: nat
  tg_candidate_matched :: nat

record bench_comparison =
  cm_baseline :: string
  cm_candidate :: string
  cm_rounds :: "int list"
  cm_jobs :: nat
  cm_pairs :: nat
  cm_unpaired_baseline :: "int list"
  cm_unpaired_candidate :: "int list"
  cm_config_changes :: "(string \<times> json \<times> json) list"
  cm_unexpected_changes :: "string list"
  cm_prompt_diff :: string
  cm_environment_changes :: "(string \<times> string list \<times> string list) list"
  cm_matched :: paired_interval
  cm_better_pairs :: nat
  cm_worse_pairs :: nat
  cm_mcnemar_p :: rat
  cm_tasks :: "task_change list"
  cm_tokens_per_job :: paired_interval
  cm_cost_per_job :: "paired_interval option"
  cm_llm_calls_per_job :: paired_interval
  cm_service_seconds :: paired_interval
  cm_model_seconds :: "paired_interval option"
  cm_verdict :: "string list"

definition mcnemar_p :: "nat \<Rightarrow> nat \<Rightarrow> rat" where
  "mcnemar_p worse better =
     (let flips = worse + better
      in if flips = 0 then 1
         else let tail = sum_list (map (\<lambda>i. of_nat (flips choose i)) [0..<min worse better + 1]) * (1 / 2) ^ flips
              in min 1 (2 * tail))"

section \<open>Pairing\<close>

definition by_round :: "trial_record list \<Rightarrow> (int \<times> trial_record) list" where
  "by_round trials = dict_of (map (\<lambda>t. (tl_trial t, t)) (filter (\<lambda>t. tl_interrupted t = None) trials))"

definition add_pair :: "'k \<times> 'v \<Rightarrow> ('k \<times> 'v list) list \<Rightarrow> ('k \<times> 'v list) list" where
  "add_pair kp d = dict_put d (fst kp) ((case dict_get d (fst kp) of None \<Rightarrow> [] | Some ps \<Rightarrow> ps) @ [snd kp])"

definition paired_in :: "trial_record \<Rightarrow> trial_record \<Rightarrow> (string \<times> job_pair) list" where
  "paired_in base cand =
     (let theirs = dict_of (map (\<lambda>j. (jr_job_id j, j)) (tl_jobs cand))
      in concat (map (\<lambda>j. case dict_get theirs (jr_job_id j) of None \<Rightarrow> [] | Some k \<Rightarrow> [(jr_job_id j, j, k)]) (tl_jobs base)))"

definition rounds_of :: "trial_record list \<Rightarrow> trial_record list \<Rightarrow> int list" where
  "rounds_of baseline candidate =
     sort (filter (\<lambda>k. k \<in> set (dict_keys (by_round candidate))) (dict_keys (by_round baseline)))"

definition all_pairs :: "trial_record list \<Rightarrow> trial_record list \<Rightarrow> (string \<times> job_pair) list" where
  "all_pairs baseline candidate =
     concat (map (\<lambda>k. paired_in (the (dict_get (by_round baseline) k)) (the (dict_get (by_round candidate) k)))
       (rounds_of baseline candidate))"

definition pair_jobs ::
  "trial_record list \<Rightarrow> trial_record list \<Rightarrow> int list \<times> (string \<times> job_pair list) list" where
  "pair_jobs baseline candidate = (rounds_of baseline candidate, fold add_pair (all_pairs baseline candidate) [])"

section \<open>Intervals\<close>

definition pairs_of :: "(string \<times> job_pair list) list \<Rightarrow> string \<Rightarrow> job_pair list" where
  "pairs_of pairs j = the (dict_get pairs j)"

definition summed_change :: "(string \<times> job_pair list) list \<Rightarrow> (bench_result \<Rightarrow> rat) \<Rightarrow> string \<Rightarrow> rat" where
  "summed_change pairs value j = sum_list (map (\<lambda>(b, c). value c - value b) (pairs_of pairs j))"

definition resampled ::
  "(nat \<Rightarrow> nat \<Rightarrow> nat \<Rightarrow> nat) \<Rightarrow> (string \<times> job_pair list) list \<Rightarrow> (bench_result \<Rightarrow> rat) \<Rightarrow> nat \<Rightarrow> rat" where
  "resampled pick pairs value r =
     (let ids = sort (dict_keys pairs); picked = map (\<lambda>i. ids ! pick (length ids) r i) [0..<length ids]
      in sum_list (map (summed_change pairs value) picked)
         / of_nat (sum_list (map (\<lambda>j. length (pairs_of pairs j)) picked)))"

definition fmean :: "rat list \<Rightarrow> rat" where
  "fmean xs = sum_list xs / of_nat (length xs)"

definition interval_over ::
  "(nat \<Rightarrow> nat \<Rightarrow> nat \<Rightarrow> nat) \<Rightarrow> nat \<Rightarrow> (string \<times> job_pair list) list \<Rightarrow> (bench_result \<Rightarrow> rat) \<Rightarrow> paired_interval" where
  "interval_over pick resamples pairs value =
     (let every = concat (map (pairs_of pairs) (sort (dict_keys pairs)));
          changes = map (resampled pick pairs value) [0..<resamples];
          base = fmean (map (value \<circ> fst) every); cand = fmean (map (value \<circ> snd) every)
      in \<lparr>iv_baseline = base, iv_candidate = cand, iv_change = cand - base,
          iv_low = percentile changes (5 / 2), iv_high = percentile changes (195 / 2)\<rparr>)"

section \<open>What moved\<close>

definition outcome_label :: "bench_result \<Rightarrow> string" where
  "outcome_label j =
     (if jr_outcome j \<noteq> OUT_FAILED then outcome_text (jr_outcome j)
      else ''failed: '' @ (case jr_failure_mode j of None \<Rightarrow> ''None'' | Some m \<Rightarrow> m))"

definition tally_one :: "string \<Rightarrow> (string \<times> nat) list \<Rightarrow> (string \<times> nat) list" where
  "tally_one x d = dict_put d x (Suc (case dict_get d x of None \<Rightarrow> 0 | Some n \<Rightarrow> n))"

definition sorted_tally :: "string list \<Rightarrow> (string \<times> nat) list" where
  "sorted_tally xs = sort_key fst (fold tally_one xs [])"

definition by_task :: "(string \<times> job_pair list) list \<Rightarrow> (string \<times> job_pair list) list" where
  "by_task pairs = fold add_pair (map (\<lambda>p. (jr_task_id (fst p), p)) (concat (map snd pairs))) []"

definition task_change_of :: "string \<times> job_pair list \<Rightarrow> task_change" where
  "task_change_of tp =
     (let ps = snd tp
      in \<lparr>tg_task_id = fst tp, tg_expected = jr_expected (fst (hd ps)), tg_runs = length ps,
          tg_baseline = sorted_tally (map (outcome_label \<circ> fst) ps),
          tg_candidate = sorted_tally (map (outcome_label \<circ> snd) ps),
          tg_baseline_matched = length (filter (jr_matched_expectation \<circ> fst) ps),
          tg_candidate_matched = length (filter (jr_matched_expectation \<circ> snd) ps)\<rparr>)"

definition moved_tasks :: "(string \<times> job_pair list) list \<Rightarrow> task_change list" where
  "moved_tasks pairs =
     filter (\<lambda>t. tg_baseline t \<noteq> tg_candidate t \<or> tg_baseline_matched t \<noteq> tg_candidate_matched t)
       (map task_change_of (sort_key fst (by_task pairs)))"

section \<open>What differs between the runs\<close>

definition one_config :: "trial_record list \<Rightarrow> string \<Rightarrow> string + (string \<times> json) list" where
  "one_config trials name =
     (let configs = map (\<lambda>t. config_fields (tl_config t)) trials
      in if list_ex (\<lambda>c. \<not> same_json (JObj c) (JObj (hd configs))) configs
         then Inl (''the '' @ name @ '' run'' @ [CHR 0x27] @ ''s trials ran with different configurations'')
         else Inr (hd configs))"

definition line_feed :: char where
  "line_feed = CHR 10"

definition prompt_of :: "json \<Rightarrow> string \<Rightarrow> string" where
  "prompt_of prompts kind = (case obj_get prompts kind of Some (JStr t) \<Rightarrow> t | _ \<Rightarrow> [])"

fun keys_of :: "json \<Rightarrow> string list" where
  "keys_of (JObj kvs) = dict_keys kvs"
| "keys_of _ = []"

definition prompt_diff ::
  "(string list \<Rightarrow> string list \<Rightarrow> string \<Rightarrow> string \<Rightarrow> string list) \<Rightarrow> (string \<times> json) list \<Rightarrow> (string \<times> json) list \<Rightarrow> string" where
  "prompt_diff unified base cand =
     (let before = get_or_none (JObj base) ''system_prompts''; after = get_or_none (JObj cand) ''system_prompts''
      in concat (map (\<lambda>kind.
           let chunk = join [line_feed] (unified (splitlines (prompt_of before kind)) (splitlines (prompt_of after kind))
                 (''baseline/'' @ kind) (''candidate/'' @ kind))
           in if chunk = [] then [] else chunk @ [line_feed])
         (sort (remdups (keys_of before @ keys_of after)))))"

definition environment_fields :: "environment \<Rightarrow> (string \<times> json) list" where
  "environment_fields e =
     [(''git_sha'', JStr (en_git_sha e)), (''git_dirty'', JBool (en_git_dirty e)), (''cpu_model'', JStr (en_cpu_model e)),
      (''logical_cpus'', JInt (en_logical_cpus e)), (''usable_cpus'', JInt (en_usable_cpus e)),
      (''cpu_quota_cores'', option_json JFloat (en_cpu_quota_cores e)), (''memory_total_gib'', JFloat (en_memory_total_gib e)),
      (''memory_limit_gib'', option_json JFloat (en_memory_limit_gib e)), (''virtualized'', JBool (en_virtualized e)),
      (''os'', JStr (en_os e)), (''kernel'', JStr (en_kernel e)), (''python'', JStr (en_python e)),
      (''sandbox_network_isolated'', option_json JBool (en_sandbox_network_isolated e))]"

definition field_texts :: "(json \<Rightarrow> string) \<Rightarrow> trial_record list \<Rightarrow> string \<Rightarrow> string list" where
  "field_texts rep trials name =
     sort (remdups (map (\<lambda>t. py_str rep (get_or_none (JObj (environment_fields (tl_environment t))) name)) trials))"

definition environment_changes ::
  "(json \<Rightarrow> string) \<Rightarrow> trial_record list \<Rightarrow> trial_record list \<Rightarrow> (string \<times> string list \<times> string list) list" where
  "environment_changes rep baseline candidate =
     filter (\<lambda>(_, b, c). b \<noteq> c)
       (map (\<lambda>name. (name, field_texts rep baseline name, field_texts rep candidate name))
         (dict_keys (environment_fields (tl_environment (hd baseline)))))"

definition judge :: "bool \<Rightarrow> paired_interval \<Rightarrow> string" where
  "judge higher_is_better change =
     (if iv_low change > 0 then (if higher_is_better then ''better'' else ''worse'')
      else if iv_high change < 0 then (if higher_is_better then ''worse'' else ''better'')
      else ''no detectable change'')"

section \<open>The comparison\<close>

type_synonym formatter = "string \<Rightarrow> rat \<Rightarrow> string"

definition matched_line :: "formatter \<Rightarrow> bench_comparison \<Rightarrow> string" where
  "matched_line fmt c =
     (let m = cm_matched c
      in ''Expectations met: '' @ fmt ''.1%'' (iv_baseline m) @ '' of runs without the change, ''
         @ fmt ''.1%'' (iv_candidate m) @ '' with it, a change of '' @ fmt ''+.1f'' (iv_change m * 100) @ '' points ''
         @ ''(95% interval '' @ fmt ''+.1f'' (iv_low m * 100) @ '' to '' @ fmt ''+.1f'' (iv_high m * 100) @ '') over ''
         @ show_nat (cm_pairs c) @ '' paired runs of '' @ show_nat (cm_jobs c) @ '' jobs. '' @ show_nat (cm_better_pairs c) @ '' ''
         @ ''met it only with the change and '' @ show_nat (cm_worse_pairs c) @ '' only without ''
         @ ''(exact McNemar p = '' @ fmt ''.3f'' (cm_mcnemar_p c) @ '', counting each paired run on its own): ''
         @ judge True m @ ''.'')"

definition measure_line :: "formatter \<Rightarrow> string \<Rightarrow> paired_interval \<Rightarrow> string \<Rightarrow> nat \<Rightarrow> string" where
  "measure_line fmt name change unit digits =
     (let plain = '',.'' @ show_nat digits @ ''f''; signed = ''+,.'' @ show_nat digits @ ''f'';
          relative = (if iv_baseline change \<noteq> 0 then '', '' @ fmt ''+.1%'' (iv_change change / iv_baseline change) else [])
      in name @ '': '' @ fmt plain (iv_baseline change) @ '' '' @ [CHR 0xE2, CHR 0x86, CHR 0x92] @ '' ''
         @ fmt plain (iv_candidate change) @ '' '' @ unit @ '' ('' @ fmt signed (iv_change change) @ relative
         @ ''; 95% interval '' @ fmt signed (iv_low change) @ '' to '' @ fmt signed (iv_high change) @ ''): ''
         @ judge False change @ ''.'')"

definition verdict_lines :: "formatter \<Rightarrow> bench_comparison \<Rightarrow> string list" where
  "verdict_lines fmt c =
     [matched_line fmt c, measure_line fmt ''Tokens per job'' (cm_tokens_per_job c) ''tokens'' 0]
     @ (case cm_cost_per_job c of None \<Rightarrow> [] | Some x \<Rightarrow> [measure_line fmt ''Cost per job at the pinned price'' x ''USD'' 5])
     @ [measure_line fmt ''Model calls per job'' (cm_llm_calls_per_job c) ''calls'' 2]
     @ (case cm_model_seconds c of None \<Rightarrow> []
        | Some x \<Rightarrow> [measure_line fmt ''Time waiting on the model per job'' x ''s'' 2])
     @ [measure_line fmt ''Service time per job'' (cm_service_seconds c) ''s'' 2]"

definition config_changes :: "(string \<times> json) list \<Rightarrow> (string \<times> json) list \<Rightarrow> (string \<times> json \<times> json) list" where
  "config_changes base cand =
     filter (\<lambda>(_, b, c). \<not> same_json b c)
       (map (\<lambda>k. (k, get_or_none (JObj base) k, get_or_none (JObj cand) k)) (sort (remdups (dict_keys base @ dict_keys cand))))"

definition better_pair :: "job_pair \<Rightarrow> bool" where
  "better_pair p \<longleftrightarrow> jr_matched_expectation (snd p) \<and> \<not> jr_matched_expectation (fst p)"

definition worse_pair :: "job_pair \<Rightarrow> bool" where
  "worse_pair p \<longleftrightarrow> jr_matched_expectation (fst p) \<and> \<not> jr_matched_expectation (snd p)"

definition matched_value :: "bench_result \<Rightarrow> rat" where
  "matched_value j = (if jr_matched_expectation j then 1 else 0)"

definition cost_value :: "bench_result \<Rightarrow> rat" where
  "cost_value j = (case jr_cost_usd j of None \<Rightarrow> 0 | Some x \<Rightarrow> x)"

definition model_value :: "bench_result \<Rightarrow> rat" where
  "model_value j = (case jr_output j of None \<Rightarrow> 0 | Some x \<Rightarrow> jo_model_seconds x)"

definition unpaired :: "trial_record list \<Rightarrow> int list \<Rightarrow> int list" where
  "unpaired trials rounds = sort (map tl_trial (filter (\<lambda>t. tl_trial t \<notin> set rounds) trials))"

definition comparison_of ::
  "(json \<Rightarrow> string) \<Rightarrow> (string list \<Rightarrow> string list \<Rightarrow> string \<Rightarrow> string \<Rightarrow> string list)
    \<Rightarrow> (nat \<Rightarrow> nat \<Rightarrow> nat \<Rightarrow> nat) \<Rightarrow> trial_record list \<Rightarrow> trial_record list \<Rightarrow> string list \<Rightarrow> nat
    \<Rightarrow> int list \<Rightarrow> (string \<times> job_pair list) list \<Rightarrow> (string \<times> json) list \<Rightarrow> (string \<times> json) list \<Rightarrow> bench_comparison" where
  "comparison_of rep unified pick baseline candidate expect resamples rounds pairs base_config cand_config =
     (let every = concat (map snd pairs);
          better = length (filter better_pair every);
          worse = length (filter worse_pair every);
          over = interval_over pick resamples pairs;
          changes = config_changes base_config cand_config;
          priced = list_all (\<lambda>(b, c). jr_cost_usd b \<noteq> None \<and> jr_cost_usd c \<noteq> None) every;
          timed = list_all (\<lambda>(b, c). jr_output b \<noteq> None \<and> jr_output c \<noteq> None) every
      in \<lparr>cm_baseline = tl_label (hd baseline), cm_candidate = tl_label (hd candidate),
          cm_rounds = rounds, cm_jobs = length pairs, cm_pairs = length every,
          cm_unpaired_baseline = unpaired baseline rounds,
          cm_unpaired_candidate = unpaired candidate rounds,
          cm_config_changes = changes,
          cm_unexpected_changes = filter (\<lambda>k. k \<notin> set expect) (map fst changes),
          cm_prompt_diff = prompt_diff unified base_config cand_config,
          cm_environment_changes =
            environment_changes rep (filter (\<lambda>t. tl_trial t \<in> set rounds) baseline) (filter (\<lambda>t. tl_trial t \<in> set rounds) candidate),
          cm_matched = over matched_value, cm_better_pairs = better, cm_worse_pairs = worse,
          cm_mcnemar_p = mcnemar_p worse better, cm_tasks = moved_tasks pairs,
          cm_tokens_per_job = over (\<lambda>j. of_int (job_total_tokens j)),
          cm_cost_per_job = (if priced then Some (over cost_value) else None),
          cm_llm_calls_per_job = over (\<lambda>j. of_int (jr_llm_calls j)),
          cm_service_seconds = over service_time,
          cm_model_seconds = (if timed then Some (over model_value) else None), cm_verdict = []\<rparr>)"

definition compare_trials ::
  "formatter \<Rightarrow> (json \<Rightarrow> string) \<Rightarrow> (string list \<Rightarrow> string list \<Rightarrow> string \<Rightarrow> string \<Rightarrow> string list)
    \<Rightarrow> (nat \<Rightarrow> nat \<Rightarrow> nat \<Rightarrow> nat) \<Rightarrow> trial_record list \<Rightarrow> trial_record list \<Rightarrow> string list \<Rightarrow> nat
    \<Rightarrow> string + bench_comparison" where
  "compare_trials fmt rep unified pick baseline candidate expect resamples =
     (let (rounds, pairs) = pair_jobs baseline candidate
      in if pairs = [] then Inl ''the two runs have no complete round with a job in common''
         else case one_config (filter (\<lambda>t. tl_trial t \<in> set rounds) baseline) ''baseline'' of
                Inl e \<Rightarrow> Inl e
              | Inr base_config \<Rightarrow>
                  (case one_config (filter (\<lambda>t. tl_trial t \<in> set rounds) candidate) ''candidate'' of
                     Inl e \<Rightarrow> Inl e
                   | Inr cand_config \<Rightarrow>
                       let c = comparison_of rep unified pick baseline candidate expect resamples rounds pairs base_config cand_config
                       in Inr (c\<lparr>cm_verdict := verdict_lines fmt c\<rparr>)))"

section \<open>Where two configurations differ\<close>

lemma size_get_or_none: "size (get_or_none (JObj kvs) k) < size (JObj kvs)"
proof (cases "dict_get kvs k")
  case (Some v)
  then have "(k, v) \<in> set kvs" by (rule dict_get_mem)
  then have "size_prod (\<lambda>_. 0) size (k, v) \<le> size_list (size_prod (\<lambda>_. 0) size) kvs"
    by (rule size_list_estimation') simp
  then show ?thesis by (simp add: get_or_none_def Some)
qed (simp add: get_or_none_def)

function changed_leaves :: "json \<Rightarrow> json \<Rightarrow> string \<Rightarrow> (string \<times> json \<times> json) list" where
  "changed_leaves before after path =
     (if is_obj before \<and> is_obj after
      then concat (map (\<lambda>k. changed_leaves (get_or_none before k) (get_or_none after k)
             (if path \<noteq> [] then path @ ''.'' @ k else k)) (sort (remdups (keys_of before @ keys_of after))))
      else if same_json before after then [] else [(path, before, after)])"
  by pat_completeness auto
termination
proof (relation "measure (\<lambda>(before, after, _). size before + size after)")
  fix before after :: json and path k :: string
  assume objs: "is_obj before \<and> is_obj after"
  then obtain b a where "before = JObj b" "after = JObj a" by (cases before; cases after) auto
  then show "((get_or_none before k, get_or_none after k, if path \<noteq> [] then path @ ''.'' @ k else k), before, after, path)
      \<in> measure (\<lambda>(before, after, _). size before + size after)"
    using size_get_or_none [of b k] size_get_or_none [of a k] by (simp del: json.size)
qed simp

declare changed_leaves.simps [simp del]

section \<open>McNemar's p-value\<close>

lemma card_small_subsets:
  "card {S. S \<subseteq> {..<n} \<and> card S \<le> k} = (\<Sum>i \<le> k. n choose i)"
proof -
  have "{S. S \<subseteq> {..<n} \<and> card S \<le> k} = (\<Union>i \<in> {..k}. {S. S \<subseteq> {..<n} \<and> card S = i})" by auto
  then have "card {S. S \<subseteq> {..<n} \<and> card S \<le> k} = (\<Sum>i \<le> k. card {S. S \<subseteq> {..<n} \<and> card S = i})"
    by (simp only:) (subst card_UN_disjoint, auto intro: finite_subset [of _ "Pow {..<n}"])
  then show ?thesis by (simp add: n_subsets)
qed

lemma card_large_subsets:
  "card {S. S \<subseteq> {..<n} \<and> n - card S \<le> k} = card {S. S \<subseteq> {..<n :: nat} \<and> card S \<le> k}"
proof (rule bij_betw_same_card [of "\<lambda>S. {..<n} - S"])
  have "card ({..<n} - S) = n - card S" if "S \<subseteq> {..<n}" for S
    using that by (subst card_Diff_subset) (auto intro: finite_subset)
  moreover have "card S \<le> n" if "S \<subseteq> {..<n}" for S using that card_mono [of "{..<n}" S] by simp
  ultimately show "bij_betw (\<lambda>S. {..<n} - S) {S. S \<subseteq> {..<n} \<and> n - card S \<le> k} {S. S \<subseteq> {..<n} \<and> card S \<le> k}"
    by (intro bij_betw_byWitness [of _ "\<lambda>S. {..<n} - S"]) (auto simp: double_diff)
qed

lemma tail_sum: "sum_list (map (\<lambda>i. of_nat (f i)) [0..<k + 1]) = (of_nat (\<Sum>i \<le> k. f i) :: rat)"
  by (induction k) simp_all

text \<open>
  McNemar's p-value: of all the ways the changed pairs could have fallen to one side or the other, the share
  that are at least as one-sided as they did fall.
\<close>

theorem mcnemar_exact:
  "mcnemar_p worse better =
     of_nat (card {S. S \<subseteq> {..<worse + better}
       \<and> (card S \<le> min worse better \<or> worse + better - card S \<le> min worse better)}) / 2 ^ (worse + better)"
proof -
  define n where "n = worse + better"
  define k where "k = min worse better"
  define t where "t = (\<Sum>i \<le> k. n choose i)"
  let ?low = "{S. S \<subseteq> {..<n} \<and> card S \<le> k}" and ?high = "{S. S \<subseteq> {..<n} \<and> n - card S \<le> k}"
  have kn: "2 * k \<le> n" "2 * k = n \<longleftrightarrow> worse = better" by (auto simp: n_def k_def min_def)
  have fin: "finite ?low" "finite ?high" by (auto intro: finite_subset [of _ "Pow {..<n}"])
  have le: "card S \<le> n" if "S \<subseteq> {..<n}" for S using that card_mono [of "{..<n}" S] by simp
  have both: "{S. S \<subseteq> {..<n} \<and> (card S \<le> k \<or> n - card S \<le> k)} = ?low \<union> ?high" by auto
  have size: "card ?low = t" "card ?high = t" by (simp_all add: card_large_subsets card_small_subsets t_def)
  have p: "mcnemar_p worse better = min 1 (2 * of_nat t / 2 ^ n)"
  proof (cases "n = 0")
    case True
    then show ?thesis by (simp add: mcnemar_p_def n_def t_def k_def)
  next
    case False
    then show ?thesis
      unfolding mcnemar_p_def Let_def n_def [symmetric] k_def [symmetric] t_def tail_sum
      by (simp add: power_one_over field_simps)
  qed
  show ?thesis
  proof (cases "worse = better")
    case True
    then have "?low \<union> ?high = Pow {..<n}" using kn le by auto
    then have all: "card (?low \<union> ?high) = 2 ^ n" by (simp add: card_Pow)
    moreover have "card (?low \<union> ?high) \<le> 2 * t" using card_Un_le [of ?low ?high] size by simp
    ultimately have "of_nat (2 ^ n) \<le> (of_nat (2 * t) :: rat)" unfolding of_nat_le_iff by simp
    then have "(2 :: rat) ^ n \<le> 2 * of_nat t" by simp
    then have "mcnemar_p worse better = 1" unfolding p by (simp add: le_divide_eq)
    moreover have "of_nat (card (?low \<union> ?high)) / 2 ^ n = (1 :: rat)" unfolding all by simp
    ultimately show ?thesis unfolding n_def [symmetric] k_def [symmetric] both by simp
  next
    case False
    then have "2 * k < n" using kn by auto
    then have "?low \<inter> ?high = {}" using le by fastforce
    then have "card (?low \<union> ?high) = 2 * t" using fin size by (simp add: card_Un_disjoint)
    moreover have "card (?low \<union> ?high) \<le> 2 ^ n"
      using card_mono [of "Pow {..<n}" "?low \<union> ?high"] by (auto simp: card_Pow)
    ultimately have "of_nat (card (?low \<union> ?high)) = (of_nat (2 * t) :: rat)" "(of_nat (2 * t) :: rat) \<le> of_nat (2 ^ n)"
      unfolding of_nat_le_iff of_nat_eq_iff by simp_all
    then have "of_nat (card (?low \<union> ?high)) = (2 * of_nat t :: rat)" "(2 * of_nat t :: rat) \<le> 2 ^ n" by simp_all
    then show ?thesis
      unfolding n_def [symmetric] k_def [symmetric] both p by (simp add: divide_le_eq)
  qed
qed

section \<open>Pairs are the same from either side\<close>

lemma dict_get_add_pairs:
  "dict_get (fold add_pair xs []) j =
     (let ps = map snd (filter (\<lambda>x. fst x = j) xs) in if ps = [] then None else Some ps)"
proof (induction xs rule: rev_induct)
  case (snoc x xs)
  then show ?case by (cases x) (auto simp: add_pair_def Let_def)
qed simp

lemma distinct_add_pairs: "distinct (dict_keys (fold add_pair xs []))"
  by (induction xs rule: rev_induct) (auto simp: add_pair_def simp del: dict_keys_put)

lemma rounds_of_eq:
  "rounds_of baseline candidate =
     sorted_list_of_set (set (dict_keys (by_round baseline)) \<inter> set (dict_keys (by_round candidate)))"
  unfolding rounds_of_def
  by (rule sorted_distinct_set_unique) (auto simp: by_round_def distinct_dict_of)

lemma rounds_of_swap: "rounds_of candidate baseline = rounds_of baseline candidate"
  by (simp add: rounds_of_eq Int_commute)

definition job_with :: "string \<Rightarrow> trial_record \<Rightarrow> bench_result option" where
  "job_with j t = find (\<lambda>x. jr_job_id x = j) (tl_jobs t)"

lemma find_distinct:
  "distinct (map f xs) \<Longrightarrow> filter (\<lambda>x. f x = k) xs = (case find (\<lambda>x. f x = k) xs of None \<Rightarrow> [] | Some x \<Rightarrow> [x])"
proof (induction xs)
  case (Cons a xs)
  show ?case
  proof (cases "f a = k")
    case True
    with Cons.prems have "k \<notin> f ` set xs" by simp
    then have "filter (\<lambda>x. f x = k) xs = []" by (auto simp: filter_empty_conv)
    then show ?thesis using True by simp
  qed (use Cons in simp)
qed simp

lemma concat_map_if: "concat (map (\<lambda>b. if P b then f b else []) xs) = concat (map f (filter P xs))"
  by (induction xs) simp_all

lemma dict_get_by_id:
  "distinct (map f xs) \<Longrightarrow> dict_get (dict_of (map (\<lambda>x. (f x, x)) xs)) k = find (\<lambda>x. f x = k) xs"
proof -
  assume d: "distinct (map f xs)"
  then have "dict_of (map (\<lambda>x. (f x, x)) xs) = map (\<lambda>x. (f x, x)) xs"
    by (intro dict_of_distinct) (simp add: comp_def)
  moreover have "dict_get (map (\<lambda>x. (f x, x)) xs) k = find (\<lambda>x. f x = k) xs" by (induction xs) auto
  ultimately show ?thesis by simp
qed

text \<open>One round pairs a job with itself in the other run, or not at all.\<close>

lemma paired_in_job:
  assumes "distinct (map jr_job_id (tl_jobs base))" and "distinct (map jr_job_id (tl_jobs cand))"
  shows "map snd (filter (\<lambda>x. fst x = j) (paired_in base cand)) =
     (case (job_with j base, job_with j cand) of (Some b, Some c) \<Rightarrow> [(b, c)] | _ \<Rightarrow> [])"
proof -
  let ?one = "\<lambda>b. case find (\<lambda>x. jr_job_id x = jr_job_id b) (tl_jobs cand) of
      None \<Rightarrow> [] | Some c \<Rightarrow> [(jr_job_id b, b, c)]"
  have one: "filter (\<lambda>x. fst x = j) (?one b) = (if jr_job_id b = j then ?one b else [])" for b
    by (auto split: option.splits)
  have "filter (\<lambda>x. fst x = j) (paired_in base cand) = concat (map (\<lambda>b. if jr_job_id b = j then ?one b else []) (tl_jobs base))"
    unfolding paired_in_def Let_def dict_get_by_id [OF assms(2)] filter_concat map_map comp_def one ..
  then show ?thesis
    unfolding concat_map_if find_distinct [OF assms(1)] job_with_def
    by (auto split: option.splits dest: find_Some_mem)
qed

definition turn_pair :: "job_pair \<Rightarrow> job_pair" where
  "turn_pair p = (snd p, fst p)"

lemma turn_pair_simps [simp]: "fst (turn_pair p) = snd p" "snd (turn_pair p) = fst p"
  by (simp_all add: turn_pair_def)

lemma by_round_mem: "dict_get (by_round trials) k = Some t \<Longrightarrow> t \<in> set trials"
  unfolding by_round_def by (auto dest!: dict_get_mem set_dict_of)

lemma rounds_of_there:
  assumes "k \<in> set (rounds_of baseline candidate)"
  shows "\<exists>b. dict_get (by_round baseline) k = Some b" and "\<exists>c. dict_get (by_round candidate) k = Some c"
proof -
  have "k \<in> set (dict_keys (by_round baseline))" "k \<in> set (dict_keys (by_round candidate))"
    using assms unfolding rounds_of_def by simp_all
  then show "\<exists>b. dict_get (by_round baseline) k = Some b" "\<exists>c. dict_get (by_round candidate) k = Some c"
    using dict_get_None_iff [of "by_round baseline" k] dict_get_None_iff [of "by_round candidate" k] by blast+
qed

definition unique_jobs :: "trial_record list \<Rightarrow> bool" where
  "unique_jobs trials \<longleftrightarrow> (\<forall>t \<in> set trials. distinct (map jr_job_id (tl_jobs t)))"

lemma all_pairs_swap:
  assumes "unique_jobs baseline" and "unique_jobs candidate"
  shows "map snd (filter (\<lambda>x. fst x = j) (all_pairs candidate baseline)) =
     map turn_pair (map snd (filter (\<lambda>x. fst x = j) (all_pairs baseline candidate)))"
proof -
  have round: "map snd (filter (\<lambda>x. fst x = j)
        (paired_in (the (dict_get (by_round candidate) k)) (the (dict_get (by_round baseline) k)))) =
      map turn_pair (map snd (filter (\<lambda>x. fst x = j)
        (paired_in (the (dict_get (by_round baseline) k)) (the (dict_get (by_round candidate) k)))))"
    if "k \<in> set (rounds_of baseline candidate)" for k
  proof -
    from rounds_of_there [OF that] obtain b c where "dict_get (by_round baseline) k = Some b"
      "dict_get (by_round candidate) k = Some c" by blast
    moreover from this have "distinct (map jr_job_id (tl_jobs b))" "distinct (map jr_job_id (tl_jobs c))"
      using assms by_round_mem by (auto simp: unique_jobs_def)
    ultimately show ?thesis
      by (simp add: paired_in_job turn_pair_def split: option.splits)
  qed
  show ?thesis
    unfolding all_pairs_def rounds_of_swap [of candidate] filter_concat map_concat map_map comp_def
    by (rule arg_cong [of _ _ concat], rule map_cong [OF refl]) (use round in \<open>simp add: comp_def\<close>)
qed

lemma pairs_swap:
  assumes "unique_jobs baseline" and "unique_jobs candidate"
  shows "dict_get (snd (pair_jobs candidate baseline)) j = map_option (map turn_pair) (dict_get (snd (pair_jobs baseline candidate)) j)"
  unfolding pair_jobs_def snd_conv dict_get_add_pairs Let_def all_pairs_swap [OF assms] by simp

definition draws_below :: "(nat \<Rightarrow> nat \<Rightarrow> nat \<Rightarrow> nat) \<Rightarrow> bool" where
  "draws_below pick \<longleftrightarrow> (\<forall>n r i. i < n \<longrightarrow> pick n r i < n)"

text \<open>From here on \<open>qs\<close> are the pairs \<open>ps\<close> the other way round.\<close>

definition turned_pairs :: "(string \<times> job_pair list) list \<Rightarrow> (string \<times> job_pair list) list \<Rightarrow> bool" where
  "turned_pairs ps qs \<longleftrightarrow> distinct (dict_keys ps) \<and> distinct (dict_keys qs)
     \<and> (\<forall>j. dict_get qs j = map_option (map turn_pair) (dict_get ps j))"

lemma turned_pair_jobs:
  "unique_jobs baseline \<Longrightarrow> unique_jobs candidate \<Longrightarrow>
     turned_pairs (snd (pair_jobs baseline candidate)) (snd (pair_jobs candidate baseline))"
  unfolding turned_pairs_def
  by (intro conjI allI pairs_swap) (simp_all only: pair_jobs_def snd_conv distinct_add_pairs)

lemma turned_keys:
  assumes "turned_pairs ps qs"
  shows "set (dict_keys qs) = set (dict_keys ps)" and "sort (dict_keys qs) = sort (dict_keys ps)" and "length qs = length ps"
proof -
  have "j \<in> set (dict_keys qs) \<longleftrightarrow> j \<in> set (dict_keys ps)" for j
    using assms dict_get_None_iff [of qs j] dict_get_None_iff [of ps j] by (auto simp: turned_pairs_def)
  then show keys: "set (dict_keys qs) = set (dict_keys ps)" by blast
  have eq: "mset (dict_keys qs) = mset (dict_keys ps)"
    using assms keys by (intro iffD1 [OF set_eq_iff_mset_eq_distinct]) (simp_all only: turned_pairs_def)
  show "sort (dict_keys qs) = sort (dict_keys ps)" by (rule properties_for_sort) (simp_all only: eq mset_sort sorted_sort)
  show "length qs = length ps" using arg_cong [OF eq, of size] by simp
qed

lemma turned_pairs_of:
  "turned_pairs ps qs \<Longrightarrow> j \<in> set (dict_keys ps) \<Longrightarrow> pairs_of qs j = map turn_pair (pairs_of ps j)"
  by (cases "dict_get ps j") (auto simp: turned_pairs_def pairs_of_def dict_get_None_iff)

section \<open>Intervals turn around\<close>

definition turned :: "paired_interval \<Rightarrow> paired_interval" where
  "turned iv =
     \<lparr>iv_baseline = iv_candidate iv, iv_candidate = iv_baseline iv, iv_change = - iv_change iv, iv_low = - iv_high iv,
      iv_high = - iv_low iv\<rparr>"

lemma interpolate_rev:
  assumes "xs \<noteq> []" and "0 \<le> r" and "r \<le> of_nat (length xs - 1)"
  shows "interpolate (rev (map uminus xs)) r = - interpolate xs (of_nat (length xs - 1) - r)"
proof -
  define l where "l = nat \<lfloor>r\<rfloor>"
  define n where "n = length xs - 1"
  have n: "length xs = Suc n" using assms(1) by (cases xs) (simp_all add: n_def)
  have nth: "rev (map uminus xs) ! i = - xs ! (n - i)" if "i \<le> n" for i
    using that n by (simp add: rev_nth)
  have l: "of_nat l \<le> r" "r < of_nat l + 1" using rank_parts [OF assms(2)] by (simp_all add: l_def)
  have r: "r \<le> of_nat n" using assms(3) by (simp add: n_def)
  have "of_nat l \<le> (of_nat n :: rat)" using l(1) r by (rule order_trans)
  then have ln: "l \<le> n" by simp
  show ?thesis
  proof (cases "r = of_nat l")
    case True
    have diff: "(of_nat n - of_nat l :: rat) = of_nat (n - l)" using ln by (simp add: of_nat_diff)
    show ?thesis
      unfolding n_def [symmetric] True diff using ln n nth by (simp add: interpolate_at del: of_nat_diff)
  next
    case False
    with l have f: "of_nat l < r" by simp
    then have "(of_nat l :: rat) < of_nat n" using r by (rule less_le_trans)
    then have ln: "Suc l \<le> n" by simp
    then have cast: "(of_nat (n - Suc l) :: rat) = of_nat n - of_nat l - 1" by (simp add: of_nat_diff)
    have "\<lfloor>of_nat n - r\<rfloor> = int (n - Suc l)"
      by (rule floor_unique) (use cast l f in \<open>simp_all add: of_int_of_nat_eq\<close>)
    then have floor: "nat \<lfloor>of_nat n - r\<rfloor> = n - Suc l" by simp
    have low: "interpolate (rev (map uminus xs)) r = - xs ! (n - l) + (xs ! (n - l) - xs ! (n - Suc l)) * (r - of_nat l)"
      using ln nth [of l] nth [of "Suc l"] by (simp add: interpolate_def l_def [symmetric] n Let_def min_absorb1)
    have "n - Suc l + 1 = n - l" using ln by simp
    then have "interpolate xs (of_nat n - r) = xs ! (n - Suc l) + (xs ! (n - l) - xs ! (n - Suc l)) * (of_nat n - r - of_nat (n - Suc l))"
      by (simp add: interpolate_def floor n Let_def min_absorb1)
    then show ?thesis unfolding n_def [symmetric] low cast by (simp add: algebra_simps)
  qed
qed

lemma percentile_uminus:
  assumes "0 \<le> p" and "p \<le> 100"
  shows "percentile (map uminus xs) p = - percentile xs (100 - p)"
proof (cases "xs = []")
  case False
  let ?n = "of_nat (length xs - 1) :: rat"
  have sort: "sort (map uminus xs) = rev (map uminus (sort xs))"
    by (rule properties_for_sort) (simp_all add: sorted_wrt_rev sorted_wrt_map rev_map)
  have "?n * p \<le> ?n * 100" using assms by (intro mult_left_mono) simp_all
  then have "0 \<le> ?n * p / 100" "?n * p / 100 \<le> ?n" using assms by simp_all
  with interpolate_rev [of "sort xs" "?n * p / 100"] False
  have "interpolate (rev (map uminus (sort xs))) (?n * p / 100) = - interpolate (sort xs) (?n - ?n * p / 100)"
    by (simp add: sort_eq_Nil)
  moreover have "?n - ?n * p / 100 = ?n * (100 - p) / 100" by (simp add: field_simps)
  moreover have "map uminus xs \<noteq> []" using False by simp
  ultimately show ?thesis
    unfolding percentile_interpolate [OF False] percentile_interpolate [OF \<open>map uminus xs \<noteq> []\<close>] sort length_map by (simp only:)
qed (simp add: percentile_def)

lemma summed_change_turned:
  assumes "turned_pairs ps qs" and "j \<in> set (dict_keys ps)"
  shows "summed_change qs value j = - summed_change ps value j"
proof -
  have "sum_list (map (\<lambda>(b, c). value c - value b) (map turn_pair xs)) = - sum_list (map (\<lambda>(b, c). value c - value b) xs)" for xs
    by (induction xs) (auto simp: turn_pair_def)
  then show ?thesis unfolding summed_change_def turned_pairs_of [OF assms] .
qed

lemma resampled_turned:
  assumes "turned_pairs ps qs" and "draws_below pick"
  shows "resampled pick qs value r = - resampled pick ps value r"
proof -
  let ?ids = "sort (dict_keys ps)"
  let ?picked = "map (\<lambda>i. ?ids ! pick (length ?ids) r i) [0..<length ?ids]"
  have there: "j \<in> set (dict_keys ps)" if "j \<in> set ?picked" for j
    using that assms(2) nth_mem [of _ ?ids] by (auto simp: draws_below_def simp del: nth_mem)
  have "sum_list (map (summed_change qs value) ?picked) = sum_list (map (\<lambda>j. - summed_change ps value j) ?picked)"
    using there summed_change_turned [OF assms(1)] by (intro arg_cong [of _ _ sum_list] map_cong) auto
  also have "\<dots> = - sum_list (map (summed_change ps value) ?picked)" by (rule uminus_sum_list_map [symmetric, unfolded comp_def])
  finally have sums: "sum_list (map (summed_change qs value) ?picked) = - sum_list (map (summed_change ps value) ?picked)" .
  have lengths: "map (\<lambda>j. length (pairs_of qs j)) ?picked = map (\<lambda>j. length (pairs_of ps j)) ?picked"
    using there turned_pairs_of [OF assms(1)] by (intro map_cong) auto
  show ?thesis
    unfolding resampled_def Let_def turned_keys(2) [OF assms(1)] sums lengths by (rule minus_divide_left [symmetric])
qed

lemma interval_turned:
  assumes "turned_pairs ps qs" and "draws_below pick"
  shows "interval_over pick resamples qs value = turned (interval_over pick resamples ps value)"
proof -
  have "concat (map (pairs_of qs) (sort (dict_keys ps))) = map turn_pair (concat (map (pairs_of ps) (sort (dict_keys ps))))"
    unfolding map_concat map_map
    by (rule arg_cong [of _ _ concat], rule map_cong [OF refl]) (simp add: turned_pairs_of [OF assms(1)])
  moreover have "map (resampled pick qs value) [0..<resamples] = map uminus (map (resampled pick ps value) [0..<resamples])"
    using resampled_turned [OF assms] by simp
  moreover have "percentile (map (\<lambda>r. - f r) xs) (5 / 2) = - percentile (map f xs) (195 / 2)"
    "percentile (map (\<lambda>r. - f r) xs) (195 / 2) = - percentile (map f xs) (5 / 2)" for f and xs :: "nat list"
    using percentile_uminus [of "5 / 2" "map f xs"] percentile_uminus [of "195 / 2" "map f xs"] by (simp_all add: comp_def)
  ultimately show ?thesis
    unfolding interval_over_def turned_def Let_def turned_keys(2) [OF assms(1)]
    by (simp only: map_map comp_def turn_pair_simps paired_interval.simps minus_diff_eq)
qed

text \<open>What is better one way is worse the other way.\<close>

definition opposite :: "string \<Rightarrow> string" where
  "opposite verdict = (if verdict = ''better'' then ''worse'' else if verdict = ''worse'' then ''better'' else verdict)"

lemma interval_ordered: "iv_low (interval_over pick resamples ps value) \<le> iv_high (interval_over pick resamples ps value)"
proof -
  have "percentile xs (5 / 2) \<le> percentile xs (195 / 2)" for xs
    by (cases "xs = []") (simp add: percentile_def, rule percentile_mono, simp_all)
  then show ?thesis by (simp add: interval_over_def Let_def)
qed

lemma judge_turned: "iv_low iv \<le> iv_high iv \<Longrightarrow> judge h (turned iv) = opposite (judge h iv)"
  by (auto simp: judge_def turned_def opposite_def)

section \<open>The comparison turns around\<close>

lemma mset_concat_map: "mset (concat (map f ks)) = (\<Sum>k \<in># mset ks. mset (f k))"
  by (induction ks) simp_all

lemma mset_concat_image: "(\<Sum>k \<in># mset ks. image_mset g (mset (f k))) = image_mset g (mset (concat (map f ks)))"
  by (induction ks) simp_all

lemma turned_every:
  assumes "turned_pairs ps qs"
  shows "mset (concat (map snd qs)) = image_mset turn_pair (mset (concat (map snd ps)))"
proof -
  have by_key: "map snd d = map (pairs_of d) (dict_keys d)" if "distinct (dict_keys d)" for d :: "(string \<times> job_pair list) list"
    using that by (auto simp: pairs_of_def dict_get_distinct)
  have d: "distinct (dict_keys ps)" "distinct (dict_keys qs)" using assms by (simp_all only: turned_pairs_def)
  have keys: "mset (dict_keys qs) = mset (dict_keys ps)"
    by (rule iffD1 [OF set_eq_iff_mset_eq_distinct [OF d(2,1)] turned_keys(1) [OF assms]])
  have "mset (concat (map snd qs)) = (\<Sum>k \<in># mset (dict_keys ps). mset (pairs_of qs k))"
    unfolding by_key [OF d(2)] mset_concat_map keys ..
  also have "\<dots> = (\<Sum>k \<in># mset (dict_keys ps). image_mset turn_pair (mset (pairs_of ps k)))"
    by (intro arg_cong [of _ _ sum_mset] image_mset_cong) (simp add: turned_pairs_of [OF assms])
  also have "\<dots> = image_mset turn_pair (mset (concat (map snd ps)))"
    unfolding by_key [OF d(1)] by (rule mset_concat_image)
  finally show ?thesis .
qed

lemma turned_count:
  assumes "turned_pairs ps qs" and "\<And>p. P (turn_pair p) \<longleftrightarrow> Q p"
  shows "length (filter P (concat (map snd qs))) = length (filter Q (concat (map snd ps)))"
proof -
  have "size (filter_mset P (mset (concat (map snd qs)))) = size (filter_mset Q (mset (concat (map snd ps))))"
    unfolding turned_every [OF assms(1)] filter_mset_image_mset by (simp add: comp_def assms(2))
  then show ?thesis by (simp only: mset_filter [symmetric] size_mset)
qed

lemma turned_all:
  assumes "turned_pairs ps qs" and "\<And>p. P (turn_pair p) \<longleftrightarrow> P p"
  shows "list_all P (concat (map snd qs)) \<longleftrightarrow> list_all P (concat (map snd ps))"
proof -
  have "set (concat (map snd qs)) = turn_pair ` set (concat (map snd ps))"
    using arg_cong [OF turned_every [OF assms(1)], of set_mset] by (simp only: set_mset_mset set_image_mset)
  then show ?thesis unfolding list_all_iff by (simp only: ball_simps assms(2))
qed

lemma one_config_name: "one_config trials x = Inr c \<Longrightarrow> one_config trials y = Inr c"
  by (auto simp: one_config_def Let_def split: if_splits)

lemma mcnemar_swap: "mcnemar_p a b = mcnemar_p b a"
  unfolding mcnemar_p_def by (simp only: add.commute [of a b] min.commute [of a b])

definition comparable :: "trial_record list \<Rightarrow> trial_record list \<Rightarrow> bool" where
  "comparable baseline candidate \<longleftrightarrow>
     snd (pair_jobs baseline candidate) \<noteq> []
     \<and> (\<exists>c. one_config (filter (\<lambda>t. tl_trial t \<in> set (rounds_of baseline candidate)) baseline) ''baseline'' = Inr c)
     \<and> (\<exists>c. one_config (filter (\<lambda>t. tl_trial t \<in> set (rounds_of baseline candidate)) candidate) ''candidate'' = Inr c)"

lemma compare_trials_Inr:
  "(\<exists>c. compare_trials fmt rep unified pick baseline candidate expect resamples = Inr c) \<longleftrightarrow> comparable baseline candidate"
  by (auto simp: compare_trials_def comparable_def pair_jobs_def Let_def split: sum.splits)

lemma comparable_swap:
  assumes "turned_pairs (snd (pair_jobs baseline candidate)) (snd (pair_jobs candidate baseline))"
    and "comparable baseline candidate"
  shows "comparable candidate baseline"
proof -
  have "length (snd (pair_jobs candidate baseline)) = length (snd (pair_jobs baseline candidate))"
    by (rule turned_keys(3) [OF assms(1)])
  with assms(2) show ?thesis
    unfolding comparable_def rounds_of_swap [of candidate] by (auto intro: one_config_name)
qed

lemma compare_trials_is:
  "compare_trials fmt rep unified pick baseline candidate expect resamples = Inr c \<Longrightarrow>
     \<exists>bc cc v. c = (comparison_of rep unified pick baseline candidate expect resamples
       (rounds_of baseline candidate) (snd (pair_jobs baseline candidate)) bc cc)\<lparr>cm_verdict := v\<rparr>"
  by (auto simp: compare_trials_def pair_jobs_def Let_def split: sum.splits if_splits)

lemma comparison_parts:
  fixes rep unified pick baseline candidate expect resamples rounds ps bc cc v
  defines "c \<equiv> (comparison_of rep unified pick baseline candidate expect resamples rounds ps bc cc)\<lparr>cm_verdict := v\<rparr>"
    and "every \<equiv> concat (map snd ps)"
  shows "cm_rounds c = rounds" and "cm_jobs c = length ps" and "cm_pairs c = length every"
    and "cm_matched c = interval_over pick resamples ps matched_value"
    and "cm_better_pairs c = length (filter better_pair every)" and "cm_worse_pairs c = length (filter worse_pair every)"
    and "cm_mcnemar_p c = mcnemar_p (length (filter worse_pair every)) (length (filter better_pair every))"
    and "cm_tokens_per_job c = interval_over pick resamples ps (\<lambda>j. of_int (job_total_tokens j))"
    and "cm_llm_calls_per_job c = interval_over pick resamples ps (\<lambda>j. of_int (jr_llm_calls j))"
    and "cm_service_seconds c = interval_over pick resamples ps service_time"
    and "cm_cost_per_job c = (if list_all (\<lambda>(b, c). jr_cost_usd b \<noteq> None \<and> jr_cost_usd c \<noteq> None) every
      then Some (interval_over pick resamples ps cost_value) else None)"
    and "cm_model_seconds c = (if list_all (\<lambda>(b, c). jr_output b \<noteq> None \<and> jr_output c \<noteq> None) every
      then Some (interval_over pick resamples ps model_value) else None)"
  by (simp_all add: c_def every_def comparison_of_def Let_def)

text \<open>
  C35. Exchanging the two runs turns the comparison around: the rounds, jobs and pairs are the same, every interval
  has its means exchanged and its change and bounds negated, the better and worse pairs change places with the
  same p-value, and each verdict is the opposite one.
\<close>

theorem comparison_antisymmetric:
  assumes "compare_trials fmt rep unified pick baseline candidate expect resamples = Inr c"
    and "unique_jobs baseline" and "unique_jobs candidate" and "draws_below pick"
  shows "\<exists>d. compare_trials fmt rep unified pick candidate baseline expect resamples = Inr d
    \<and> cm_rounds d = cm_rounds c \<and> cm_jobs d = cm_jobs c \<and> cm_pairs d = cm_pairs c
    \<and> cm_matched d = turned (cm_matched c) \<and> cm_tokens_per_job d = turned (cm_tokens_per_job c)
    \<and> cm_llm_calls_per_job d = turned (cm_llm_calls_per_job c) \<and> cm_service_seconds d = turned (cm_service_seconds c)
    \<and> cm_cost_per_job d = map_option turned (cm_cost_per_job c)
    \<and> cm_model_seconds d = map_option turned (cm_model_seconds c)
    \<and> cm_better_pairs d = cm_worse_pairs c \<and> cm_worse_pairs d = cm_better_pairs c \<and> cm_mcnemar_p d = cm_mcnemar_p c
    \<and> judge True (cm_matched d) = opposite (judge True (cm_matched c))
    \<and> judge False (cm_tokens_per_job d) = opposite (judge False (cm_tokens_per_job c))"
proof -
  let ?ps = "snd (pair_jobs baseline candidate)" and ?qs = "snd (pair_jobs candidate baseline)"
  note pairs = turned_pair_jobs [OF assms(2,3)]
  have "comparable candidate baseline"
    using assms(1) compare_trials_Inr by (intro comparable_swap [OF pairs]) blast
  then obtain d where d: "compare_trials fmt rep unified pick candidate baseline expect resamples = Inr d"
    using compare_trials_Inr by blast
  from compare_trials_is [OF assms(1)] compare_trials_is [OF d] obtain bc cc v bd cd w where
    c: "c = (comparison_of rep unified pick baseline candidate expect resamples (rounds_of baseline candidate) ?ps bc cc)\<lparr>cm_verdict := v\<rparr>"
    and d': "d = (comparison_of rep unified pick candidate baseline expect resamples (rounds_of candidate baseline) ?qs bd cd)\<lparr>cm_verdict := w\<rparr>"
    by blast
  note turn = interval_turned [OF pairs assms(4)]
  have priced: "list_all (\<lambda>(b, c). jr_cost_usd b \<noteq> None \<and> jr_cost_usd c \<noteq> None) (concat (map snd ?qs)) \<longleftrightarrow>
      list_all (\<lambda>(b, c). jr_cost_usd b \<noteq> None \<and> jr_cost_usd c \<noteq> None) (concat (map snd ?ps))"
    by (rule turned_all [OF pairs]) (auto simp: turn_pair_def split: prod.splits)
  have timed: "list_all (\<lambda>(b, c). jr_output b \<noteq> None \<and> jr_output c \<noteq> None) (concat (map snd ?qs)) \<longleftrightarrow>
      list_all (\<lambda>(b, c). jr_output b \<noteq> None \<and> jr_output c \<noteq> None) (concat (map snd ?ps))"
    by (rule turned_all [OF pairs]) (auto simp: turn_pair_def split: prod.splits)
  have counts: "length (filter better_pair (concat (map snd ?qs))) = length (filter worse_pair (concat (map snd ?ps)))"
    "length (filter worse_pair (concat (map snd ?qs))) = length (filter better_pair (concat (map snd ?ps)))"
    "length (filter (\<lambda>_. True) (concat (map snd ?qs))) = length (filter (\<lambda>_. True) (concat (map snd ?ps)))"
    by (rule turned_count [OF pairs], simp add: better_pair_def worse_pair_def)+
  have intervals: "cm_matched d = turned (cm_matched c)" "cm_tokens_per_job d = turned (cm_tokens_per_job c)"
    "cm_llm_calls_per_job d = turned (cm_llm_calls_per_job c)" "cm_service_seconds d = turned (cm_service_seconds c)"
    unfolding c d' comparison_parts turn by (rule refl)+
  moreover have "cm_cost_per_job d = map_option turned (cm_cost_per_job c)" "cm_model_seconds d = map_option turned (cm_model_seconds c)"
    unfolding c d' comparison_parts turn priced timed by simp_all
  moreover have "cm_better_pairs d = cm_worse_pairs c" "cm_worse_pairs d = cm_better_pairs c" "cm_mcnemar_p d = cm_mcnemar_p c"
    unfolding c d' comparison_parts counts by (rule refl, rule refl, rule mcnemar_swap)
  moreover have "cm_rounds d = cm_rounds c" "cm_jobs d = cm_jobs c" "cm_pairs d = cm_pairs c"
    unfolding c d' comparison_parts using rounds_of_swap turned_keys(3) [OF pairs] counts(3) by simp_all
  moreover have "judge True (cm_matched d) = opposite (judge True (cm_matched c))"
    "judge False (cm_tokens_per_job d) = opposite (judge False (cm_tokens_per_job c))"
    unfolding intervals unfolding c comparison_parts by (rule judge_turned, rule interval_ordered)+
  ultimately show ?thesis using d by blast
qed

definition demo_baseline_run :: "trial_record list" where
  "demo_baseline_run = [demo_trial 1 [demo_bench_job ''w0'' 0 2], demo_trial 2 []]"

definition demo_candidate_run :: "trial_record list" where
  "demo_candidate_run = [demo_trial 2 [], demo_trial 1 [(demo_bench_job ''w0'' 0 3)\<lparr>jr_prompt_tokens := 5, jr_matched_expectation := False\<rparr>]]"

definition demo_compared :: "trial_record list \<Rightarrow> trial_record list \<Rightarrow> string + bench_comparison" where
  "demo_compared base cand = compare_trials (\<lambda>_ _. []) (\<lambda>_. []) (\<lambda>_ _ _ _. []) (\<lambda>_ _ i. i) base cand [] 3"

theorem comparison_antisymmetric_witness:
  "\<exists>c d. demo_compared demo_baseline_run demo_candidate_run = Inr c \<and> demo_compared demo_candidate_run demo_baseline_run = Inr d
     \<and> cm_worse_pairs c = 1 \<and> cm_better_pairs d = 1 \<and> cm_matched d = turned (cm_matched c)"
proof -
  have pairs: "length (snd (pair_jobs demo_baseline_run demo_candidate_run)) = 1
      \<and> length (filter worse_pair (concat (map snd (snd (pair_jobs demo_baseline_run demo_candidate_run))))) = 1" by code_simp
  have same: "config_fields (tl_config t) = config_fields demo_config" if "t \<in> set (demo_baseline_run @ demo_candidate_run)" for t
    using that by (auto simp: demo_baseline_run_def demo_candidate_run_def demo_trial_def)
  have rounds: "rounds_of demo_baseline_run demo_candidate_run = [1, 2]" by code_simp
  have "filter (\<lambda>t. tl_trial t \<in> set [1, 2]) demo_baseline_run = demo_baseline_run"
    "filter (\<lambda>t. tl_trial t \<in> set [1, 2]) demo_candidate_run = demo_candidate_run"
    by (simp_all add: demo_baseline_run_def demo_candidate_run_def demo_trial_def)
  then have "comparable demo_baseline_run demo_candidate_run"
    unfolding comparable_def rounds using pairs same
    by (auto simp: one_config_def Let_def list_ex_iff same_json_def demo_baseline_run_def demo_candidate_run_def)
  then obtain c where c: "demo_compared demo_baseline_run demo_candidate_run = Inr c"
    unfolding demo_compared_def using compare_trials_Inr by blast
  have ok: "unique_jobs demo_baseline_run" "unique_jobs demo_candidate_run" "draws_below (\<lambda>_ _ i. i)"
    by (simp_all add: unique_jobs_def draws_below_def demo_baseline_run_def demo_candidate_run_def demo_trial_def)
  obtain d where d: "demo_compared demo_candidate_run demo_baseline_run = Inr d"
    and turn: "cm_better_pairs d = cm_worse_pairs c" "cm_matched d = turned (cm_matched c)"
    using comparison_antisymmetric [OF c [unfolded demo_compared_def] ok, folded demo_compared_def] by blast
  have "cm_worse_pairs c = 1"
    using compare_trials_is [OF c [unfolded demo_compared_def]] pairs by (auto simp: comparison_parts)
  with c d turn show ?thesis by auto
qed

text \<open>A reported difference is one, and a value does not differ from itself.\<close>

lemma changed_leaves_differ: "(p, x, y) \<in> set (changed_leaves before after path) \<Longrightarrow> \<not> same_json x y"
proof (induction before after path rule: changed_leaves.induct)
  case (1 before after path)
  show ?case
  proof (cases "is_obj before \<and> is_obj after")
    case True
    with "1.prems" obtain k where "k \<in> set (sort (remdups (keys_of before @ keys_of after)))"
      "(p, x, y) \<in> set (changed_leaves (get_or_none before k) (get_or_none after k) (if path \<noteq> [] then path @ ''.'' @ k else k))"
      by (subst (asm) changed_leaves.simps) auto
    then show ?thesis using "1.IH" True by blast
  next
    case False
    then show ?thesis using "1.prems" by (subst (asm) changed_leaves.simps) (auto split: if_splits)
  qed
qed

lemma changed_leaves_self: "changed_leaves v v path = []"
proof -
  have "changed_leaves before after path = []" if "before = after" for before after
    using that
  proof (induction before after path rule: changed_leaves.induct)
    case (1 before after path)
    then show ?case by (subst changed_leaves.simps) (auto simp: same_json_def)
  qed
  then show ?thesis by simp
qed

end
