(* ===== verification/Fleet_Dates.thy ===== *)
theory Fleet_Dates
  imports Fleet_Lifecycle
begin

text \<open>
  The times a job's row carries: submitted, claimed and finished, in this order, and there when the job's state
  says they should be. What reads a finished batch (\<^verbatim>\<open>bench/fleet_executor.py\<close>) depends on them.
\<close>

definition dated :: "time \<Rightarrow> job_row \<Rightarrow> bool" where
  "dated now j \<longleftrightarrow>
     j_submitted_at j \<le> now
     \<and> (\<forall>c. j_claimed_at j = Some c \<longrightarrow> j_submitted_at j \<le> c \<and> c \<le> now)
     \<and> (leased j \<or> j_state j \<in> set result_states \<or> j_state j = Dead_lettered \<longrightarrow> j_claimed_at j \<noteq> None)
     \<and> (j_state j \<notin> set UNFINISHED_STATES \<longrightarrow>
          (\<exists>f. j_finished_at j = Some f \<and> f \<le> now \<and> (\<forall>c. j_claimed_at j = Some c \<longrightarrow> c \<le> f)))"

definition all_dated :: "time \<Rightarrow> db \<Rightarrow> bool" where
  "all_dated now d \<longleftrightarrow> (\<forall>j \<in> set (jobs d). dated now j)"

lemma dated_mono: "dated now j \<Longrightarrow> now \<le> now' \<Longrightarrow> dated now' j"
  by (fastforce simp: dated_def)

lemma all_dated_mono: "all_dated now d \<Longrightarrow> now \<le> now' \<Longrightarrow> jobs d' = jobs d \<Longrightarrow> all_dated now' d'"
  by (auto simp: all_dated_def intro: dated_mono)

lemma dated_update:
  assumes "all_dated now d" and "now \<le> now'" and "\<And>k. k \<in> set (jobs d) \<Longrightarrow> j_id k = i \<Longrightarrow> dated now' (f k)"
  shows "all_dated now' (update_job i f d)"
  using assms by (auto simp: all_dated_def update_job_def intro: dated_mono)

lemma dated_attempts [simp]: "all_dated now (update_attempt i n g d) = all_dated now d"
  by (simp add: all_dated_def)

text \<open>A row that is leased and keeps its times, and one that ends at \<open>t\<close>.\<close>

lemma dated_leased:
  assumes "dated now j" and "now \<le> now'" and "leased j" and "leased k"
    and "j_submitted_at k = j_submitted_at j" and "j_claimed_at k = j_claimed_at j"
  shows "dated now' k"
  using dated_mono [OF assms(1,2)] assms(3-) by (auto simp: dated_def state_list_defs)

lemma dated_ended:
  assumes "dated now j" and "now \<le> t" and "t \<le> now'" and "leased j" and "j_finished_at k = Some t"
    and "j_submitted_at k = j_submitted_at j" and "j_claimed_at k = j_claimed_at j"
  shows "dated now' k"
  using assms by (fastforce simp: dated_def)

lemma submit_dated:
  assumes "all_dated now d" and "now \<le> t" and "t \<le> now'"
  shows "all_dated now' (snd (submit_batch sha t label js key m policy d))"
proof -
  have "dated now' j" if "j \<in> set (new_rows sha t b m policy i js)" for j b i
    using that assms(3) by (auto simp: new_rows_def new_row_def dated_def state_list_defs)
  moreover have "dated now' j" if "j \<in> set (jobs d)" for j
    using that assms by (auto simp: all_dated_def intro: dated_mono)
  ultimately show ?thesis by (auto simp: submit_batch_def all_dated_def Let_def split: option.splits)
qed

lemma claim_dated:
  assumes "all_dated now d" and "during now now' clk" and "tables_ok d"
  shows "all_dated now' (snd (claim locked scan clk w lease d))"
proof (cases "oldest_claimable locked scan d")
  case None
  then show ?thesis using all_dated_mono [OF assms(1) duringD(1) [OF assms(2)]] by (simp add: claim_def)
next
  case (Some j)
  note j = oldest_claimable_Some [OF Some]
  have "dated now j" using assms(1) j(1) by (simp add: all_dated_def)
  then have "dated now' (claim_row clk w lease j)"
    using duringD(2) [OF assms(2), of 0] duringD(3) [OF assms(2), of 0]
    by (auto simp: dated_def claim_row_def state_list_defs)
  then have "all_dated now' (update_job (j_id j) (claim_row clk w lease) d)"
    using job_unique [OF assms(3) _ j(1)] by (intro dated_update [OF assms(1) duringD(1) [OF assms(2)]]) auto
  then show ?thesis by (simp add: claim_def Some Let_def all_dated_def)
qed

lemma start_dated:
  assumes "all_dated now d" and "during now now' clk" and "tables_ok d"
  shows "all_dated now' (snd (start clk i n d))"
proof (cases "\<exists>j \<in> set (jobs d). start_ok (clk 0) i n Claimed j")
  case True
  then obtain j where j: "j \<in> set (jobs d)" "start_ok (clk 0) i n Claimed j" by blast
  have leased: "leased k" if "k \<in> set (jobs d)" "j_id k = i" for k
    using job_unique [OF assms(3) that(1) j(1)] that(2) j(2) by (simp add: start_ok_def leased_states_def)
  have "dated now' (k\<lparr>j_state := Running, j_started_at := Some (clk 1), j_updated_at := clk 2\<rparr>)"
    if "k \<in> set (jobs d)" "j_id k = i" for k
    using assms(1) that leased [OF that]
    by (intro dated_leased [OF _ duringD(1) [OF assms(2)], of k]) (simp_all add: all_dated_def leased_states_def)
  with True show ?thesis
    by (auto simp: start_def intro!: dated_update [OF assms(1) duringD(1) [OF assms(2)]])
next
  case False
  then show ?thesis using all_dated_mono [OF assms(1) duringD(1) [OF assms(2)]] by (simp add: start_def)
qed

lemma heartbeat_dated:
  assumes "all_dated now d" and "during now now' clk" and "tables_ok d"
  shows "all_dated now' (snd (heartbeat clk i n lease d))"
proof (cases "find (\<lambda>j. holds i n j \<and> sql_gt (j_lease_expires_at j) (clk 0)) (jobs d)")
  case None
  then show ?thesis using all_dated_mono [OF assms(1) duringD(1) [OF assms(2)]] by (simp add: heartbeat_def)
next
  case (Some j)
  have "dated now' (k\<lparr>j_lease_expires_at := x, j_updated_at := y\<rparr>)" if "k \<in> set (jobs d)" "j_id k = i" for k x y
    using assms(1) that held_unique(1) [OF assms(3) Some that]
    by (intro dated_leased [OF _ duringD(1) [OF assms(2)], of k]) (simp_all add: all_dated_def)
  then show ?thesis
    by (auto simp: heartbeat_def Some Let_def intro!: dated_update [OF assms(1) duringD(1) [OF assms(2)]])
qed

lemma cancel_dated:
  assumes "all_dated now d" and "during now now' clk" and "tables_ok d"
  shows "all_dated now' (snd (cancel clk i d))"
proof (cases "find (\<lambda>j. j_id j = i \<and> j_state j \<in> set UNFINISHED_STATES) (jobs d)")
  case None
  then show ?thesis using all_dated_mono [OF assms(1) duringD(1) [OF assms(2)]] by (simp add: cancel_def)
next
  case (Some j)
  note j = find_Some_mem [OF Some]
  have "dated now' (cancel_row clk k)" if k: "k \<in> set (jobs d)" "j_id k = i" for k
  proof -
    have "dated now k" "j_state k \<in> set UNFINISHED_STATES"
      using assms(1) k job_unique [OF assms(3) k(1), of j] j by (simp_all add: all_dated_def)
    show ?thesis
    proof (cases "j_state k = Queued")
      case True
      then show ?thesis
        using \<open>dated now k\<close> duringD(1) [OF assms(2)] duringD(2) [OF assms(2), of 0] duringD(3) [OF assms(2), of 0]
        by (auto simp: dated_def cancel_row_def state_list_defs)
    next
      case False
      then show ?thesis
        using \<open>dated now k\<close> \<open>j_state k \<in> set UNFINISHED_STATES\<close>
        by (intro dated_leased [OF _ duringD(1) [OF assms(2)], of k]) (auto simp: cancel_row_def state_list_defs)
    qed
  qed
  then show ?thesis
    by (auto simp: cancel_def Some intro!: dated_update [OF assms(1) duringD(1) [OF assms(2)]])
qed

lemma finish_cancelled_sql_dated:
  assumes "all_dated now d" and "now \<le> t" and "t \<le> now'" and "tables_ok d"
  shows "all_dated now' (snd (finish_cancelled_sql t i n d))"
proof (cases "find (\<lambda>j. holds i n j \<and> sql_gt (j_lease_expires_at j) t \<and> j_cancel_requested_at j \<noteq> None) (jobs d)")
  case None
  then show ?thesis using all_dated_mono [OF assms(1), of now' d] assms(2,3) by (simp add: finish_cancelled_sql_def)
next
  case (Some j)
  have "dated now' (k\<lparr>j_state := Cancelled, j_lease_expires_at := None, j_finished_at := Some t, j_updated_at := t\<rparr>)"
    if "k \<in> set (jobs d)" "j_id k = i" for k
    using assms(1) that held_unique(1) [OF assms(4) Some that]
    by (intro dated_ended [OF _ assms(2,3), of k]) (simp_all add: all_dated_def)
  moreover have "now \<le> now'" using assms(2,3) by (rule order_trans)
  ultimately show ?thesis
    unfolding finish_cancelled_sql_def Some by (simp add: dated_update [OF assms(1)])
qed

lemma publish_dated:
  assumes "all_dated now d" and "during now now' clk" and "tables_ok d"
  shows "all_dated now' (snd (publish clk i n w v body d))"
proof (cases "find (holds i n) (jobs d)")
  case None
  then show ?thesis using all_dated_mono [OF assms(1) duringD(1) [OF assms(2)]] by (simp add: publish_def)
next
  case (Some j)
  have ended: "dated now' (k\<lparr>j_state := s, j_result_id := x, j_lease_expires_at := None, j_finished_at := Some (clk 1),
      j_updated_at := y\<rparr>)" if "k \<in> set (jobs d)" "j_id k = i" for k s x y
    using assms(1) that held_unique(1) [OF assms(3), of i n "\<lambda>_. True"] Some
    by (intro dated_ended [OF _ duringD(2) [OF assms(2), of 1] duringD(3) [OF assms(2)], of k]) (simp_all add: all_dated_def)
  have "all_dated now (d\<lparr>results := rs, next_result_id := x\<rparr>)" for rs x using assms(1) by (simp add: all_dated_def)
  note results = dated_update [OF this duringD(1) [OF assms(2)]]
  show ?thesis
    using finish_cancelled_sql_dated [OF assms(1) duringD(2) [OF assms(2), of 0] duringD(3) [OF assms(2)] assms(3)]
      all_dated_mono [OF assms(1) duringD(1) [OF assms(2)]] ended
    by (auto simp: publish_def Some Let_def intro!: results)
qed

lemma end_attempts_dated:
  assumes "all_dated now d" and "now \<le> t" and "t \<le> now'" and "\<And>j. chosen j \<Longrightarrow> leased j"
  shows "all_dated now' (snd (end_attempts chosen ending t error retry d))"
proof -
  have "dated now' (end_job t error retry j)" if "dated now j" "leased j" for j
  proof (cases "may_retry j")
    case True
    then show ?thesis using that assms(2,3) by (auto simp: dated_def end_job_def state_list_defs)
  next
    case False
    then show ?thesis
      by (intro dated_ended [OF that(1) assms(2,3) that(2)]) (simp_all add: end_job_def)
  qed
  moreover have "dated now' j" if "dated now j" for j using that assms(2,3) by (auto intro: dated_mono)
  ultimately show ?thesis
    using assms(1,4) by (auto simp: all_dated_def end_attempts_def Let_def)
qed

lemma fleet_step_dated:
  assumes "fleet_step sha (now, d) (now', d')" and "tables_ok d" and "all_dated now d"
  shows "all_dated now' d'"
  using assms(1)
proof (cases rule: fleet_step.cases)
  case (step_finish_cancelled clk i n)
  then show ?thesis
    using finish_cancelled_sql_dated [OF assms(3) duringD(2) [of now now' clk 0] duringD(3) [of now now' clk 0] assms(2), of i n]
    by (auto simp: finish_cancelled_def split: prod.splits bool.splits)
next
  case (step_release clk i n error retry)
  then show ?thesis
    using end_attempts_dated [OF assms(3) duringD(2) [of now now' clk 0] duringD(3) [of now now' clk 0], of
        "\<lambda>j. holds i n j \<and> sql_gt (j_lease_expires_at j) (clk 0)" Released error retry]
    by (auto simp: release_def holds_def split: prod.splits list.splits)
next
  case (step_reap clk locked retry)
  then show ?thesis
    using end_attempts_dated [OF assms(3) duringD(2) [of now now' clk 0] duringD(3) [of now now' clk 0], of
        "\<lambda>j. leased j \<and> sql_le (j_lease_expires_at j) (clk 0) \<and> j_id j \<notin> locked" Lease_expired LEASE_EXPIRED retry]
    by (auto simp: reap_def split: prod.splits)
qed (use assms(2,3) in \<open>auto simp: record_execution_def duringD
    intro: all_dated_mono submit_dated claim_dated start_dated heartbeat_dated cancel_dated publish_dated\<close>)

text \<open>Dated rows and the tables' own invariant are kept together by every step of the fleet.\<close>

fun dated_inv :: "fleet \<Rightarrow> bool" where
  "dated_inv (now, d) \<longleftrightarrow> db_inv now d \<and> all_dated now d"

lemma empty_dated: "all_dated now empty_db"
  by (simp add: all_dated_def empty_db_def)

interpretation dated_runs: invariant_system fleet_init "fleet_step sha" dated_inv for sha
proof unfold_locales
  fix s assume "fleet_init s"
  then show "dated_inv s" by (cases s) (simp add: empty_db_inv empty_dated)
next
  fix s t assume inv: "dated_inv s" and step: "fleet_step sha s t"
  obtain now d where s: "s = (now, d)" by (cases s)
  obtain now' d' where t: "t = (now', d')" by (cases t)
  have "db_inv now d" "all_dated now d" using inv s by simp_all
  then have "all_dated now' d'" using fleet_step_dated [of sha now d now' d'] step s t inv_tables by blast
  moreover have "db_inv now' d'" using fleet_step_inv [of s sha t] step \<open>db_inv now d\<close> s t by simp
  ultimately show "dated_inv t" using t by simp
qed

lemma reachable_dated:
  assumes "fleet_reachable sha (now, d)" and "j \<in> set (jobs d)"
  shows "dated now j"
  using dated_runs.inv_reach [OF assms(1)] assms(2) by (simp add: all_dated_def)

end
