(* ===== verification/Bench_Fleet.thy ===== *)
theory Bench_Fleet
  imports Bench_Runner Bench_Compare Fleet_Dates
begin

text \<open>
  A benchmark batch through the fleet (\<^verbatim>\<open>bench/fleet_executor.py\<close>): what the executor is made of, the commands of
  the processes it starts, the jobs it submits, and the results it rebuilds from the fleet's tables once the batch
  is done. Starting, watching and stopping the processes is not modelled.

  The lemmas lead to the theorem that a batch the fleet has drained is collected in full.
\<close>

section \<open>The executor\<close>

definition pool_topology :: "int \<Rightarrow> string \<Rightarrow> bool \<Rightarrow> string" where
  "pool_topology workers database containers =
     ''single host: '' @ (if workers = 1 then ''one fleet worker process'' else show_int workers @ '' fleet worker processes'')
     @ '', the fleet api and '' @ database @ '', all on this machine''
     @ (if containers then ''; each job in a container of its own'' else [])"

record fleet_executor =
  fx_workers :: int
  fx_container :: bool
  fx_topology :: string
  fx_execution :: "(string \<times> json) list"
  fx_url :: string
  fx_lease :: "rat option"
  fx_image :: string
  fx_policy :: execution_policy
  fx_deployment :: string
  fx_postgres_pid :: "int option"
  fx_runner :: string

definition new_fleet_executor ::
  "string \<Rightarrow> int \<Rightarrow> rat option \<Rightarrow> string option \<Rightarrow> bool \<Rightarrow> string \<Rightarrow> string option \<Rightarrow> execution_policy \<Rightarrow> int option
   \<Rightarrow> string \<Rightarrow> string \<Rightarrow> string + fleet_executor" where
  "new_fleet_executor url workers lease topology container img image_id policy postgres_pid runner token =
     (if workers < 1 then Inl ''the fleet needs at least one worker''
      else Inr \<lparr>fx_workers = workers, fx_container = container,
             fx_topology = text_or topology (pool_topology workers ''Postgres'' container),
             fx_execution =
               [(''mode'', JStr (if container then ''container'' else ''process'')), (''policy'', policy_json policy)]
               @ (if container then [(''image'', JStr img), (''image_id'', option_json JStr image_id)] else []),
             fx_url = url, fx_lease = lease, fx_image = img, fx_policy = policy,
             fx_deployment = ''bench-'' @ take 8 token, fx_postgres_pid = postgres_pid, fx_runner = runner\<rparr>)"

text \<open>The commands it runs; \<open>rep\<close> is \<^verbatim>\<open>str\<close> of a number, and \<open>stats\<close> the directory the workers write to.\<close>

definition api_args :: "int \<Rightarrow> string list" where
  "api_args port =
     [''-m'', ''uvicorn'', ''fleet.api:app'', ''--host'', ''127.0.0.1'', ''--port'', show_int port, ''--log-level'', ''warning'',
      ''--no-access-log'']"

definition worker_options :: "(rat \<Rightarrow> string) \<Rightarrow> fleet_executor \<Rightarrow> string list" where
  "worker_options rep x =
     (case fx_lease x of None \<Rightarrow> [] | Some s \<Rightarrow> [''--lease-seconds'', rep s])
     @ (if fx_container x
        then [''--execution'', ''container'', ''--task-image'', fx_image x, ''--deployment'', fx_deployment x] else [])"

definition worker_args :: "(rat \<Rightarrow> string) \<Rightarrow> string \<Rightarrow> fleet_executor \<Rightarrow> nat \<Rightarrow> string list" where
  "worker_args rep stats x index =
     (let w = CHR ''w'' # show_nat index
      in [''-m'', ''fleet.worker'', ''--runner'', fx_runner x, ''--worker-id'', w, ''--database-url'', fx_url x]
         @ worker_options rep x
         @ [''--ready-file'', stats @ ''/'' @ w @ ''.ready'', ''--stats-out'', stats @ ''/'' @ w @ ''.json''])"

text \<open>The process trees it measures, and the jobs it submits, as one batch.\<close>

definition process_groups :: "fleet_executor \<Rightarrow> int list \<Rightarrow> int \<Rightarrow> int list \<Rightarrow> (string \<times> int list) list" where
  "process_groups x worker_pids api_pid docker_pids =
     [(''workers'', worker_pids), (''api'', [api_pid]),
      (''postgres'', case fx_postgres_pid x of None \<Rightarrow> [] | Some p \<Rightarrow> [p]), (''docker'', docker_pids)]"

fun new_jobs :: "task_set \<Rightarrow> (bench_task \<Rightarrow> json) \<Rightarrow> bench_job list \<Rightarrow> string + new_job list" where
  "new_jobs ts payload_for [] = Inr []"
| "new_jobs ts payload_for (j # js) =
     (case get_task ts (bj_task_id j) of
        Inl e \<Rightarrow> Inl e
      | Inr t \<Rightarrow> map_sum id (Cons \<lparr>n_name = bj_id j, n_payload = payload_for t\<rparr>) (new_jobs ts payload_for js))"

definition database_calls :: "fleet_executor \<Rightarrow> (string \<times> call_stats) list list \<Rightarrow> (string \<times> call_stats) list option" where
  "database_calls x reports = (if int (length reports) = fx_workers x then Some (combine_calls reports) else None)"

section \<open>Collecting the results\<close>

definition DEAD_LETTERED :: task_execution where
  "DEAD_LETTERED =
     \<lparr>te_outcome = OUT_FAILED, te_failure_mode = Some ''dead_lettered'', te_failure_kind = Some KIND_INFRA,
      te_matched_expectation = False, te_termination_reason = ''dead_lettered'', te_iterations = 0, te_llm_calls = 0,
      te_prompt_tokens = 0, te_completion_tokens = 0, te_retry_wait_seconds = 0, te_divergence = None,
      te_served_models = [], te_fingerprints = [], te_output = None\<rparr>"

fun ending_text :: "ending \<Rightarrow> string" where
  "ending_text Published = ''published''"
| "ending_text Lease_expired = ''lease_expired''"
| "ending_text Released = ''released''"
| "ending_text Ended_cancelled = ''cancelled''"

definition seconds_since :: "time \<Rightarrow> time \<Rightarrow> seconds" where
  "seconds_since origin moment = of_int (moment - origin) / 1000000"

definition attempt_run_of :: "time \<Rightarrow> attempt_row \<Rightarrow> attempt_run" where
  "attempt_run_of origin a =
     \<lparr>at_attempt = a_attempt a, at_worker = a_worker_id a, at_claimed_at = seconds_since origin (a_claimed_at a),
      at_ended_at = map_option (seconds_since origin) (a_ended_at a), at_ended_by = map_option ending_text (a_ended_by a),
      at_error = a_error a\<rparr>"

text \<open>What a job's final attempt where_run in: an object or nothing.\<close>

fun members :: "json option \<Rightarrow> (string \<times> json) list option option" where
  "members None = Some None"
| "members (Some JNull) = Some None"
| "members (Some (JObj kvs)) = Some (Some kvs)"
| "members (Some _) = None"

definition jobs_by_name :: "bench_job list \<Rightarrow> (string \<times> bench_job) list" where
  "jobs_by_name js = dict_of (map (\<lambda>j. (bj_id j, j)) js)"

text \<open>The execution of a job and the recording it sent, \<open>None\<close> when its body cannot be read.\<close>

definition execution_of_result :: "result_row option \<Rightarrow> (task_execution \<times> recording option) option" where
  "execution_of_result p =
     (case p of
        None \<Rightarrow> Some (DEAD_LETTERED, None)
      | Some r \<Rightarrow> do { x \<leftarrow> execution_from_body (r_body r); g \<leftarrow> recording_from_body (r_body r); Some (x, g) })"

definition row_result ::
  "task_set \<Rightarrow> bench_job list \<Rightarrow> int \<Rightarrow> db \<Rightarrow> time \<Rightarrow> job_row \<Rightarrow> string + bench_result \<times> recording option" where
  "row_result ts js batch d origin j =
     (let published = job_result (j_id j) d; dead = (j_state j = Dead_lettered)
      in case (j_claimed_at j, j_finished_at j) of
           (Some claimed, Some finished) \<Rightarrow>
             if published = None \<and> \<not> dead then Inl (''job '' @ j_name j @ '' finished without a complete record'')
             else (case dict_get (jobs_by_name js) (j_name j) of
                     None \<Rightarrow> Inl ''KeyError''
                   | Some b \<Rightarrow>
                       (case execution_of_result published of
                          None \<Rightarrow> Inl ''ValidationError''
                        | Some (x, g) \<Rightarrow>
                            (case get_task ts (bj_task_id b) of
                               Inl e \<Rightarrow> Inl e
                             | Inr t \<Rightarrow>
                                 (case members (Option.bind (dict_get (executions batch d) (j_id j)) id) of
                                    None \<Rightarrow> Inl ''ValidationError''
                                  | Some where_run \<Rightarrow>
                                      Inr (job_result_of b t x (text_or (j_worker_id j) []) (j_attempt j)
                                             (seconds_since origin (j_submitted_at j)) (seconds_since origin claimed)
                                             (seconds_since origin finished) where_run
                                             (Some (map (attempt_run_of origin)
                                                (case dict_get (attempt_history batch d) (j_id j) of None \<Rightarrow> [] | Some l \<Rightarrow> l))),
                                           g)))))
         | _ \<Rightarrow> Inl (''job '' @ j_name j @ '' finished without a complete record''))"

fun collect :: "(string + 'a) list \<Rightarrow> string + 'a list" where
  "collect [] = Inr []"
| "collect (x # xs) = (case x of Inl e \<Rightarrow> Inl e | Inr y \<Rightarrow> map_sum id (Cons y) (collect xs))"

definition fleet_results ::
  "task_set \<Rightarrow> bench_job list \<Rightarrow> int \<Rightarrow> db \<Rightarrow> string + bench_result list \<times> recording list" where
  "fleet_results ts js batch d =
     (let rows = batch_jobs batch d
      in if rows = [] then Inl ''min() of an empty sequence''
         else let origin = Min (set (map j_submitted_at rows))
              in map_sum id (\<lambda>rs. (map fst rs, [g. Some g \<leftarrow> map snd rs])) (collect (map (row_result ts js batch d origin) rows)))"

section \<open>What a drained batch is collected as\<close>

lemma collect_all: "(\<And>x. x \<in> set xs \<Longrightarrow> f x = Inr (g x)) \<Longrightarrow> collect (map f xs) = Inr (map g xs)"
  by (induction xs) simp_all

lemma job_of_name: "dict_get (jobs_by_name js) n = Some b \<Longrightarrow> bj_id b = n"
  unfolding jobs_by_name_def by (auto dest!: dict_get_mem set_dict_of)

text \<open>A job's history is its log.\<close>

lemma history_of_job:
  assumes inv: "db_inv now d" and j: "j \<in> set (batch_jobs batch d)"
  shows "(case dict_get (attempt_history batch d) (j_id j) of None \<Rightarrow> [] | Some l \<Rightarrow> l) = log_of (j_id j) d"
proof -
  have job: "j \<in> set (jobs d)" "j_batch_id j = batch" using j by (simp_all add: batch_jobs_def)
  have hist: "attempt_history batch d = fold add_pair (map (\<lambda>a. (a_job_id a, a)) (batch_attempts batch d)) []"
    by (simp add: attempt_history_def fold_map comp_def add_pair_def [abs_def])
  have log: "filter (\<lambda>a. a_job_id a = j_id j) (batch_attempts batch d) = sort_key (\<lambda>a. (a_job_id a, a_attempt a)) (log_of (j_id j) d)"
    unfolding batch_attempts_def log_of_def filter_sort filter_filter
    by (rule arg_cong [of _ _ "sort_key _"], rule filter_cong) (use job in auto)
  have "map (\<lambda>a. (a_job_id a, a_attempt a)) (log_of (j_id j) d) = map (Pair (j_id j)) (map a_attempt (log_of (j_id j) d))"
    by (simp add: log_of_def)
  also have "map a_attempt (log_of (j_id j) d) = [1..j_attempt j]" using inv_job [OF inv job(1)] by (simp add: job_ok_def)
  finally have "sorted (map (\<lambda>a. (a_job_id a, a_attempt a)) (log_of (j_id j) d))"
    by (simp add: sorted_map sorted_wrt_upto)
  then have "filter (\<lambda>a. a_job_id a = j_id j) (batch_attempts batch d) = log_of (j_id j) d"
    unfolding log by (rule sort_key_sorted_id)
  then show ?thesis
    unfolding hist dict_get_add_pairs by (simp add: Let_def filter_map comp_def)
qed

lemma execution_of_job:
  assumes "dict_get (executions batch d) i = Some e"
  shows "\<exists>a \<in> set (attempts d). e = a_execution a"
  using assms unfolding executions_def by (auto dest!: dict_get_mem set_dict_of)

text \<open>What a result says of the row it was made from.\<close>

definition collected :: "db \<Rightarrow> job_row \<Rightarrow> bench_result \<Rightarrow> bool" where
  "collected d j r \<longleftrightarrow>
     jr_job_id r = j_name j \<and> jr_attempts r = j_attempt j
     \<and> 0 \<le> jr_submitted_at r \<and> jr_submitted_at r \<le> jr_claimed_at r \<and> jr_claimed_at r \<le> jr_finished_at r
     \<and> map_option (map at_attempt) (jr_attempt_history r) = Some [1..j_attempt j]
     \<and> (case job_result (j_id j) d of
          None \<Rightarrow> j_state j = Dead_lettered \<and> jr_outcome r = OUT_FAILED \<and> jr_failure_kind r = Some KIND_INFRA
            \<and> \<not> jr_matched_expectation r
        | Some p \<Rightarrow> outcome_state (r_outcome p) = j_state j
            \<and> (\<exists>x. execution_from_body (r_body p) = Some x \<and> jr_outcome r = te_outcome x
                 \<and> jr_failure_mode r = te_failure_mode x \<and> jr_matched_expectation r = te_matched_expectation x
                 \<and> jr_prompt_tokens r = te_prompt_tokens x \<and> jr_completion_tokens r = te_completion_tokens x))"

lemma seconds_mono: "x \<le> y \<Longrightarrow> seconds_since origin x \<le> seconds_since origin y"
  by (simp add: seconds_since_def divide_right_mono)

lemma seconds_nonneg: "origin \<le> x \<Longrightarrow> 0 \<le> seconds_since origin x"
  by (simp add: seconds_since_def)

lemma find_filter: "find P xs = find (\<lambda>_. True) (filter P xs)"
  by (induction xs) simp_all

text \<open>Of a final job that was not cancelled there is a result, or it is a dead letter.\<close>

lemma final_result:
  assumes "db_inv now d" and "j \<in> set (jobs d)" and "j_state j \<in> set FINAL_STATES" and "j_state j \<noteq> Cancelled"
  shows "case job_result (j_id j) d of None \<Rightarrow> j_state j = Dead_lettered | Some p \<Rightarrow> outcome_state (r_outcome p) = j_state j"
proof -
  have found: "job_result (j_id j) d = find (\<lambda>_. True) (results_of (j_id j) d)"
    unfolding job_result_def results_of_def by (rule find_filter)
  show ?thesis
    using inv_job [OF assms(1,2)] assms(3,4) unfolding found
    by (cases "j_state j")
      (auto simp: job_ok_def state_ok_def result_ok_def state_list_defs chk_states split: list.splits if_splits)
qed

lemma cancelled_no_result:
  assumes "db_inv now d" and "j \<in> set (jobs d)" and "j_state j = Cancelled"
  shows "job_result (j_id j) d = None"
proof -
  have "results_of (j_id j) d = []"
    using inv_job [OF assms(1,2)] assms(3) by (auto simp: job_ok_def state_ok_def state_list_defs)
  then show ?thesis by (auto simp: job_result_def results_of_def find_None_iff filter_empty_conv)
qed

text \<open>What the theorem below asks of the batch: its jobs and tasks are known, and its bodies can be read.\<close>

definition known_jobs :: "task_set \<Rightarrow> bench_job list \<Rightarrow> job_row list \<Rightarrow> bool" where
  "known_jobs ts js rows \<longleftrightarrow>
     list_all (\<lambda>j. case dict_get (jobs_by_name js) (j_name j) of
                   None \<Rightarrow> False | Some b \<Rightarrow> (case get_task ts (bj_task_id b) of Inl _ \<Rightarrow> False | Inr _ \<Rightarrow> True)) rows"

definition readable_batch :: "db \<Rightarrow> job_row list \<Rightarrow> bool" where
  "readable_batch d rows \<longleftrightarrow>
     list_all (\<lambda>j. execution_of_result (job_result (j_id j) d) \<noteq> None) rows
     \<and> list_all (\<lambda>a. members (a_execution a) \<noteq> None) (attempts d)"

lemma row_collected:
  assumes inv: "db_inv now d" and times: "dated now j" and j: "j \<in> set (batch_jobs batch d)"
    and final: "j_state j \<in> set FINAL_STATES" "j_state j \<noteq> Cancelled" and origin: "origin \<le> j_submitted_at j"
    and known: "known_jobs ts js [j]" and readable: "readable_batch d [j]"
  shows "\<exists>r g. row_result ts js batch d origin j = Inr (r, g) \<and> collected d j r"
proof -
  have job: "j \<in> set (jobs d)" using j by (simp add: batch_jobs_def)
  note result = final_result [OF inv job final]
  obtain b t where b: "dict_get (jobs_by_name js) (j_name j) = Some b" "get_task ts (bj_task_id b) = Inr t"
    using known by (auto simp: known_jobs_def split: option.splits sum.splits)
  obtain x g where x: "execution_of_result (job_result (j_id j) d) = Some (x, g)" using readable by (auto simp: readable_batch_def)
  obtain m where m: "members (Option.bind (dict_get (executions batch d) (j_id j)) id) = Some m"
  proof (cases "dict_get (executions batch d) (j_id j)")
    case (Some e)
    then show thesis using execution_of_job [OF Some] readable that by (auto simp: readable_batch_def list_all_iff)
  qed (use that in simp)
  obtain claimed finished where c: "j_claimed_at j = Some claimed" "j_finished_at j = Some finished"
    "j_submitted_at j \<le> claimed" "claimed \<le> finished"
    using times final by (cases "j_state j") (auto simp: dated_def state_list_defs chk_states)
  have "map at_attempt (map (attempt_run_of origin) (log_of (j_id j) d)) = [1..j_attempt j]"
    using inv_job [OF inv job] by (simp add: attempt_run_of_def comp_def job_ok_def)
  moreover have "0 \<le> seconds_since origin (j_submitted_at j)" using origin by (rule seconds_nonneg)
  ultimately show ?thesis
    using result x c seconds_mono [OF c(3), of origin] seconds_mono [OF c(4), of origin] job_of_name [OF b(1)]
    unfolding row_result_def history_of_job [OF inv j] Let_def
    by (auto simp: b m collected_def job_result_of_def execution_of_result_def DEAD_LETTERED_def bind_eq_Some_conv
        split: option.splits)
qed

lemma collect_Inl: "x \<in> set xs \<Longrightarrow> x = Inl e \<Longrightarrow> \<exists>e'. collect xs = Inl e'"
  by (induction xs) (auto split: sum.splits)

text \<open>
  C22. A batch that the fleet has finished, however its jobs were interleaved, retried and lost on the way, is collected
  in full exactly if none of its jobs was cancelled: one result per job, in the order they were submitted, with
  its times from the submission in order and every attempt in its history; the result of a published
  job is the execution its body holds, and that of a dead letter an infrastructure failure. (The names and tasks
  are the bench's own, and the bodies what its runner publishes.)
\<close>

theorem fleet_batch_collected:
  assumes reach: "fleet_reachable sha (now, d)" and some: "batch_jobs batch d \<noteq> []"
    and final: "list_all (\<lambda>j. j_state j \<in> set FINAL_STATES) (batch_jobs batch d)"
    and known: "known_jobs ts js (batch_jobs batch d)" and readable: "readable_batch d (batch_jobs batch d)"
  shows "(\<exists>rs gs. fleet_results ts js batch d = Inr (rs, gs) \<and> list_all2 (collected d) (batch_jobs batch d) rs)
      \<longleftrightarrow> list_all (\<lambda>j. j_state j \<noteq> Cancelled) (batch_jobs batch d)"
proof
  let ?rows = "batch_jobs batch d" and ?origin = "Min (set (map j_submitted_at (batch_jobs batch d)))"
  note inv = reachable_inv [OF reach]
  {
    assume live: "list_all (\<lambda>j. j_state j \<noteq> Cancelled) ?rows"
    have row: "\<exists>p. row_result ts js batch d ?origin j = Inr p \<and> collected d j (fst p)" if j: "j \<in> set ?rows" for j
    proof -
      have first: "?origin \<le> j_submitted_at j" using j by (intro Min_le) auto
      have times: "dated now j" using reachable_dated [OF reach] j by (simp add: batch_jobs_def)
      have there: "known_jobs ts js [j]" "readable_batch d [j]"
        using known readable j by (simp_all add: known_jobs_def readable_batch_def list_all_iff)
      have ends: "j_state j \<in> set FINAL_STATES" "j_state j \<noteq> Cancelled" using final live j by (simp_all add: list_all_iff)
      obtain r g where "row_result ts js batch d ?origin j = Inr (r, g)" "collected d j r"
        using row_collected [OF inv times j ends first there] by blast
      then show ?thesis by (intro exI [of _ "(r, g)"]) simp
    qed
    then obtain p where p: "j \<in> set ?rows \<Longrightarrow> row_result ts js batch d ?origin j = Inr (p j) \<and> collected d j (fst (p j))" for j
      by metis
    have "collect (map (row_result ts js batch d ?origin) ?rows) = Inr (map p ?rows)" using p by (intro collect_all) blast
    moreover have "list_all2 (collected d) ?rows (map (fst \<circ> p) ?rows)" by (simp add: list_all2_conv_all_nth p)
    ultimately show "\<exists>rs gs. fleet_results ts js batch d = Inr (rs, gs) \<and> list_all2 (collected d) ?rows rs"
      using some by (simp add: fleet_results_def Let_def)
  }
  assume "\<exists>rs gs. fleet_results ts js batch d = Inr (rs, gs) \<and> list_all2 (collected d) ?rows rs"
  then obtain rs where all: "collect (map (row_result ts js batch d ?origin) ?rows) = Inr rs"
    using some by (auto simp: fleet_results_def Let_def map_sum_Inr)
  have "j_state j \<noteq> Cancelled" if j: "j \<in> set ?rows" for j
  proof
    assume c: "j_state j = Cancelled"
    have "job_result (j_id j) d = None" using cancelled_no_result [OF inv _ c] j by (simp add: batch_jobs_def)
    then have "\<exists>e. row_result ts js batch d ?origin j = Inl e" by (simp add: row_result_def c split: option.split)
    then show False using collect_Inl [of _ "map (row_result ts js batch d ?origin) ?rows"] j all by force
  qed
  then show "list_all (\<lambda>j. j_state j \<noteq> Cancelled) ?rows" by (simp add: list_all_iff)
qed

section \<open>A batch with a published job and a dead letter\<close>

definition demo_result :: task_execution where
  "demo_result = DEAD_LETTERED\<lparr>te_outcome := SOLVED, te_failure_mode := None, te_failure_kind := None,
     te_matched_expectation := True, te_termination_reason := ''finished'', te_prompt_tokens := 7\<rparr>"

definition demo_first :: db where
  "demo_first = snd (publish (\<lambda>_. 20) 1 1 ''w1'' Outcome_succeeded (ro_body (runner_outcome_of demo_result None)) demo_claimed)"

definition demo_again :: "time \<Rightarrow> db \<Rightarrow> db" where
  "demo_again t d = snd (reap {} (\<lambda>_. t + 40000000) DEFAULT_RETRY (snd (claim {} (\<lambda>_. t) (\<lambda>_. t) ''w1'' 30 d)))"

definition demo_drained :: db where
  "demo_drained = demo_again 50000000 (demo_again 30 demo_first)"

lemma demo_again_reachable:
  assumes "fleet_reachable demo_sha (now, d)" and "now \<le> t"
  shows "fleet_reachable demo_sha (t + 40000000, demo_again t d)"
  unfolding demo_again_def
  by (rule reach_step [OF reach_step [OF assms(1) step_claim [OF during_const [OF assms(2)]]] step_reap [OF during_const]]) simp

lemma demo_drained_reachable: "fleet_reachable demo_sha (90000000, demo_drained)"
proof -
  have "fleet_reachable demo_sha (20, demo_first)"
    unfolding demo_first_def
    by (rule reach_step [OF demo_claimed_reachable step_publish [OF during_const]], simp, code_simp)
  from demo_again_reachable [OF demo_again_reachable [OF this, of 30], of 50000000]
  show ?thesis by (simp add: demo_drained_def)
qed

definition demo_fleet_set :: task_set where
  "demo_fleet_set = \<lparr>tx_version = ''v1'', tx_tasks = [from_ticket demo_ticket]\<rparr>"

definition demo_fleet_jobs :: "bench_job list" where
  "demo_fleet_jobs = [\<lparr>bj_id = ''a'', bj_task_id = ''TCK-1'', bj_repeat = 0\<rparr>, \<lparr>bj_id = ''b'', bj_task_id = ''TCK-1'', bj_repeat = 1\<rparr>]"

lemma demo_states: "map j_state (batch_jobs 1 demo_drained) = [Succeeded, Dead_lettered]"
  by code_simp

theorem fleet_batch_collected_witness:
  "\<exists>rs gs. fleet_results demo_fleet_set demo_fleet_jobs 1 demo_drained = Inr (rs, gs) \<and> length rs = 2"
proof -
  have some: "batch_jobs 1 demo_drained \<noteq> []" using demo_states by auto
  have "list_all (\<lambda>s. s \<in> set FINAL_STATES) (map j_state (batch_jobs 1 demo_drained))"
    "list_all (\<lambda>s. s \<noteq> Cancelled) (map j_state (batch_jobs 1 demo_drained))"
    unfolding demo_states by (simp_all add: chk_states)
  then have final: "list_all (\<lambda>j. j_state j \<in> set FINAL_STATES) (batch_jobs 1 demo_drained)"
    and live: "list_all (\<lambda>j. j_state j \<noteq> Cancelled) (batch_jobs 1 demo_drained)"
    by (simp_all add: list.pred_map comp_def)
  have known: "known_jobs demo_fleet_set demo_fleet_jobs (batch_jobs 1 demo_drained)" by code_simp
  have readable: "readable_batch demo_drained (batch_jobs 1 demo_drained)" by code_simp
  from live fleet_batch_collected [OF demo_drained_reachable some final known readable]
  obtain rs gs where rs: "fleet_results demo_fleet_set demo_fleet_jobs 1 demo_drained = Inr (rs, gs)"
    "list_all2 (collected demo_drained) (batch_jobs 1 demo_drained) rs" by blast
  moreover have "length (batch_jobs 1 demo_drained) = 2" using arg_cong [OF demo_states, of length] by simp
  ultimately show ?thesis using list_all2_lengthD [OF rs(2)] by auto
qed

end
