(* ===== verification/Spec2Isabelle.thy ===== *)
theory Spec2Isabelle
  imports Fleet_Queue Fleet_Liveness Fleet_Containers Fleet_Failpoints Fleet_Api
    Agent_Isolation Agent_Mcp Tracker_Store Bench_Executor Eval_Report Eval_Api Chaos_Harness Bench_Fleet
begin

text \<open>
  A development of the agentic-coding-sandbox: a language model agent that solves programming tasks in a sandbox,
  the benchmark that measures it, and the fleet that runs benchmark jobs on many workers over a Postgres queue.
  Paths are below \<^verbatim>\<open>src/backend\<close>.

  \<^bold>\<open>The program.\<close> A client submits a batch of jobs to the fleet's api (\<^verbatim>\<open>fleet/api.py\<close>), which writes rows of four tables
  through the job store (\<^verbatim>\<open>fleet/store.py\<close>). Workers (\<^verbatim>\<open>fleet/worker.py\<close>) claim a job under a lease, extend it with
  heartbeats, run the job in the process or in a container (\<^verbatim>\<open>fleet/execution.py\<close>, \<^verbatim>\<open>fleet/containers.py\<close>), and publish,
  release or cancel it; every worker also reaps leases that ran out. A connection that drops is ridden through
  (\<^verbatim>\<open>fleet/connections.py\<close>). The chaos harness (\<^verbatim>\<open>chaos/\<close>) arms faults in these processes (\<^verbatim>\<open>fleet/failpoints.py\<close>) and
  judges what the database says afterwards (\<^verbatim>\<open>fleet/invariants.py\<close>). A benchmark job (\<^verbatim>\<open>bench/runner.py\<close>) runs the agent
  (\<^verbatim>\<open>app/agent\<close>) on a task (\<^verbatim>\<open>app/benchmark\<close>, \<^verbatim>\<open>app/tickets\<close>) in a sandbox (\<^verbatim>\<open>app/sandbox\<close>, \<^verbatim>\<open>app/mcp\<close>), recording the model's
  answers or replaying them (\<^verbatim>\<open>bench/replay.py\<close>); the results are measured, summarized, compared, stored, served and
  gated (\<^verbatim>\<open>bench/\<close>, \<^verbatim>\<open>app/eval\<close>, \<^verbatim>\<open>app/api\<close>).

  \<^bold>\<open>Conventions.\<close> A point on the database's clock is an integer of microseconds; durations and floating-point numbers
  are exact rationals; Python's integers are \<open>int\<close>, or \<open>nat\<close> for what is a count by construction. A string is the list
  of its UTF-8 bytes (\<open>Pystr\<close>), a JSON value the datatype of \<open>Json\<close>, a dictionary an association list in insertion order,
  a SQL row a record and a nullable column an option. Exceptions are the left of a sum, \<open>None\<close>, or a constructor.
  A store call is a function from the database to an answer and the database after it, since each is one transaction;
  \<open>clk k\<close> is the \<open>k\<close>-th reading of the clock in a call. What is not in the repository is an argument: SHA-256
  (\<open>sha\<close>), Python's \<^verbatim>\<open>json\<close>, \<^verbatim>\<open>int\<close>, \<^verbatim>\<open>float\<close>, \<^verbatim>\<open>repr\<close> and \<^verbatim>\<open>format\<close> (\<open>loads\<close>, \<open>dumps\<close>, \<open>to_int\<close>, \<open>to_float\<close>, \<open>rep\<close>, \<open>fmt\<close>), \<^verbatim>\<open>difflib\<close>
  (\<open>unified\<close>), random draws (\<open>pick\<close>, \<open>draws\<close>), the model (\<open>llm_complete\<close>), the files and commands of a machine.

  \<^bold>\<open>Theories.\<close> \<open>Prelude\<close> holds the base types, dictionaries, list lemmas and the locale \<open>invariant_system\<close> (an invariant kept
  by the steps of a system holds wherever it gets), interpreted by \<open>Fleet_Runs\<close>, \<open>Fleet_Dates\<close> and \<open>Chaos_Harness\<close> on
  their own steps. \<open>Pystr\<close> and \<open>Json\<close> model Python's strings and JSON.

  The fleet:
  \<^item> \<open>Fleet_Policy\<close> (\<^verbatim>\<open>fleet/policy.py\<close>, \<^verbatim>\<open>fleet/config.py\<close>): execution policies and the operator's ceilings.
  \<^item> \<open>Fleet_Models\<close> (\<^verbatim>\<open>fleet/models.py\<close> and the migrations): rows, tables, the constraints \<open>schema_ok\<close>.
  \<^item> \<open>Fleet_Store\<close> (\<^verbatim>\<open>fleet/store.py\<close>): \<open>submit_batch\<close>, \<open>claim\<close>, \<open>start\<close>, \<open>heartbeat\<close>, \<open>cancel\<close>, \<open>finish_cancelled\<close>, \<open>publish\<close>,
    \<open>release\<close>, \<open>reap\<close>, \<open>record_execution\<close> and the queries.
  \<^item> \<open>Fleet_Inv\<close>, \<open>Fleet_Runs\<close>: the invariant of the tables and its proof over the step relation \<open>fleet_step\<close>, any
    interleaving of calls by any processes; \<open>Fleet_Demo\<close> is a run for the witnesses.
  \<^item> \<open>Fleet_Checker\<close> (\<^verbatim>\<open>fleet/invariants.py\<close>): the checker passes every drained reachable database, and a clean report
    means what it should. \<open>Fleet_Lifecycle\<close>: every run refines the job state machine; a cancelled job has no result.
    \<open>Fleet_Dates\<close>: the times of a job are there and in order. \<open>Fleet_Queue\<close>: claiming, reaping and resubmitting, exactly.
  \<^item> \<open>Fleet_Calls\<close>, \<open>Fleet_Connections\<close> (\<^verbatim>\<open>fleet/connections.py\<close>): fencing; calls repeated after a lost answer, by the locale
    \<open>retryable\<close>, interpreted on \<open>finish_cancelled\<close>, \<open>publish\<close> and \<open>release\<close>; the retry loop ends.
  \<^item> \<open>Fleet_Worker\<close>, \<open>Fleet_Liveness\<close> (\<^verbatim>\<open>fleet/worker.py\<close>): a worker's step is a run of the fleet, and a worker alone
    drains the queue.
  \<^item> \<open>Fleet_Execution\<close> (\<^verbatim>\<open>fleet/execution.py\<close>, \<^verbatim>\<open>task.py\<close>, \<^verbatim>\<open>runners.py\<close>, \<^verbatim>\<open>progress.py\<close>): reports over a container's output and
    how an attempt's end is classified. \<open>Fleet_Containers\<close> (\<^verbatim>\<open>containers.py\<close>, \<^verbatim>\<open>egress.py\<close>): what a container gets and the
    proxy. \<open>Fleet_Failpoints\<close>, \<open>Fleet_Api\<close> (\<^verbatim>\<open>api.py\<close>, \<^verbatim>\<open>client.py\<close>).
  \<^item> \<open>Chaos_Scenarios\<close>, \<open>Chaos_Checks\<close>, \<open>Chaos_Harness\<close> (\<^verbatim>\<open>chaos/\<close>): the scenarios, the evidence and every effect check, and
    the supervision of processes and faults.

  The agent:
  \<^item> \<open>Agent_Protocol\<close> (\<^verbatim>\<open>app/sandbox/tools.py\<close>, \<^verbatim>\<open>app/agent/protocol.py\<close>): tool calls and their parsing. \<open>Agent_Loop\<close>
    (\<^verbatim>\<open>app/agent/loop.py\<close>): the loop. \<open>Agent_Sandbox\<close>, \<open>Agent_Isolation\<close> (\<^verbatim>\<open>app/sandbox\<close>): file tools over a tree with
    links, and the namespaces a command runs in. \<open>Agent_Mcp\<close> (\<^verbatim>\<open>app/mcp\<close>): the sandbox over MCP. \<open>Agent_Tasks\<close>
    (\<^verbatim>\<open>app/benchmark\<close>, \<^verbatim>\<open>app/tickets/runner.py\<close>): running and grading.
  \<^item> \<open>Tracker_Store\<close> (\<^verbatim>\<open>app/tracker\<close>): the tracker, whose interface is the locale \<open>ticket_store\<close>, interpreted on the store
    over a JSON file.

  The benchmark and the evaluation:
  \<^item> \<open>Bench_Replay\<close> (\<^verbatim>\<open>bench/replay.py\<close>), \<open>Bench_Metrics\<close> (\<^verbatim>\<open>jobs.py\<close>, \<^verbatim>\<open>metrics.py\<close>, \<^verbatim>\<open>prices.py\<close>), \<open>Bench_Executor\<close> (\<^verbatim>\<open>taskset.py\<close>,
    \<^verbatim>\<open>executor.py\<close>), \<open>Bench_Resources\<close> (\<^verbatim>\<open>resources.py\<close>, \<^verbatim>\<open>environment.py\<close>), \<open>Bench_Records\<close> (\<^verbatim>\<open>records.py\<close>), \<open>Bench_Compare\<close>
    (\<^verbatim>\<open>compare.py\<close>), \<open>Bench_Runner\<close> (\<^verbatim>\<open>runner.py\<close>, \<^verbatim>\<open>groq_limits.py\<close>) and \<open>Bench_Fleet\<close> (\<^verbatim>\<open>fleet_executor.py\<close>).
  \<^item> \<open>Comparison\<close>: the locale \<open>keyed_comparison\<close> of two keyed runs, interpreted by \<open>Eval_Compare\<close> (\<^verbatim>\<open>app/eval/compare.py\<close>,
    \<^verbatim>\<open>gate.py\<close>) and \<open>Ticket_Eval\<close> (\<^verbatim>\<open>app/tickets/eval.py\<close>, \<^verbatim>\<open>compare.py\<close>). \<open>Eval_Report\<close> (\<^verbatim>\<open>app/eval/store.py\<close>, \<^verbatim>\<open>harness.py\<close>,
    \<^verbatim>\<open>import_results.py\<close>): from task directories through the tables to the gate. \<open>Eval_Api\<close> (\<^verbatim>\<open>app/api\<close>): what the dashboard
    reads, and the same answers as files.

  \<^bold>\<open>What the lemmas show.\<close> The properties are numbered C1 to C40, each stated in the text before its theorem. For the fleet:
  the invariants of the tables on every interleaving, the checker's soundness and completeness on drained runs,
  refinement of the job state machine, fencing, cancellation, retried calls, liveness of a worker, and what the bench
  reads back. For the agent: verified finishing, confinement of the file tools, isolation, agreement of transports,
  sound grading. For the benchmark: replay equivalence, what an execution, a stopped job and a recording become on
  their way through the database, metrics, process trees, summaries and comparisons; and when the dashboard's files are
  the answers of its api, and when one is written over another.

  \<^bold>\<open>Bounds and fuel.\<close> The agent's loop runs on its own bound, \<open>max_iterations\<close>. A worker's loop and the retry loop run on fuel:
  \<open>ride_through_ends\<close> and \<open>worker_drains_queue\<close> give the fuel that is enough (twenty tries a second allowed and one more; a
  turn a job and one more). Planning takes at most one round per job (\<open>plan_is_fair\<close>). The loops of the
  fleet's client run on fuel, and what is stated of them is stated of the runs it suffices for. Resolving a path ends
  because a link met again before it is known where it leads is a loop. Every other recursion ends by its termination
  proof.

  \<^bold>\<open>Not modelled.\<close> Framework wiring (FastAPI, SQLAlchemy sessions, alembic, MCP transport, asyncio), command lines, plots,
  reports written as text (\<^verbatim>\<open>bench/cli.py\<close>, \<^verbatim>\<open>bench/report.py\<close>), calls of the docker client and of the model's client,
  probes of the machine, data files, and the one-off analyses under \<^verbatim>\<open>docs/results\<close>: they are input and output around
  modelled operations, and what they return is an argument where it is used. Of a batch through the fleet the starting,
  watching and stopping of processes is left out; its submission, its run and its results are modelled. Pydantic's
  coercions are written out for the JSON its own dumps give. Floating-point rounding is not modelled.
\<close>

end
